(* ===== verification/Prelude.thy ===== *)
theory Prelude
  imports Main "HOL-Library.Sublist"
begin

text \<open>
  Shared vocabulary of the development.

  A Rust \<open>Result<T, E>\<close> is the sum \<open>'e + 'a\<close>: \<open>Inl e\<close> is \<open>Err(e)\<close>, \<open>Inr x\<close> is
  \<open>Ok(x)\<close>. The operator \<open>?\<close> is \<open>and_then\<close>, and \<open>iter.map(f).collect::<Result<Vec<_>, _>>()\<close>
  is \<open>traverse f\<close>, which stops at the first error.

  Two interfaces recur in the program and are stated here once, as locales:
  \<^item> \<open>text_codec\<close>: a type with a \<open>Display\<close> and a \<open>FromStr\<close> that read each other back
    (task IDs, output references, domain rules, sandbox paths, offsets, relay arguments);
  \<^item> \<open>name_table\<close>: an enum whose values a manifest selects by name (the macro
    \<open>name_table!\<close> of \<open>beez-policy/src/named.rs\<close>). It gives a \<open>text_codec\<close>.
  Each is interpreted in the theory of the component that provides it.
\<close>

named_theorems result_simps "rewriting of results and fallible loops"
named_theorems text_simps "rewriting of the string operations"

subsection \<open>Results\<close>

definition and_then :: "'e + 'a \<Rightarrow> ('a \<Rightarrow> 'e + 'b) \<Rightarrow> 'e + 'b" where
  "and_then r f = (case r of Inl e \<Rightarrow> Inl e | Inr x \<Rightarrow> f x)"

definition map_err :: "('e \<Rightarrow> 'f) \<Rightarrow> 'e + 'a \<Rightarrow> 'f + 'a" where
  "map_err f r = (case r of Inl e \<Rightarrow> Inl (f e) | Inr x \<Rightarrow> Inr x)"

definition ok_or :: "'e \<Rightarrow> 'a option \<Rightarrow> 'e + 'a" where
  "ok_or e v = (case v of None \<Rightarrow> Inl e | Some x \<Rightarrow> Inr x)"

definition to_option :: "'e + 'a \<Rightarrow> 'a option" where
  "to_option r = (case r of Inl e \<Rightarrow> None | Inr x \<Rightarrow> Some x)"

lemma and_then_simps [simp]:
  "and_then (Inl e) f = Inl e"
  "and_then (Inr x) f = f x"
  by (simp_all add: and_then_def)

lemma map_err_simps [simp]:
  "map_err g (Inl e) = Inl (g e)"
  "map_err g (Inr x) = Inr x"
  by (simp_all add: map_err_def)

lemma ok_or_simps [simp]:
  "ok_or e None = Inl e"
  "ok_or e (Some x) = Inr x"
  by (simp_all add: ok_or_def)

lemma to_option_simps [simp]:
  "to_option (Inl e) = None"
  "to_option (Inr x) = Some x"
  by (simp_all add: to_option_def)

lemma and_then_Inr_iff [result_simps]:
  "and_then r f = Inr y \<longleftrightarrow> (\<exists>x. r = Inr x \<and> f x = Inr y)"
  by (cases r) auto

lemma and_then_Inl_iff [result_simps]:
  "and_then r f = Inl e \<longleftrightarrow> r = Inl e \<or> (\<exists>x. r = Inr x \<and> f x = Inl e)"
  by (cases r) auto

lemma map_err_Inr_iff [result_simps]: "map_err g r = Inr x \<longleftrightarrow> r = Inr x"
  by (cases r) auto

lemma map_err_Inl_iff [result_simps]: "map_err g r = Inl f \<longleftrightarrow> (\<exists>e. r = Inl e \<and> f = g e)"
  by (cases r) auto

lemma ok_or_Inr_iff [result_simps]: "ok_or e v = Inr x \<longleftrightarrow> v = Some x"
  by (cases v) auto

lemma ok_or_Inl_iff [result_simps]: "ok_or e v = Inl f \<longleftrightarrow> v = None \<and> f = e"
  by (cases v) auto

lemma to_option_Some_iff [result_simps]: "to_option r = Some x \<longleftrightarrow> r = Inr x"
  by (cases r) auto

lemma not_Inl_iff: "(\<nexists>e. r = Inl e) \<longleftrightarrow> (\<exists>x. r = Inr x)"
  by (cases r) auto

lemma and_then_cong [fundef_cong]:
  "r = r' \<Longrightarrow> (\<And>x. r' = Inr x \<Longrightarrow> f x = f' x) \<Longrightarrow> and_then r f = and_then r' f'"
  by (cases r) auto

subsection \<open>Loops that stop at the first error\<close>

fun traverse :: "('a \<Rightarrow> 'e + 'b) \<Rightarrow> 'a list \<Rightarrow> 'e + 'b list" where
  "traverse f [] = Inr []"
| "traverse f (x # xs) =
     and_then (f x) (\<lambda>y. and_then (traverse f xs) (\<lambda>ys. Inr (y # ys)))"

lemma traverse_Inr_iff [result_simps]:
  "traverse f xs = Inr ys \<longleftrightarrow> list_all2 (\<lambda>x y. f x = Inr y) xs ys"
  by (induction xs arbitrary: ys) (auto simp: and_then_Inr_iff list_all2_Cons1)

lemma traverse_append:
  "traverse f (xs @ ys) =
     and_then (traverse f xs) (\<lambda>us. and_then (traverse f ys) (\<lambda>vs. Inr (us @ vs)))"
proof (induction xs)
  case Nil
  show ?case by (cases "traverse f ys") auto
next
  case (Cons x xs)
  then show ?case
    by (cases "f x"; cases "traverse f xs"; cases "traverse f ys") auto
qed

lemma traverse_Inl_split:
  "traverse f xs = Inl e \<Longrightarrow>
     \<exists>pre x post ys. xs = pre @ x # post \<and> traverse f pre = Inr ys \<and> f x = Inl e"
proof (induction xs)
  case Nil
  then show ?case by simp
next
  case (Cons a xs)
  show ?case
  proof (cases "f a")
    case (Inl e')
    with Cons.prems have "a # xs = [] @ a # xs \<and> traverse f [] = Inr [] \<and> f a = Inl e" by simp
    then show ?thesis by blast
  next
    case (Inr b)
    with Cons.prems have "traverse f xs = Inl e" by (simp add: and_then_Inl_iff)
    then obtain pre x post ys
      where xs: "xs = pre @ x # post" and "traverse f pre = Inr ys" and x: "f x = Inl e"
      using Cons.IH by blast
    with Inr have "traverse f (a # pre) = Inr (b # ys)" by simp
    with xs x show ?thesis by (metis append_Cons)
  qed
qed

lemma traverse_Inl_iff:
  "traverse f xs = Inl e \<longleftrightarrow>
     (\<exists>pre x post ys. xs = pre @ x # post \<and> traverse f pre = Inr ys \<and> f x = Inl e)"
proof
  assume "traverse f xs = Inl e"
  then show "\<exists>pre x post ys. xs = pre @ x # post \<and> traverse f pre = Inr ys \<and> f x = Inl e"
    by (rule traverse_Inl_split)
qed (auto simp: traverse_append)

lemma list_all2_inE: "list_all2 P xs ys \<Longrightarrow> x \<in> set xs \<Longrightarrow> \<exists>y\<in>set ys. P x y"
  by (induction rule: list_all2_induct) auto

lemma traverse_length: "traverse f xs = Inr ys \<Longrightarrow> length ys = length xs"
  by (auto simp: traverse_Inr_iff dest: list_all2_lengthD)

lemma traverse_nth: "traverse f xs = Inr ys \<Longrightarrow> i < length xs \<Longrightarrow> f (xs ! i) = Inr (ys ! i)"
  by (auto simp: traverse_Inr_iff list_all2_conv_all_nth)

lemma traverse_all_Inr:
  "(\<And>x. x \<in> set xs \<Longrightarrow> \<exists>y. f x = Inr y) \<Longrightarrow> \<exists>ys. traverse f xs = Inr ys"
  by (induction xs) fastforce+

lemma traverse_all_Inr_map:
  "(\<And>x. x \<in> set xs \<Longrightarrow> f x = Inr (g x)) \<Longrightarrow> traverse f xs = Inr (map g xs)"
  by (induction xs) auto

lemma traverse_Inl_in: "traverse f xs = Inl e \<Longrightarrow> \<exists>x\<in>set xs. f x = Inl e"
  by (auto simp: traverse_Inl_iff)

lemma traverse_Inr_in:
  "traverse f xs = Inr ys \<Longrightarrow> y \<in> set ys \<Longrightarrow> \<exists>x\<in>set xs. f x = Inr y"
  unfolding traverse_Inr_iff list_all2_conv_all_nth by (metis in_set_conv_nth)

lemma traverse_Inr_ex:
  "traverse f xs = Inr ys \<Longrightarrow> x \<in> set xs \<Longrightarrow> \<exists>y\<in>set ys. f x = Inr y"
  unfolding traverse_Inr_iff list_all2_conv_all_nth by (metis in_set_conv_nth)

lemma traverse_cong [fundef_cong]:
  "xs = ys \<Longrightarrow> (\<And>x. x \<in> set ys \<Longrightarrow> f x = g x) \<Longrightarrow> traverse f xs = traverse g ys"
  by (induction xs arbitrary: ys) (auto cong: and_then_cong)

subsection \<open>Fallible operations on a state\<close>

text \<open>
  An operation that changes a state and may fail, such as a call of a callback that writes to a log:
  the state is kept when it fails.
\<close>

type_synonym ('s, 'e, 'a) action = "'s \<Rightarrow> ('e + 'a) \<times> 's"

definition sreturn :: "'a \<Rightarrow> ('s, 'e, 'a) action" where
  "sreturn x = (\<lambda>s. (Inr x, s))"

definition sfail :: "'e \<Rightarrow> ('s, 'e, 'a) action" where
  "sfail e = (\<lambda>s. (Inl e, s))"

definition sbind :: "('s, 'e, 'a) action \<Rightarrow> ('a \<Rightarrow> ('s, 'e, 'b) action) \<Rightarrow> ('s, 'e, 'b) action" where
  "sbind a f = (\<lambda>s. case a s of (Inl e, s') \<Rightarrow> (Inl e, s') | (Inr x, s') \<Rightarrow> f x s')"

definition slift :: "'e + 'a \<Rightarrow> ('s, 'e, 'a) action" where
  "slift r = (\<lambda>s. (r, s))"

fun sforeach :: "('a \<Rightarrow> ('s, 'e, unit) action) \<Rightarrow> 'a list \<Rightarrow> ('s, 'e, unit) action" where
  "sforeach f [] = sreturn ()"
| "sforeach f (x # xs) = sbind (f x) (\<lambda>_. sforeach f xs)"

lemma sreturn_apply [simp]: "sreturn x s = (Inr x, s)"
  by (simp add: sreturn_def)

lemma sfail_apply [simp]: "sfail e s = (Inl e, s)"
  by (simp add: sfail_def)

lemma slift_apply [simp]: "slift r s = (r, s)"
  by (simp add: slift_def)

lemma sbind_Inr_iff:
  "sbind a f s = (Inr y, t) \<longleftrightarrow> (\<exists>x s'. a s = (Inr x, s') \<and> f x s' = (Inr y, t))"
  by (auto simp: sbind_def split: prod.splits sum.splits)

lemma sbind_Inl_iff:
  "sbind a f s = (Inl e, t) \<longleftrightarrow>
     a s = (Inl e, t) \<or> (\<exists>x s'. a s = (Inr x, s') \<and> f x s' = (Inl e, t))"
  by (auto simp: sbind_def split: prod.splits sum.splits)

lemma sbind_run: "a s = (Inr x, s') \<Longrightarrow> sbind a f s = f x s'"
  by (simp add: sbind_def)

subsection \<open>Indexed access\<close>

text \<open>\<open>slice.get(i)\<close>: the element, or nothing when the index is out of range.\<close>

definition get_at :: "'a list \<Rightarrow> nat \<Rightarrow> 'a option" where
  "get_at xs i = (if i < length xs then Some (xs ! i) else None)"

lemma get_at_Some_iff [simp]: "get_at xs i = Some x \<longleftrightarrow> i < length xs \<and> xs ! i = x"
  by (auto simp: get_at_def)

lemma get_at_None_iff [simp]: "get_at xs i = None \<longleftrightarrow> length xs \<le> i"
  by (auto simp: get_at_def)

lemma get_at_lt [simp]: "i < length xs \<Longrightarrow> get_at xs i = Some (xs ! i)"
  by (simp add: get_at_def)

text \<open>\<open>iter.position(p)\<close>: the first index whose element satisfies the predicate.\<close>

fun find_position :: "('a \<Rightarrow> bool) \<Rightarrow> 'a list \<Rightarrow> nat option" where
  "find_position p [] = None"
| "find_position p (x # xs) = (if p x then Some 0 else map_option Suc (find_position p xs))"

lemma find_position_None_iff [simp]: "find_position p xs = None \<longleftrightarrow> (\<forall>x\<in>set xs. \<not> p x)"
  by (induction xs) auto

lemma find_position_Some_iff:
  "find_position p xs = Some i \<longleftrightarrow> i < length xs \<and> p (xs ! i) \<and> (\<forall>j<i. \<not> p (xs ! j))"
proof (induction xs arbitrary: i)
  case Nil
  show ?case by simp
next
  case (Cons x xs)
  show ?case
  proof (cases "p x")
    case True
    then show ?thesis by (cases i) auto
  next
    case False
    then show ?thesis
    proof (cases i)
      case 0
      with False show ?thesis by simp
    next
      case (Suc j)
      have all: "(\<forall>k<Suc j. \<not> p ((x # xs) ! k)) \<longleftrightarrow> (\<forall>k<j. \<not> p (xs ! k))"
        using False by (simp add: All_less_Suc2)
      have "find_position p (x # xs) = Some i \<longleftrightarrow> find_position p xs = Some j"
        using False Suc by auto
      then show ?thesis using Cons.IH [of j] Suc all by simp
    qed
  qed
qed

lemma find_position_SomeD:
  "find_position p xs = Some i \<Longrightarrow> i < length xs \<and> p (xs ! i)"
  by (simp add: find_position_Some_iff)

lemma find_position_distinct:
  "distinct xs \<Longrightarrow> i < length xs \<Longrightarrow> find_position (\<lambda>x. x = xs ! i) xs = Some i"
  by (auto simp: find_position_Some_iff nth_eq_iff_index_eq)

lemma find_append: "find p (xs @ ys) = (case find p xs of Some x \<Rightarrow> Some x | None \<Rightarrow> find p ys)"
  by (induction xs) auto

lemma find_Some_memD: "find p xs = Some x \<Longrightarrow> x \<in> set xs \<and> p x"
  by (induction xs) (auto split: if_splits)

subsection \<open>Text that reads itself back\<close>

locale text_codec =
  fixes emit :: "'v \<Rightarrow> string"
    and parse :: "string \<Rightarrow> 'e + 'v"
    and valid :: "'v \<Rightarrow> bool"
  assumes parse_emit: "valid v \<Longrightarrow> parse (emit v) = Inr v"
begin

lemma emit_inj: "valid v \<Longrightarrow> valid w \<Longrightarrow> emit v = emit w \<Longrightarrow> v = w"
  by (metis parse_emit sum.inject(2))

lemma parse_all_emit: "list_all valid vs \<Longrightarrow> traverse parse (map emit vs) = Inr vs"
  by (induction vs) (simp_all add: parse_emit)

lemma emit_normal: "valid v \<Longrightarrow> to_option (parse (emit v)) = Some v"
  by (simp add: parse_emit)

end

subsection \<open>Values selected by name\<close>

text \<open>\<open>from_name\<close> of \<open>beez-policy/src/named.rs\<close>: the value a name selects.\<close>

definition from_name :: "'v list \<Rightarrow> ('v \<Rightarrow> string) \<Rightarrow> string \<Rightarrow> 'v option" where
  "from_name vs nm s = find (\<lambda>v. nm v = s) vs"

text \<open>The macro \<open>parse_by_name!\<close>: the value, or the error that carries the unknown name.\<close>

definition parse_by_name :: "'v list \<Rightarrow> ('v \<Rightarrow> string) \<Rightarrow> (string \<Rightarrow> 'e) \<Rightarrow> string \<Rightarrow> 'e + 'v" where
  "parse_by_name vs nm unknown s = ok_or (unknown s) (from_name vs nm s)"

locale name_table =
  fixes all :: "'v list"
    and nm :: "'v \<Rightarrow> string"
  assumes names_distinct: "distinct (map nm all)"
    and all_complete: "v \<in> set all"
begin

lemma name_inj: "nm v = nm w \<longleftrightarrow> v = w"
  using names_distinct all_complete by (auto simp: distinct_map inj_on_def)

lemma from_name_iff: "from_name all nm s = Some v \<longleftrightarrow> nm v = s"
proof
  assume "from_name all nm s = Some v"
  then show "nm v = s" by (auto simp: from_name_def dest: find_Some_memD)
next
  assume s: "nm v = s"
  then have "find (\<lambda>v. nm v = s) all \<noteq> None"
    using all_complete [of v] by (auto simp: find_None_iff)
  then obtain w where w: "find (\<lambda>v. nm v = s) all = Some w" by auto
  then have "nm w = s" by (auto dest: find_Some_memD)
  with s have "w = v" using name_inj [of w v] by simp
  with w show "from_name all nm s = Some v"
    by (simp add: from_name_def)
qed

lemma from_name_None_iff: "from_name all nm s = None \<longleftrightarrow> (\<forall>v. nm v \<noteq> s)"
  using from_name_iff [of s] by (cases "from_name all nm s") auto

lemma parse_by_name_iff: "parse_by_name all nm u s = Inr v \<longleftrightarrow> nm v = s"
  by (simp add: parse_by_name_def ok_or_Inr_iff from_name_iff)

lemma parse_by_name_unknown:
  "parse_by_name all nm u s = Inl e \<longleftrightarrow> (\<forall>v. nm v \<noteq> s) \<and> e = u s"
  by (simp add: parse_by_name_def ok_or_Inl_iff from_name_None_iff)

end

sublocale name_table \<subseteq> codec: text_codec nm "parse_by_name all nm u" "\<lambda>_. True" for u
  by unfold_locales (simp add: parse_by_name_iff)

subsection \<open>Transition systems\<close>

text \<open>
  The contract of a component whose operations are steps on a state: an invariant that every step
  keeps, and, in \<open>bounded_system\<close>, a measure that every step decreases, so a run has at most as many
  steps as the measure of its first state.
\<close>

locale stepping =
  fixes step :: "'s \<Rightarrow> 's \<Rightarrow> bool"
    and inv :: "'s \<Rightarrow> bool"
  assumes step_inv: "inv s \<Longrightarrow> step s s' \<Longrightarrow> inv s'"
begin

lemma reachable_inv: "step\<^sup>*\<^sup>* s s' \<Longrightarrow> inv s \<Longrightarrow> inv s'"
  by (induction rule: rtranclp_induct) (auto intro: step_inv)

lemma run_inv: "(step ^^ n) s s' \<Longrightarrow> inv s \<Longrightarrow> inv s'"
  using reachable_inv relpowp_imp_rtranclp by metis

end

locale bounded_system = stepping +
  fixes bound :: "'s \<Rightarrow> nat"
  assumes step_bound: "inv s \<Longrightarrow> step s s' \<Longrightarrow> bound s' < bound s"
begin

lemma run_bound: "(step ^^ n) s s' \<Longrightarrow> inv s \<Longrightarrow> n + bound s' \<le> bound s"
proof (induction n arbitrary: s')
  case (Suc n)
  then obtain t where t: "(step ^^ n) s t" "step t s'" by auto
  then have "n + bound t \<le> bound s" and "inv t" using Suc by (auto intro: run_inv)
  with step_bound [OF _ t(2)] show ?case by fastforce
qed simp

lemma run_length: "(step ^^ n) s s' \<Longrightarrow> inv s \<Longrightarrow> n \<le> bound s"
  using run_bound by fastforce

end

text \<open>
  A transition system that implements an abstract one: under its invariant each of its steps is, seen through
  \<open>abs\<close>, a step of the specification, so what the specification keeps holds of every state it reaches.
\<close>

locale refining = stepping +
  fixes spec :: "'b \<Rightarrow> 'b \<Rightarrow> bool"
    and abs :: "'a \<Rightarrow> 'b"
  assumes step_refines: "inv s \<Longrightarrow> step s s' \<Longrightarrow> spec (abs s) (abs s')"
begin

lemma reachable_refines: "step\<^sup>*\<^sup>* s s' \<Longrightarrow> inv s \<Longrightarrow> spec\<^sup>*\<^sup>* (abs s) (abs s')"
proof (induction rule: rtranclp_induct)
  case (step t u)
  then have "inv t" using reachable_inv by blast
  with step show ?case by (meson rtranclp.rtrancl_into_rtrancl step_refines)
qed simp

lemma spec_inv:
  assumes "\<And>x y. P x \<Longrightarrow> spec x y \<Longrightarrow> P y" and "step\<^sup>*\<^sup>* s s'" and "inv s" and "P (abs s)"
  shows "P (abs s')"
  using reachable_refines [OF assms(2,3)] assms(4) by (induction rule: rtranclp_induct) (auto intro: assms(1))

end

end
