(* ===== verification/Text.thy ===== *)
theory Text
  imports Prelude
begin

text \<open>
  The operations of Rust's \<open>str\<close>, \<open>u32::from_str\<close> and \<open>i32::from_str\<close> that the program calls.

  A \<open>str\<close> and a \<open>[u8]\<close> are both an Isabelle \<open>string\<close> whose characters are bytes; the text of
  a \<open>str\<close> is its UTF-8 encoding. A Rust \<open>char\<close> is the byte string that encodes it, so \<open>chars\<close>
  splits a text at the lead bytes. Byte indexes, \<open>len\<close>, \<open>find\<close> and slicing then agree with Rust,
  which counts bytes there too.
\<close>

subsection \<open>Bytes\<close>

definition byte :: "char \<Rightarrow> nat" where
  "byte c = of_char c"

definition ascii_digit :: "char \<Rightarrow> bool" where
  "ascii_digit c \<longleftrightarrow> 48 \<le> byte c \<and> byte c \<le> 57"

definition ascii_upper :: "char \<Rightarrow> bool" where
  "ascii_upper c \<longleftrightarrow> 65 \<le> byte c \<and> byte c \<le> 90"

definition ascii_lower :: "char \<Rightarrow> bool" where
  "ascii_lower c \<longleftrightarrow> 97 \<le> byte c \<and> byte c \<le> 122"

definition ascii_alphanumeric :: "char \<Rightarrow> bool" where
  "ascii_alphanumeric c \<longleftrightarrow> ascii_digit c \<or> ascii_upper c \<or> ascii_lower c"

definition to_ascii_lower :: "char \<Rightarrow> char" where
  "to_ascii_lower c = (if ascii_upper c then char_of (byte c + 32) else c)"

definition ascii_lowercase :: "string \<Rightarrow> string" where
  "ascii_lowercase s = map to_ascii_lower s"

definition eq_ignore_ascii_case :: "string \<Rightarrow> string \<Rightarrow> bool" where
  "eq_ignore_ascii_case s t \<longleftrightarrow> ascii_lowercase s = ascii_lowercase t"

lemma byte_lt [simp]: "byte c < 256"
  by (cases c) (simp add: byte_def)

lemma byte_char_of [simp]: "n < 256 \<Longrightarrow> byte (char_of n) = n"
  by (simp add: byte_def)

lemma char_of_byte [simp]: "char_of (byte c) = c"
  by (simp add: byte_def)

lemma byte_inj: "byte c = byte d \<longleftrightarrow> c = d"
  by (metis char_of_byte)

lemma to_ascii_lower_idem [simp]: "to_ascii_lower (to_ascii_lower c) = to_ascii_lower c"
  by (auto simp: to_ascii_lower_def ascii_upper_def)

lemma ascii_lowercase_idem [simp]: "ascii_lowercase (ascii_lowercase s) = ascii_lowercase s"
  by (simp add: ascii_lowercase_def)

lemma ascii_lowercase_append:
  "ascii_lowercase (s @ t) = ascii_lowercase s @ ascii_lowercase t"
  by (simp add: ascii_lowercase_def)

lemma eq_ignore_ascii_case_refl [simp]: "eq_ignore_ascii_case s s"
  by (simp add: eq_ignore_ascii_case_def)

text \<open>Equations that evaluate on the bits of a byte, for the kernel's evaluation of examples.\<close>

lemma in_char_range: "c \<in> char_of ` {m..<n} \<longleftrightarrow> m \<le> byte c \<and> byte c < n" if "n \<le> 256" for m n :: nat
proof
  assume "m \<le> byte c \<and> byte c < n"
  then show "c \<in> char_of ` {m..<n}" by (metis atLeastLessThan_iff char_of_byte image_eqI)
qed (use that in auto)

lemma ascii_ranges:
  "set ''0123456789'' = char_of ` {48..<58 :: nat}"
  "set ''ABCDEFGHIJKLMNOPQRSTUVWXYZ'' = char_of ` {65..<91 :: nat}"
  "set ''abcdefghijklmnopqrstuvwxyz'' = char_of ` {97..<123 :: nat}"
  unfolding atLeastLessThan_upt by code_simp+

lemma ascii_digit_code [code]: "ascii_digit c \<longleftrightarrow> c \<in> set ''0123456789''"
  unfolding ascii_ranges by (subst in_char_range) (auto simp: ascii_digit_def)

lemma ascii_upper_code [code]: "ascii_upper c \<longleftrightarrow> c \<in> set ''ABCDEFGHIJKLMNOPQRSTUVWXYZ''"
  unfolding ascii_ranges by (subst in_char_range) (auto simp: ascii_upper_def)

lemma ascii_lower_code [code]: "ascii_lower c \<longleftrightarrow> c \<in> set ''abcdefghijklmnopqrstuvwxyz''"
  unfolding ascii_ranges by (subst in_char_range) (auto simp: ascii_lower_def)

subsection \<open>Characters\<close>

text \<open>The number of bytes of the character that starts with a lead byte.\<close>

definition char_width :: "char \<Rightarrow> nat" where
  "char_width c =
     (if byte c < 128 then 1 else if byte c < 224 then 2 else if byte c < 240 then 3 else 4)"

lemma char_width_code [code]:
  "char_width (Char b0 b1 b2 b3 b4 b5 b6 b7) =
     (if \<not> b7 then 1 else if \<not> (b6 \<and> b5) then 2 else if \<not> b4 then 3 else 4)"
  by (cases b7; cases b6; cases b5; cases b4; cases b3; cases b2; cases b1; cases b0)
    (simp_all add: char_width_def byte_def)

function chars :: "string \<Rightarrow> string list" where
  "chars [] = []"
| "chars (c # s) = (c # take (char_width c - 1) s) # chars (drop (char_width c - 1) s)"
  by pat_completeness auto
termination by (relation "measure length") auto

lemma concat_chars [simp]: "concat (chars s) = s"
  by (induction s rule: chars.induct) auto

lemma in_chars: "b \<in> set s \<Longrightarrow> \<exists>c\<in>set (chars s). b \<in> set c"
  by (metis UN_iff concat_chars set_concat)

lemma chars_nonempty: "x \<in> set (chars s) \<Longrightarrow> x \<noteq> []"
  by (induction s rule: chars.induct) auto

lemma chars_Nil_iff [simp]: "chars s = [] \<longleftrightarrow> s = []"
  by (cases s) auto

definition is_ascii :: "string \<Rightarrow> bool" where
  "is_ascii s \<longleftrightarrow> list_all (\<lambda>c. byte c < 128) s"

lemma chars_ascii: "is_ascii s \<Longrightarrow> chars s = map (\<lambda>c. [c]) s"
  by (induction s rule: chars.induct) (auto simp: is_ascii_def char_width_def)

lemma chars_ascii_append: "is_ascii s \<Longrightarrow> chars (s @ t) = map (\<lambda>c. [c]) s @ chars t"
  by (induction s) (auto simp: is_ascii_def char_width_def)

text \<open>The characters of Unicode's property White_Space (\<open>char::is_whitespace\<close>), encoded.\<close>

definition whitespace :: "string list" where
  "whitespace = map (map char_of)
     ([[9], [10], [11], [12], [13], [32 :: nat], [194, 133], [194, 160], [225, 154, 128]]
      @ map (\<lambda>b. [226, 128, b]) [128..<139]
      @ [[226, 128, 168], [226, 128, 169], [226, 128, 175], [226, 129, 159], [227, 128, 128]])"

definition is_whitespace :: "string \<Rightarrow> bool" where
  "is_whitespace c \<longleftrightarrow> c \<in> set whitespace"

lemma is_whitespace_ascii: "is_whitespace [c] \<longleftrightarrow> byte c \<in> {9, 10, 11, 12, 13, 32}"
proof -
  have "is_whitespace [c] \<longleftrightarrow> c \<in> char_of ` {9, 10, 11, 12, 13, 32 :: nat}"
    by (simp add: is_whitespace_def whitespace_def)
  also have "\<dots> \<longleftrightarrow> byte c \<in> {9, 10, 11, 12, 13, 32}"
  proof
    assume "c \<in> char_of ` {9, 10, 11, 12, 13, 32 :: nat}"
    then obtain n :: nat where "n \<in> {9, 10, 11, 12, 13, 32}" and "c = char_of n" by blast
    then show "byte c \<in> {9, 10, 11, 12, 13, 32}" by auto
  qed (metis char_of_byte imageI)
  finally show ?thesis .
qed

lemma is_whitespace_code [code]:
  "is_whitespace [] = False"
  "is_whitespace [c] = (c \<in> set [CHR 0x09, CHR 0x0A, CHR 0x0B, CHR 0x0C, CHR 0x0D, CHR '' ''])"
  "is_whitespace (c # d # s) = (c # d # s \<in> set whitespace)"
proof -
  have "[CHR 0x09, CHR 0x0A, CHR 0x0B, CHR 0x0C, CHR 0x0D, CHR '' '']
      = map char_of [9, 10, 11, 12, 13, 32 :: nat]" by code_simp
  then have "c \<in> set [CHR 0x09, CHR 0x0A, CHR 0x0B, CHR 0x0C, CHR 0x0D, CHR '' '']
      \<longleftrightarrow> c \<in> char_of ` {9, 10, 11, 12, 13, 32 :: nat}" by (simp only: set_map list.set)
  also have "\<dots> \<longleftrightarrow> byte c \<in> {9, 10, 11, 12, 13, 32}"
    by (auto simp: image_iff) (metis char_of_byte)+
  finally show "is_whitespace [c] = (c \<in> set [CHR 0x09, CHR 0x0A, CHR 0x0B, CHR 0x0C, CHR 0x0D, CHR '' ''])"
    by (simp add: is_whitespace_ascii)
qed (simp_all add: is_whitespace_def whitespace_def)

definition trim :: "string \<Rightarrow> string" where
  "trim s = concat (rev (dropWhile is_whitespace (rev (dropWhile is_whitespace (chars s)))))"

subsection \<open>Splitting and searching\<close>

fun splitp :: "('a \<Rightarrow> bool) \<Rightarrow> 'a list \<Rightarrow> 'a list list" where
  "splitp p [] = [[]]"
| "splitp p (x # xs) =
     (if p x then [] # splitp p xs
      else case splitp p xs of [] \<Rightarrow> [[x]] | y # ys \<Rightarrow> (x # y) # ys)"

text \<open>\<open>str::split\<close> with an ASCII separator.\<close>

definition split_at_char :: "char \<Rightarrow> string \<Rightarrow> string list" where
  "split_at_char c s = splitp (\<lambda>x. x = c) s"

definition split_whitespace :: "string \<Rightarrow> string list" where
  "split_whitespace s = map concat (filter (\<lambda>w. w \<noteq> []) (splitp is_whitespace (chars s)))"

definition split_once :: "char \<Rightarrow> string \<Rightarrow> (string \<times> string) option" where
  "split_once c s =
     (if c \<in> set s then Some (takeWhile (\<lambda>x. x \<noteq> c) s, tl (dropWhile (\<lambda>x. x \<noteq> c) s)) else None)"

definition rsplit_once :: "char \<Rightarrow> string \<Rightarrow> (string \<times> string) option" where
  "rsplit_once c s = map_option (\<lambda>(a, b). (rev b, rev a)) (split_once c (rev s))"

definition strip_prefix :: "string \<Rightarrow> string \<Rightarrow> string option" where
  "strip_prefix p s = (if prefix p s then Some (drop (length p) s) else None)"

definition strip_suffix :: "string \<Rightarrow> string \<Rightarrow> string option" where
  "strip_suffix p s = (if suffix p s then Some (take (length s - length p) s) else None)"

fun find_sub :: "string \<Rightarrow> string \<Rightarrow> nat option" where
  "find_sub p [] = (if p = [] then Some 0 else None)"
| "find_sub p (x # xs) =
     (if prefix p (x # xs) then Some 0 else map_option Suc (find_sub p xs))"

fun join :: "string \<Rightarrow> string list \<Rightarrow> string" where
  "join sep [] = []"
| "join sep [x] = x"
| "join sep (x # y # ys) = x @ sep @ join sep (y # ys)"

lemma splitp_not_Nil [simp]: "splitp p xs \<noteq> []"
  by (induction xs) (auto split: list.splits)

lemma splitp_no_sep: "list_all (\<lambda>x. \<not> p x) xs \<Longrightarrow> splitp p xs = [xs]"
  by (induction xs) auto

lemma splitp_append_sep:
  "list_all (\<lambda>x. \<not> p x) xs \<Longrightarrow> p s \<Longrightarrow> splitp p (xs @ s # ys) = xs # splitp p ys"
  by (induction xs) (auto split: list.splits)

lemma splitp_parts: "\<forall>x\<in>set (splitp p xs). \<forall>y\<in>set x. y \<in> set xs \<and> \<not> p y"
proof (induction xs)
  case Nil
  then show ?case by simp
next
  case (Cons a xs)
  then show ?case by (cases "splitp p xs") (auto split: if_splits)
qed

lemma split_join:
  "xs \<noteq> [] \<Longrightarrow> \<forall>x\<in>set xs. c \<notin> set x \<Longrightarrow> split_at_char c (join [c] xs) = xs"
proof (induction xs)
  case step: (Cons x xs)
  then have x: "list_all (\<lambda>d. d \<noteq> c) x" by (auto simp: list_all_iff)
  show ?case
  proof (cases xs)
    case Nil
    with x show ?thesis by (simp add: split_at_char_def splitp_no_sep)
  next
    case (Cons y ys)
    have "split_at_char c (x @ c # join [c] (y # ys)) = x # split_at_char c (join [c] (y # ys))"
      unfolding split_at_char_def using x by (intro splitp_append_sep) simp_all
    with step Cons show ?thesis by simp
  qed
qed simp

lemma split_once_SomeD:
  "split_once c s = Some (a, b) \<Longrightarrow> s = a @ c # b \<and> c \<notin> set a"
proof -
  assume split: "split_once c s = Some (a, b)"
  then have mem: "c \<in> set s" and a: "a = takeWhile (\<lambda>x. x \<noteq> c) s"
    and b: "b = tl (dropWhile (\<lambda>x. x \<noteq> c) s)"
    by (auto simp: split_once_def split: if_splits)
  have "dropWhile (\<lambda>x. x \<noteq> c) s \<noteq> []" using mem by simp
  moreover have "hd (dropWhile (\<lambda>x. x \<noteq> c) s) = c"
    using hd_dropWhile [of "\<lambda>x. x \<noteq> c" s] mem by simp
  ultimately have "dropWhile (\<lambda>x. x \<noteq> c) s = c # b" using b by (metis list.collapse)
  then show ?thesis using a by (metis (mono_tags, lifting) set_takeWhileD takeWhile_dropWhile_id)
qed

lemma split_once_append [simp]: "c \<notin> set a \<Longrightarrow> split_once c (a @ c # b) = Some (a, b)"
proof -
  assume c: "c \<notin> set a"
  then have "takeWhile (\<lambda>x. x \<noteq> c) (a @ c # b) = a"
    by (induction a) auto
  moreover from c have "dropWhile (\<lambda>x. x \<noteq> c) (a @ c # b) = c # b"
    by (induction a) auto
  ultimately show ?thesis by (simp add: split_once_def)
qed

lemma split_once_None_iff [simp]: "split_once c s = None \<longleftrightarrow> c \<notin> set s"
  by (simp add: split_once_def)

lemma split_once_Some_iff: "split_once c s = Some (a, b) \<longleftrightarrow> s = a @ c # b \<and> c \<notin> set a"
  using split_once_SomeD split_once_append by blast

lemma rsplit_once_Some_iff: "rsplit_once c s = Some (a, b) \<longleftrightarrow> s = a @ c # b \<and> c \<notin> set b"
proof -
  have "rsplit_once c s = Some (a, b) \<longleftrightarrow> split_once c (rev s) = Some (rev b, rev a)"
    by (auto simp: rsplit_once_def)
  also have "\<dots> \<longleftrightarrow> rev s = rev b @ c # rev a \<and> c \<notin> set b"
    by (simp add: split_once_Some_iff)
  also have "\<dots> \<longleftrightarrow> s = a @ c # b \<and> c \<notin> set b"
    by (metis append.assoc append_Cons append_Nil rev.simps(2) rev_append rev_rev_ident)
  finally show ?thesis .
qed

lemma rsplit_once_None_iff [simp]: "rsplit_once c s = None \<longleftrightarrow> c \<notin> set s"
  by (simp add: rsplit_once_def)

lemma strip_prefix_Some_iff: "strip_prefix p s = Some t \<longleftrightarrow> s = p @ t"
  by (auto simp: strip_prefix_def prefix_def)

lemma strip_prefix_append [simp]: "strip_prefix p (p @ t) = Some t"
  by (simp add: strip_prefix_Some_iff)

lemma strip_prefix_None_iff: "strip_prefix p s = None \<longleftrightarrow> \<not> prefix p s"
  by (simp add: strip_prefix_def)

lemma strip_suffix_Some_iff: "strip_suffix p s = Some t \<longleftrightarrow> s = t @ p"
  by (auto simp: strip_suffix_def suffix_def)

lemma strip_suffix_append [simp]: "strip_suffix p (t @ p) = Some t"
  by (simp add: strip_suffix_Some_iff)

lemma strip_suffix_None_iff: "strip_suffix p s = None \<longleftrightarrow> \<not> suffix p s"
  by (simp add: strip_suffix_def)

lemma find_sub_SomeD:
  "find_sub p s = Some i \<Longrightarrow> i \<le> length s \<and> prefix p (drop i s) \<and> (\<forall>j<i. \<not> prefix p (drop j s))"
proof (induction s arbitrary: i)
  case Nil
  then show ?case by (auto split: if_splits)
next
  case (Cons x xs)
  show ?case
  proof (cases i)
    case 0
    with Cons.prems show ?thesis by (auto split: if_splits)
  next
    case (Suc k)
    with Cons.prems have n: "\<not> prefix p (x # xs)" and k: "find_sub p xs = Some k"
      by (auto split: if_splits)
    from Cons.IH [OF k] n Suc show ?thesis by (auto simp: All_less_Suc2)
  qed
qed

lemma find_sub_None_iff: "find_sub p s = None \<longleftrightarrow> (\<forall>j\<le>length s. \<not> prefix p (drop j s))"
proof (induction s)
  case Nil
  show ?case by auto
next
  case (Cons x xs)
  have "(\<forall>j\<le>length (x # xs). \<not> prefix p (drop j (x # xs)))
        \<longleftrightarrow> \<not> prefix p (x # xs) \<and> (\<forall>j\<le>length xs. \<not> prefix p (drop j xs))"
    using All_less_Suc2 [of "Suc (length xs)" "\<lambda>j. \<not> prefix p (drop j (x # xs))"]
    by (simp add: less_Suc_eq_le)
  with Cons show ?case by simp
qed

definition trim_end_matches :: "char \<Rightarrow> string \<Rightarrow> string" where
  "trim_end_matches c s = rev (dropWhile (\<lambda>x. x = c) (rev s))"

lemma trim_end_matches_last: "trim_end_matches c s \<noteq> [] \<Longrightarrow> last (trim_end_matches c s) \<noteq> c"
  unfolding trim_end_matches_def
  by (metis (mono_tags, lifting) hd_dropWhile last_rev rev_is_Nil_conv)

lemma trim_end_matches_id: "(s \<noteq> [] \<Longrightarrow> last s \<noteq> c) \<Longrightarrow> trim_end_matches c s = s"
  by (cases s rule: rev_cases) (auto simp: trim_end_matches_def)

lemma trim_end_matches_idem [simp]:
  "trim_end_matches c (trim_end_matches c s) = trim_end_matches c s"
  by (rule trim_end_matches_id) (rule trim_end_matches_last)

lemma set_trim_end_matches: "x \<in> set (trim_end_matches c s) \<Longrightarrow> x \<in> set s"
  by (auto simp: trim_end_matches_def dest: set_dropWhileD)

text \<open>\<open>s.chars().find(|c| !ok(c))\<close>, where only ASCII characters can satisfy \<open>ok\<close>.\<close>

definition first_outside :: "(char \<Rightarrow> bool) \<Rightarrow> string \<Rightarrow> string option" where
  "first_outside ok s = find (\<lambda>c. \<not> (length c = 1 \<and> ok (hd c))) (chars s)"

lemma first_outside_None_iff:
  assumes "\<And>b. ok b \<Longrightarrow> byte b < 128"
  shows "first_outside ok s = None \<longleftrightarrow> list_all ok s"
proof
  assume "first_outside ok s = None"
  then have *: "\<forall>c\<in>set (chars s). length c = 1 \<and> ok (hd c)"
    by (auto simp: first_outside_def find_None_iff)
  have "ok b" if "b \<in> set s" for b
  proof -
    obtain c where "c \<in> set (chars s)" and b: "b \<in> set c"
      using \<open>b \<in> set s\<close> in_chars by blast
    with * have "length c = 1" and "ok (hd c)" by auto
    with b show ?thesis by (cases c) auto
  qed
  then show "list_all ok s" by (simp add: list_all_iff)
next
  assume ok: "list_all ok s"
  with assms have "is_ascii s" by (auto simp: is_ascii_def list_all_iff)
  then show "first_outside ok s = None"
    using ok by (auto simp: first_outside_def find_None_iff chars_ascii list_all_iff)
qed

lemma first_outside_SomeD: "first_outside ok s = Some c \<Longrightarrow> c \<in> set (chars s)"
  by (auto simp: first_outside_def dest: find_Some_memD)

subsection \<open>Decimal numbers\<close>

definition digit :: "nat \<Rightarrow> char" where
  "digit n = char_of (48 + n)"

definition digit_value :: "char \<Rightarrow> nat" where
  "digit_value c = byte c - 48"

function dec :: "nat \<Rightarrow> string" where
  "dec n = (if n < 10 then [digit n] else dec (n div 10) @ [digit (n mod 10)])"
  by pat_completeness auto
termination by (relation "measure id") auto

declare dec.simps [simp del]

definition undec :: "string \<Rightarrow> nat" where
  "undec s = foldl (\<lambda>v c. 10 * v + digit_value c) 0 s"

text \<open>
  \<open>u32::from_str\<close> and its like: an optional plus sign, then digits, at least one, that do not
  exceed the bound. \<open>i32::from_str\<close> also takes a minus sign.
\<close>

definition parse_digits :: "nat \<Rightarrow> string \<Rightarrow> nat option" where
  "parse_digits bound s =
     (if s \<noteq> [] \<and> list_all ascii_digit s \<and> undec s \<le> bound then Some (undec s) else None)"

definition parse_unsigned :: "nat \<Rightarrow> string \<Rightarrow> nat option" where
  "parse_unsigned bound s =
     (case s of c # t \<Rightarrow> if c = CHR ''+'' then parse_digits bound t else parse_digits bound s
              | [] \<Rightarrow> None)"

definition parse_i32 :: "string \<Rightarrow> int option" where
  "parse_i32 s =
     (case s of
        c # t \<Rightarrow>
          if c = CHR ''-'' then map_option (\<lambda>n. - int n) (parse_digits (2 ^ 31) t)
          else map_option int (parse_digits (2 ^ 31 - 1) (if c = CHR ''+'' then t else s))
      | [] \<Rightarrow> None)"

lemma digit_is_digit [simp]: "n < 10 \<Longrightarrow> ascii_digit (digit n)"
  by (simp add: ascii_digit_def digit_def)

lemma digit_value_digit [simp]: "n < 10 \<Longrightarrow> digit_value (digit n) = n"
  by (simp add: digit_value_def digit_def)

lemma undec_snoc: "undec (s @ [c]) = 10 * undec s + digit_value c"
  by (simp add: undec_def)

lemma undec_dec [simp]: "undec (dec n) = n"
proof (induction n rule: dec.induct)
  case (1 n)
  show ?case
  proof (cases "n < 10")
    case True
    then show ?thesis by (simp add: dec.simps [of n] undec_def)
  next
    case False
    with 1 show ?thesis by (simp add: dec.simps [of n] undec_snoc)
  qed
qed

lemma dec_digits [simp]: "list_all ascii_digit (dec n)"
proof (induction n rule: dec.induct)
  case (1 n)
  then show ?case by (cases "n < 10") (simp_all add: dec.simps [of n])
qed

lemma dec_not_Nil [simp]: "dec n \<noteq> []"
  by (subst dec.simps) simp

lemma dec_inj: "dec m = dec n \<longleftrightarrow> m = n"
  by (metis undec_dec)

lemma parse_digits_dec [simp]: "n \<le> bound \<Longrightarrow> parse_digits bound (dec n) = Some n"
  by (simp add: parse_digits_def)

lemma dec_first: "dec n = c # t \<Longrightarrow> ascii_digit c"
  by (metis dec_digits list.pred_inject(2))

lemma parse_unsigned_dec [simp]: "n \<le> bound \<Longrightarrow> parse_unsigned bound (dec n) = Some n"
proof -
  assume n: "n \<le> bound"
  obtain c t where d: "dec n = c # t" by (meson dec_not_Nil neq_Nil_conv)
  then have "c \<noteq> CHR ''+''" using dec_first [OF d] by (auto simp: ascii_digit_def byte_def)
  then show ?thesis using n d parse_digits_dec [OF n] by (simp add: parse_unsigned_def)
qed

lemma parse_unsigned_bound: "parse_unsigned bound s = Some n \<Longrightarrow> n \<le> bound"
  by (auto simp: parse_unsigned_def parse_digits_def split: list.splits if_splits)

subsection \<open>Quoted text\<close>

text \<open>
  The format \<open>{text:?}\<close>. ASCII is escaped as Rust escapes it. A character outside ASCII is kept as
  it is, so a text with an unprintable one reads differently here.
\<close>

definition hex_digit :: "nat \<Rightarrow> char" where
  "hex_digit n = (if n < 10 then digit n else char_of (87 + n))"

definition debug_byte :: "char \<Rightarrow> string" where
  "debug_byte c =
     (if byte c = 0 then [CHR 0x5C, CHR ''0'']
      else if byte c = 9 then [CHR 0x5C, CHR ''t'']
      else if byte c = 10 then [CHR 0x5C, CHR ''n'']
      else if byte c = 13 then [CHR 0x5C, CHR ''r'']
      else if byte c = 34 then [CHR 0x5C, c]
      else if byte c = 92 then [CHR 0x5C, c]
      else if byte c < 16 then [CHR 0x5C] @ ''u{'' @ [hex_digit (byte c)] @ ''}''
      else if byte c < 32 \<or> byte c = 127 then
        [CHR 0x5C] @ ''u{'' @ [hex_digit (byte c div 16), hex_digit (byte c mod 16)] @ ''}''
      else [c])"

definition debug_str :: "string \<Rightarrow> string" where
  "debug_str s = [CHR 0x22] @ concat (map debug_byte s) @ [CHR 0x22]"

text \<open>The format \<open>{character:?}\<close>, which escapes a single quote and not a double one.\<close>

definition debug_char :: "string \<Rightarrow> string" where
  "debug_char c =
     [CHR 0x27] @
     (if c = [CHR 0x27] then [CHR 0x5C, CHR 0x27]
      else if c = [CHR 0x22] then c
      else concat (map debug_byte c)) @ [CHR 0x27]"

subsection \<open>Bytes that may not be UTF-8\<close>

text \<open>
  \<open>String::from_utf8_lossy\<close>: \<open>utf8_head\<close> reads one character or one maximal invalid sequence, and
  each invalid sequence is replaced by U+FFFD.
\<close>

definition continuation :: "char \<Rightarrow> bool" where
  "continuation c \<longleftrightarrow> 128 \<le> byte c \<and> byte c < 192"

definition second_ok :: "char \<Rightarrow> char \<Rightarrow> bool" where
  "second_ok b c \<longleftrightarrow>
     (if byte b = 224 then 160 \<le> byte c \<and> byte c < 192
      else if byte b = 237 then 128 \<le> byte c \<and> byte c < 160
      else if byte b = 240 then 144 \<le> byte c \<and> byte c < 192
      else if byte b = 244 then 128 \<le> byte c \<and> byte c < 144
      else continuation c)"

definition encoded_width :: "char \<Rightarrow> nat" where
  "encoded_width b =
     (if byte b < 128 then 1
      else if 194 \<le> byte b \<and> byte b < 224 then 2
      else if 224 \<le> byte b \<and> byte b < 240 then 3
      else if 240 \<le> byte b \<and> byte b < 245 then 4
      else 0)"

text \<open>How many of the continuation bytes that are left to read are there, at most \<open>n\<close>.\<close>

fun continuations :: "nat \<Rightarrow> string \<Rightarrow> nat" where
  "continuations 0 s = 0"
| "continuations (Suc n) [] = 0"
| "continuations (Suc n) (c # s) = (if continuation c then Suc (continuations n s) else 0)"

definition utf8_head :: "char \<Rightarrow> string \<Rightarrow> bool \<times> nat" where
  "utf8_head b s =
     (let w = encoded_width b in
      if w = 0 then (False, 1)
      else if w = 1 then (True, 1)
      else case s of
             [] \<Rightarrow> (False, 1)
           | c # s' \<Rightarrow>
               if \<not> second_ok b c then (False, 1)
               else let k = continuations (w - 2) s' in (k = w - 2, 2 + k))"

lemma utf8_head_pos: "0 < snd (utf8_head b s)"
  by (auto simp: utf8_head_def Let_def split: list.splits)

definition REPLACEMENT :: string where
  "REPLACEMENT = map char_of [239, 191, 189 :: nat]"

function utf8_lossy :: "string \<Rightarrow> string" where
  "utf8_lossy [] = []"
| "utf8_lossy (b # s) =
     (if fst (utf8_head b s) then take (snd (utf8_head b s)) (b # s) else REPLACEMENT)
     @ utf8_lossy (drop (snd (utf8_head b s)) (b # s))"
  by pat_completeness auto
termination
  by (relation "measure length")
    (use utf8_head_pos in \<open>auto simp: less_Suc_eq_le drop_Cons' intro!: diff_less\<close>)

function valid_utf8 :: "string \<Rightarrow> bool" where
  "valid_utf8 [] = True"
| "valid_utf8 (b # s) =
     (fst (utf8_head b s) \<and> valid_utf8 (drop (snd (utf8_head b s)) (b # s)))"
  by pat_completeness auto
termination
  by (relation "measure length")
    (use utf8_head_pos in \<open>auto simp: less_Suc_eq_le drop_Cons' intro!: diff_less\<close>)

lemma utf8_lossy_valid: "valid_utf8 s \<Longrightarrow> utf8_lossy s = s"
  by (induction s rule: valid_utf8.induct) auto

lemma valid_utf8_ascii: "is_ascii s \<Longrightarrow> valid_utf8 s"
  by (induction s) (auto simp: is_ascii_def utf8_head_def encoded_width_def Let_def)

subsection \<open>Padding\<close>

text \<open>The format specifications \<open>{:<width}\<close> and \<open>{:0>width}\<close>, which count characters.\<close>

definition pad_right :: "nat \<Rightarrow> string \<Rightarrow> string" where
  "pad_right w s = s @ replicate (w - length (chars s)) CHR '' ''"

definition pad_zero :: "nat \<Rightarrow> string \<Rightarrow> string" where
  "pad_zero w s = replicate (w - length s) CHR ''0'' @ s"

lemma undec_append_zero: "undec (replicate k CHR ''0'' @ s) = undec s"
  by (induction k) (simp_all add: undec_def digit_value_def byte_def)

lemma undec_pad_zero [simp]: "undec (pad_zero w (dec n)) = n"
  by (simp add: pad_zero_def undec_append_zero)

end
