(* ===== verification/Policy_Names.thy ===== *)
theory Policy_Names
  imports Text
begin

text \<open>
  \<open>beez-policy/src/named.rs\<close>, \<open>harness.rs\<close> and the tables of \<open>group.rs\<close>: the enums whose
  values a manifest selects by name, with the hosts, programs and paths behind each group.

  The macro \<open>name_table!\<close> writes the list \<open>ALL\<close> and the function \<open>name\<close> of each enum; they are
  \<open>DomainGroup_ALL\<close>, \<open>DomainGroup_name\<close> and so on. Each enum is an interpretation of the locale
  \<open>name_table\<close>, and an instance of \<open>linorder\<close> by the declaration order of its values, which is
  what \<open>derive(Ord)\<close> gives and what the order of a \<open>BTreeSet\<close> of groups rests on.
\<close>

subsection \<open>Order by declaration\<close>

definition rank_in :: "'a list \<Rightarrow> 'a \<Rightarrow> nat" where
  "rank_in vs v = (case find_position (\<lambda>x. x = v) vs of Some i \<Rightarrow> i | None \<Rightarrow> length vs)"

lemma rank_in_inj: "v \<in> set vs \<Longrightarrow> w \<in> set vs \<Longrightarrow> rank_in vs v = rank_in vs w \<Longrightarrow> v = w"
  by (auto simp: rank_in_def split: option.splits dest!: find_position_SomeD)

subsection \<open>Unknown names\<close>

definition unknown :: "'v list \<Rightarrow> ('v \<Rightarrow> string) \<Rightarrow> string \<Rightarrow> string \<Rightarrow> string" where
  "unknown vs nm kind s =
     ''unknown '' @ kind @ '' '' @ debug_str s @ ''; expected one of '' @ join '', '' (map nm vs)"

lemma sublist_append_left: "sublist x t \<Longrightarrow> sublist x (s @ t)"
  unfolding sublist_def by (metis append.assoc)

lemma join_infix: "x \<in> set xs \<Longrightarrow> sublist x (join sep xs)"
proof (induction sep xs rule: join.induct)
  case (3 sep x' y ys)
  show ?case
  proof (cases "x = x'")
    case True
    then show ?thesis by (auto simp: sublist_def)
  next
    case False
    with 3 have "sublist x (join sep (y # ys))" by auto
    then have "sublist x ((x' @ sep) @ join sep (y # ys))" by (rule sublist_append_left)
    then show ?thesis by simp
  qed
qed auto

subsection \<open>Harnesses\<close>

datatype headless_harness = Pi | Omp | Claude | Codex

definition HeadlessHarness_ALL :: "headless_harness list" where
  "HeadlessHarness_ALL =
     [headless_harness.Pi, headless_harness.Omp, headless_harness.Claude, headless_harness.Codex]"

primrec HeadlessHarness_name :: "headless_harness \<Rightarrow> string" where
  "HeadlessHarness_name headless_harness.Pi = ''pi''"
| "HeadlessHarness_name headless_harness.Omp = ''omp''"
| "HeadlessHarness_name headless_harness.Claude = ''claude''"
| "HeadlessHarness_name headless_harness.Codex = ''codex''"

datatype headless_harness_error = UnknownHarness string

definition HeadlessHarness_from_str :: "string \<Rightarrow> headless_harness_error + headless_harness" where
  "HeadlessHarness_from_str = parse_by_name HeadlessHarness_ALL HeadlessHarness_name UnknownHarness"

primrec HeadlessHarnessError_text :: "headless_harness_error \<Rightarrow> string" where
  "HeadlessHarnessError_text (UnknownHarness s) =
     unknown HeadlessHarness_ALL HeadlessHarness_name ''headless harness'' s"

record harness_options =
  ho_model :: "string option"
  ho_effort :: "string option"

definition HarnessOptions_is_empty :: "harness_options \<Rightarrow> bool" where
  "HarnessOptions_is_empty o' \<longleftrightarrow> ho_model o' = None \<and> ho_effort o' = None"

interpretation harness_names: name_table HeadlessHarness_ALL HeadlessHarness_name
proof unfold_locales
  show "distinct (map HeadlessHarness_name HeadlessHarness_ALL)"
    by (simp add: HeadlessHarness_ALL_def)
  show "v \<in> set HeadlessHarness_ALL" for v
    by (cases v) (simp_all add: HeadlessHarness_ALL_def)
qed

subsection \<open>Groups\<close>

datatype group_error = UnknownDomainGroup string | UnknownExecutableGroup string

datatype domain_group =
    Anthropic | OpenAi | Google | OpenRouter | Bedrock | Vertex | AzureOpenAi | Mistral
  | DeepSeek | Xai | Groq | Ollama | HuggingFace | ClaudeOptional | ClaudeTelemetry | Github
  | Gitlab | Bitbucket | Npm | Pypi | Crates | Go | Rubygems | Maven | Nuget | Homebrew
  | DockerHub | ContainerRegistry | Hashicorp | Playwright

definition DomainGroup_ALL :: "domain_group list" where
  "DomainGroup_ALL =
     [domain_group.Anthropic, domain_group.OpenAi, domain_group.Google,
      domain_group.OpenRouter, domain_group.Bedrock, domain_group.Vertex,
      domain_group.AzureOpenAi, domain_group.Mistral, domain_group.DeepSeek, domain_group.Xai,
      domain_group.Groq, domain_group.Ollama, domain_group.HuggingFace,
      domain_group.ClaudeOptional, domain_group.ClaudeTelemetry, domain_group.Github,
      domain_group.Gitlab, domain_group.Bitbucket, domain_group.Npm, domain_group.Pypi,
      domain_group.Crates, domain_group.Go, domain_group.Rubygems, domain_group.Maven,
      domain_group.Nuget, domain_group.Homebrew, domain_group.DockerHub,
      domain_group.ContainerRegistry, domain_group.Hashicorp, domain_group.Playwright]"

primrec DomainGroup_name :: "domain_group \<Rightarrow> string" where
  "DomainGroup_name domain_group.Anthropic = ''anthropic''"
| "DomainGroup_name domain_group.OpenAi = ''openai''"
| "DomainGroup_name domain_group.Google = ''google''"
| "DomainGroup_name domain_group.OpenRouter = ''openrouter''"
| "DomainGroup_name domain_group.Bedrock = ''bedrock''"
| "DomainGroup_name domain_group.Vertex = ''vertex''"
| "DomainGroup_name domain_group.AzureOpenAi = ''azure-openai''"
| "DomainGroup_name domain_group.Mistral = ''mistral''"
| "DomainGroup_name domain_group.DeepSeek = ''deepseek''"
| "DomainGroup_name domain_group.Xai = ''xai''"
| "DomainGroup_name domain_group.Groq = ''groq''"
| "DomainGroup_name domain_group.Ollama = ''ollama''"
| "DomainGroup_name domain_group.HuggingFace = ''huggingface''"
| "DomainGroup_name domain_group.ClaudeOptional = ''claude-optional''"
| "DomainGroup_name domain_group.ClaudeTelemetry = ''claude-telemetry''"
| "DomainGroup_name domain_group.Github = ''github''"
| "DomainGroup_name domain_group.Gitlab = ''gitlab''"
| "DomainGroup_name domain_group.Bitbucket = ''bitbucket''"
| "DomainGroup_name domain_group.Npm = ''npm''"
| "DomainGroup_name domain_group.Pypi = ''pypi''"
| "DomainGroup_name domain_group.Crates = ''crates''"
| "DomainGroup_name domain_group.Go = ''go''"
| "DomainGroup_name domain_group.Rubygems = ''rubygems''"
| "DomainGroup_name domain_group.Maven = ''maven''"
| "DomainGroup_name domain_group.Nuget = ''nuget''"
| "DomainGroup_name domain_group.Homebrew = ''homebrew''"
| "DomainGroup_name domain_group.DockerHub = ''docker-hub''"
| "DomainGroup_name domain_group.ContainerRegistry = ''container-registry''"
| "DomainGroup_name domain_group.Hashicorp = ''hashicorp''"
| "DomainGroup_name domain_group.Playwright = ''playwright''"

primrec domains :: "domain_group \<Rightarrow> string list" where
  "domains domain_group.Anthropic =
     [''api.anthropic.com'', ''platform.claude.com'', ''claude.ai'']"
| "domains domain_group.OpenAi =
     [''api.openai.com'', ''chatgpt.com'', ''auth.openai.com'']"
| "domains domain_group.Google =
     [''generativelanguage.googleapis.com'', ''oauth2.googleapis.com'']"
| "domains domain_group.OpenRouter =
     [''openrouter.ai'']"
| "domains domain_group.Bedrock =
     [''*.amazonaws.com'']"
| "domains domain_group.Vertex =
     [''*.aiplatform.googleapis.com'', ''oauth2.googleapis.com'']"
| "domains domain_group.AzureOpenAi =
     [''*.openai.azure.com'', ''login.microsoftonline.com'']"
| "domains domain_group.Mistral =
     [''api.mistral.ai'']"
| "domains domain_group.DeepSeek =
     [''api.deepseek.com'']"
| "domains domain_group.Xai =
     [''api.x.ai'']"
| "domains domain_group.Groq =
     [''api.groq.com'']"
| "domains domain_group.Ollama =
     [''registry.ollama.ai'', ''ollama.com'']"
| "domains domain_group.HuggingFace =
     [''huggingface.co'', ''cdn-lfs.huggingface.co'', ''cdn-lfs-us-1.huggingface.co'']"
| "domains domain_group.ClaudeOptional =
     [''downloads.claude.ai'', ''code.claude.com'', ''raw.githubusercontent.com'',
      ''registry.npmjs.org'', ''storage.googleapis.com'']"
| "domains domain_group.ClaudeTelemetry =
     [''http-intake.logs.us5.datadoghq.com'', ''browser-intake-us5-datadoghq.com'']"
| "domains domain_group.Github =
     [''github.com'', ''api.github.com'', ''codeload.github.com'', ''*.githubusercontent.com'']"
| "domains domain_group.Gitlab =
     [''gitlab.com'', ''registry.gitlab.com'']"
| "domains domain_group.Bitbucket =
     [''bitbucket.org'', ''api.bitbucket.org'']"
| "domains domain_group.Npm =
     [''registry.npmjs.org'']"
| "domains domain_group.Pypi =
     [''pypi.org'', ''files.pythonhosted.org'']"
| "domains domain_group.Crates =
     [''crates.io'', ''index.crates.io'', ''static.crates.io'', ''static.rust-lang.org'']"
| "domains domain_group.Go =
     [''proxy.golang.org'', ''sum.golang.org'', ''storage.googleapis.com'']"
| "domains domain_group.Rubygems =
     [''rubygems.org'', ''index.rubygems.org'']"
| "domains domain_group.Maven =
     [''repo.maven.apache.org'', ''repo1.maven.org'', ''plugins.gradle.org'',
      ''services.gradle.org'']"
| "domains domain_group.Nuget =
     [''api.nuget.org'', ''www.nuget.org'']"
| "domains domain_group.Homebrew =
     [''formulae.brew.sh'', ''ghcr.io'', ''*.pkg.github.com'']"
| "domains domain_group.DockerHub =
     [''registry-1.docker.io'', ''auth.docker.io'', ''index.docker.io'',
      ''production.cloudflare.docker.com'']"
| "domains domain_group.ContainerRegistry =
     [''ghcr.io'', ''*.pkg.github.com'', ''quay.io'', ''gcr.io'', ''mcr.microsoft.com'']"
| "domains domain_group.Hashicorp =
     [''releases.hashicorp.com'', ''registry.terraform.io'', ''checkpoint-api.hashicorp.com'']"
| "domains domain_group.Playwright =
     [''cdn.playwright.dev'', ''playwright.azureedge.net'', ''storage.googleapis.com'']"

definition DomainGroup_from_str :: "string \<Rightarrow> group_error + domain_group" where
  "DomainGroup_from_str = parse_by_name DomainGroup_ALL DomainGroup_name UnknownDomainGroup"

datatype executable_group =
    Coreutils | Text | Git | Net | Node | Python | Rust | Go | Jvm | Ruby | Dotnet | Zig
  | Build | Container | Iac | Process

definition ExecutableGroup_ALL :: "executable_group list" where
  "ExecutableGroup_ALL =
     [executable_group.Coreutils, executable_group.Text, executable_group.Git,
      executable_group.Net, executable_group.Node, executable_group.Python,
      executable_group.Rust, executable_group.Go, executable_group.Jvm, executable_group.Ruby,
      executable_group.Dotnet, executable_group.Zig, executable_group.Build,
      executable_group.Container, executable_group.Iac, executable_group.Process]"

primrec ExecutableGroup_name :: "executable_group \<Rightarrow> string" where
  "ExecutableGroup_name executable_group.Coreutils = ''coreutils''"
| "ExecutableGroup_name executable_group.Text = ''text''"
| "ExecutableGroup_name executable_group.Git = ''git''"
| "ExecutableGroup_name executable_group.Net = ''net''"
| "ExecutableGroup_name executable_group.Node = ''node''"
| "ExecutableGroup_name executable_group.Python = ''python''"
| "ExecutableGroup_name executable_group.Rust = ''rust''"
| "ExecutableGroup_name executable_group.Go = ''go''"
| "ExecutableGroup_name executable_group.Jvm = ''jvm''"
| "ExecutableGroup_name executable_group.Ruby = ''ruby''"
| "ExecutableGroup_name executable_group.Dotnet = ''dotnet''"
| "ExecutableGroup_name executable_group.Zig = ''zig''"
| "ExecutableGroup_name executable_group.Build = ''build''"
| "ExecutableGroup_name executable_group.Container = ''container''"
| "ExecutableGroup_name executable_group.Iac = ''iac''"
| "ExecutableGroup_name executable_group.Process = ''process''"

primrec programs :: "executable_group \<Rightarrow> string list" where
  "programs executable_group.Coreutils =
     [''ls'', ''cat'', ''cp'', ''mv'', ''rm'', ''mkdir'', ''rmdir'', ''touch'', ''chmod'',
      ''ln'', ''head'', ''tail'', ''wc'', ''sort'', ''uniq'', ''cut'', ''tr'', ''tee'',
      ''echo'', ''printf'', ''pwd'', ''true'', ''false'', ''test'', ''['', ''dirname'',
      ''basename'', ''realpath'', ''readlink'', ''stat'', ''date'', ''sleep'', ''xargs'',
      ''env'', ''id'', ''uname'', ''which'', ''mktemp'', ''du'', ''df'', ''tar'', ''gzip'',
      ''gunzip'', ''zip'', ''unzip'']"
| "programs executable_group.Text =
     [''grep'', ''egrep'', ''fgrep'', ''rg'', ''sed'', ''awk'', ''find'', ''diff'', ''patch'',
      ''jq'', ''less'', ''file'', ''tree'']"
| "programs executable_group.Git =
     [''git'', ''ssh'', ''gh'', ''glab'']"
| "programs executable_group.Net =
     [''curl'', ''wget'', ''nc'', ''ssh'']"
| "programs executable_group.Node =
     [''node'', ''npm'', ''npx'', ''pnpm'', ''bun'', ''yarn'', ''corepack'']"
| "programs executable_group.Python =
     [''python'', ''python3'', ''pip'', ''pip3'', ''uv'', ''uvx'', ''poetry'']"
| "programs executable_group.Rust =
     [''cargo'', ''rustc'', ''rustup'', ''rustfmt'', ''cargo-clippy'', ''clippy-driver'',
      ''rust-analyzer'', ''cc'', ''c++'', ''ld'', ''clang'', ''gcc'', ''ar'']"
| "programs executable_group.Go =
     [''go'', ''gofmt'', ''cc'', ''gcc'']"
| "programs executable_group.Jvm =
     [''java'', ''javac'', ''jar'', ''mvn'', ''gradle'']"
| "programs executable_group.Ruby =
     [''ruby'', ''gem'', ''bundle'', ''bundler'', ''rake'', ''irb'']"
| "programs executable_group.Dotnet =
     [''dotnet'']"
| "programs executable_group.Zig =
     [''zig'']"
| "programs executable_group.Build =
     [''make'', ''cmake'', ''ninja'', ''pkg-config'']"
| "programs executable_group.Container =
     [''docker'', ''docker-compose'', ''podman'', ''kubectl'', ''helm'']"
| "programs executable_group.Iac =
     [''terraform'', ''tofu'', ''terragrunt'', ''ansible'', ''ansible-playbook'']"
| "programs executable_group.Process =
     [''ps'', ''kill'', ''pkill'', ''pgrep'', ''lsof'', ''top'']"

definition ExecutableGroup_from_str :: "string \<Rightarrow> group_error + executable_group" where
  "ExecutableGroup_from_str =
     parse_by_name ExecutableGroup_ALL ExecutableGroup_name UnknownExecutableGroup"

datatype path_group =
    Keys | Cloud | Logins | Tokens | History | Secrets | Workspace | Git | Ci | Editor
  | Toolchain | Harness | Artifacts | ClaudeState | CodexState | PiState | OmpState
  | NodeState | PythonState | RustState | GoState | JvmState | RubyState | DotnetState
  | ZigState | IacState

definition PathGroup_ALL :: "path_group list" where
  "PathGroup_ALL =
     [path_group.Keys, path_group.Cloud, path_group.Logins, path_group.Tokens,
      path_group.History, path_group.Secrets, path_group.Workspace, path_group.Git,
      path_group.Ci, path_group.Editor, path_group.Toolchain, path_group.Harness,
      path_group.Artifacts, path_group.ClaudeState, path_group.CodexState, path_group.PiState,
      path_group.OmpState, path_group.NodeState, path_group.PythonState, path_group.RustState,
      path_group.GoState, path_group.JvmState, path_group.RubyState, path_group.DotnetState,
      path_group.ZigState, path_group.IacState]"

primrec PathGroup_name :: "path_group \<Rightarrow> string" where
  "PathGroup_name path_group.Keys = ''keys''"
| "PathGroup_name path_group.Cloud = ''cloud''"
| "PathGroup_name path_group.Logins = ''logins''"
| "PathGroup_name path_group.Tokens = ''tokens''"
| "PathGroup_name path_group.History = ''history''"
| "PathGroup_name path_group.Secrets = ''secrets''"
| "PathGroup_name path_group.Workspace = ''workspace''"
| "PathGroup_name path_group.Git = ''git''"
| "PathGroup_name path_group.Ci = ''ci''"
| "PathGroup_name path_group.Editor = ''editor''"
| "PathGroup_name path_group.Toolchain = ''toolchain''"
| "PathGroup_name path_group.Harness = ''harness''"
| "PathGroup_name path_group.Artifacts = ''artifacts''"
| "PathGroup_name path_group.ClaudeState = ''claude-state''"
| "PathGroup_name path_group.CodexState = ''codex-state''"
| "PathGroup_name path_group.PiState = ''pi-state''"
| "PathGroup_name path_group.OmpState = ''omp-state''"
| "PathGroup_name path_group.NodeState = ''node-state''"
| "PathGroup_name path_group.PythonState = ''python-state''"
| "PathGroup_name path_group.RustState = ''rust-state''"
| "PathGroup_name path_group.GoState = ''go-state''"
| "PathGroup_name path_group.JvmState = ''jvm-state''"
| "PathGroup_name path_group.RubyState = ''ruby-state''"
| "PathGroup_name path_group.DotnetState = ''dotnet-state''"
| "PathGroup_name path_group.ZigState = ''zig-state''"
| "PathGroup_name path_group.IacState = ''iac-state''"

primrec paths :: "path_group \<Rightarrow> string list" where
  "paths path_group.Keys =
     [''~/.ssh'', ''~/.gnupg'']"
| "paths path_group.Cloud =
     [''~/.aws'', ''~/.config/gcloud'', ''~/.azure'', ''~/.oci'', ''~/.databrickscfg'',
      ''~/.terraform.d/credentials.tfrc.json'']"
| "paths path_group.Logins =
     [''~/.kube'', ''~/.docker'', ''~/.netrc'']"
| "paths path_group.Tokens =
     [''~/.git-credentials'', ''~/.config/gh'', ''~/.config/glab-cli'', ''~/.npmrc'',
      ''~/.pypirc'', ''~/.cargo/credentials.toml'', ''~/.gem/credentials'',
      ''~/.gradle/gradle.properties'']"
| "paths path_group.History =
     [''~/.bash_history'', ''~/.zsh_history'', ''~/.local/share/fish/fish_history'']"
| "paths path_group.Secrets =
     [''~/Library/Keychains'', ''~/.password-store'', ''~/.config/op'']"
| "paths path_group.Workspace =
     [''.'', ''/tmp'']"
| "paths path_group.Git =
     [''.git/hooks'', ''.git/config'', ''.husky'', ''.pre-commit-config.yaml'']"
| "paths path_group.Ci =
     [''.github/workflows'', ''.gitlab-ci.yml'']"
| "paths path_group.Editor =
     [''.vscode'', ''.idea'', ''.devcontainer'']"
| "paths path_group.Toolchain =
     [''.envrc'', ''.cargo/config.toml'', ''.npmrc'', ''.yarnrc.yml'']"
| "paths path_group.Harness =
     [''.claude'', ''.mcp.json'', ''.codex'', ''.agents'', ''.pi'', ''.omp'']"
| "paths path_group.Artifacts =
     [''.beez'']"
| "paths path_group.ClaudeState =
     [''~/.claude'', ''~/.claude.json'']"
| "paths path_group.CodexState =
     [''~/.codex'']"
| "paths path_group.PiState =
     [''~/.pi'']"
| "paths path_group.OmpState =
     [''~/.omp'']"
| "paths path_group.NodeState =
     [''~/.npm'', ''~/.cache'', ''~/.bun'', ''~/.local/share/pnpm'']"
| "paths path_group.PythonState =
     [''~/.cache'']"
| "paths path_group.RustState =
     [''~/.cargo'', ''~/.rustup'']"
| "paths path_group.GoState =
     [''~/go'', ''~/.cache'']"
| "paths path_group.JvmState =
     [''~/.m2'', ''~/.gradle'']"
| "paths path_group.RubyState =
     [''~/.gem'', ''~/.bundle'']"
| "paths path_group.DotnetState =
     [''~/.nuget'', ''~/.dotnet'']"
| "paths path_group.ZigState =
     [''~/.cache/zig'']"
| "paths path_group.IacState =
     [''~/.terraform.d'']"

primrec state_group :: "executable_group \<Rightarrow> path_group option" where
  "state_group executable_group.Node = Some path_group.NodeState"
| "state_group executable_group.Python = Some path_group.PythonState"
| "state_group executable_group.Rust = Some path_group.RustState"
| "state_group executable_group.Go = Some path_group.GoState"
| "state_group executable_group.Jvm = Some path_group.JvmState"
| "state_group executable_group.Ruby = Some path_group.RubyState"
| "state_group executable_group.Dotnet = Some path_group.DotnetState"
| "state_group executable_group.Zig = Some path_group.ZigState"
| "state_group executable_group.Iac = Some path_group.IacState"
| "state_group executable_group.Coreutils = None"
| "state_group executable_group.Text = None"
| "state_group executable_group.Git = None"
| "state_group executable_group.Net = None"
| "state_group executable_group.Build = None"
| "state_group executable_group.Container = None"
| "state_group executable_group.Process = None"

primrec GroupError_text :: "group_error \<Rightarrow> string" where
  "GroupError_text (UnknownDomainGroup s) =
     unknown DomainGroup_ALL DomainGroup_name ''domain group'' s"
| "GroupError_text (UnknownExecutableGroup s) =
     unknown ExecutableGroup_ALL ExecutableGroup_name ''executable group'' s"

subsection \<open>The name tables\<close>

interpretation domain_names: name_table DomainGroup_ALL DomainGroup_name
proof unfold_locales
  show "distinct (map DomainGroup_name DomainGroup_ALL)"
    by (simp add: DomainGroup_ALL_def)
  show "v \<in> set DomainGroup_ALL" for v
    by (cases v) (simp_all add: DomainGroup_ALL_def)
qed

interpretation executable_names: name_table ExecutableGroup_ALL ExecutableGroup_name
proof unfold_locales
  show "distinct (map ExecutableGroup_name ExecutableGroup_ALL)"
    by (simp add: ExecutableGroup_ALL_def)
  show "v \<in> set ExecutableGroup_ALL" for v
    by (cases v) (simp_all add: ExecutableGroup_ALL_def)
qed

interpretation path_names: name_table PathGroup_ALL PathGroup_name
proof unfold_locales
  show "distinct (map PathGroup_name PathGroup_ALL)"
    by (simp add: PathGroup_ALL_def)
  show "v \<in> set PathGroup_ALL" for v
    by (cases v) (simp_all add: PathGroup_ALL_def)
qed

instantiation domain_group :: linorder
begin

definition less_eq_domain_group :: "domain_group \<Rightarrow> domain_group \<Rightarrow> bool" where
  "less_eq_domain_group g h \<longleftrightarrow> rank_in DomainGroup_ALL g \<le> rank_in DomainGroup_ALL h"

definition less_domain_group :: "domain_group \<Rightarrow> domain_group \<Rightarrow> bool" where
  "less_domain_group g h \<longleftrightarrow> rank_in DomainGroup_ALL g < rank_in DomainGroup_ALL h"

instance
  by intro_classes
    (auto simp: less_eq_domain_group_def less_domain_group_def
      intro: rank_in_inj [OF domain_names.all_complete domain_names.all_complete])

end

instantiation executable_group :: linorder
begin

definition less_eq_executable_group :: "executable_group \<Rightarrow> executable_group \<Rightarrow> bool" where
  "less_eq_executable_group g h \<longleftrightarrow> rank_in ExecutableGroup_ALL g \<le> rank_in ExecutableGroup_ALL h"

definition less_executable_group :: "executable_group \<Rightarrow> executable_group \<Rightarrow> bool" where
  "less_executable_group g h \<longleftrightarrow> rank_in ExecutableGroup_ALL g < rank_in ExecutableGroup_ALL h"

instance
  by intro_classes
    (auto simp: less_eq_executable_group_def less_executable_group_def
      intro: rank_in_inj [OF executable_names.all_complete executable_names.all_complete])

end

instantiation path_group :: linorder
begin

definition less_eq_path_group :: "path_group \<Rightarrow> path_group \<Rightarrow> bool" where
  "less_eq_path_group g h \<longleftrightarrow> rank_in PathGroup_ALL g \<le> rank_in PathGroup_ALL h"

definition less_path_group :: "path_group \<Rightarrow> path_group \<Rightarrow> bool" where
  "less_path_group g h \<longleftrightarrow> rank_in PathGroup_ALL g < rank_in PathGroup_ALL h"

instance
  by intro_classes
    (auto simp: less_eq_path_group_def less_path_group_def
      intro: rank_in_inj [OF path_names.all_complete path_names.all_complete])

end

subsection \<open>What the tables promise\<close>

lemma programs_nonempty: "programs g \<noteq> []"
  by (cases g) simp_all

lemma state_group_text:
  "state_group g = Some p \<Longrightarrow> PathGroup_name p = ExecutableGroup_name g @ ''-state''"
  by (cases g) auto

lemma unknown_offers_every_name:
  "v \<in> set vs \<Longrightarrow> sublist (nm v) (unknown vs nm kind s)"
proof -
  assume "v \<in> set vs"
  then have "sublist (nm v) (join '', '' (map nm vs))" by (intro join_infix) simp
  then show ?thesis
    unfolding unknown_def by (intro sublist_append_left)
qed

end
