(* ===== verification/Policy_Domain.thy ===== *)
theory Policy_Domain
  imports Policy_Names
begin

text \<open>
  \<open>beez-policy/src/domain.rs\<close>: a rule for the hosts a sandboxed task may reach.

  The lemmas state the language of rules (\<open>rule_valid\<close>), that the parser produces exactly those
  and reads back what \<open>Display\<close> prints, and what a rule matches in terms of labels.
\<close>

subsection \<open>Rules\<close>

datatype domain_rule_error =
    EmptyHost | InvalidHostCharacter string | MisplacedWildcard | InvalidPort string

primrec DomainRuleError_text :: "domain_rule_error \<Rightarrow> string" where
  "DomainRuleError_text EmptyHost = ''domain rule must name a host''"
| "DomainRuleError_text (InvalidHostCharacter c) =
     ''domain rule contains invalid character '' @ [CHR 0x27] @ c @ [CHR 0x27]"
| "DomainRuleError_text MisplacedWildcard =
     ''domain rule may use `*` only as the first label''"
| "DomainRuleError_text (InvalidPort p) = ''domain rule has invalid port '' @ debug_str p"

record domain_rule =
  dr_host :: string
  dr_wildcard :: bool
  dr_port :: "nat option"

definition host_char :: "char \<Rightarrow> bool" where
  "host_char c \<longleftrightarrow> ascii_alphanumeric c \<or> c = CHR ''-'' \<or> c = CHR ''.''"

definition DomainRule_matches :: "domain_rule \<Rightarrow> string \<Rightarrow> nat \<Rightarrow> bool" where
  "DomainRule_matches r host port =
     (if (case dr_port r of Some allowed \<Rightarrow> allowed \<noteq> port | None \<Rightarrow> False) then False
      else let host = ascii_lowercase (trim_end_matches CHR ''.'' host) in
        if dr_wildcard r then
          (case strip_suffix (dr_host r) host of
             None \<Rightarrow> False
           | Some pre \<Rightarrow> suffix ''.'' pre \<and> 1 < length pre)
        else host = dr_host r)"

definition DomainRule_port :: "string \<Rightarrow> domain_rule_error + string \<times> nat option" where
  "DomainRule_port v =
     (case rsplit_once CHR '':'' v of
        Some (host, port) \<Rightarrow>
          (case parse_unsigned 65535 port of
             None \<Rightarrow> Inl (InvalidPort port)
           | Some n \<Rightarrow> if n \<noteq> 0 then Inr (host, Some n) else Inl (InvalidPort port))
      | None \<Rightarrow> Inr (v, None))"

definition DomainRule_from_str :: "string \<Rightarrow> domain_rule_error + domain_rule" where
  "DomainRule_from_str v = and_then (DomainRule_port v) (\<lambda>(host, port).
     let (host, wildcard) =
           (case strip_prefix ''*.'' host of Some host \<Rightarrow> (host, True) | None \<Rightarrow> (host, False));
         host = trim_end_matches CHR ''.'' host
     in if host = [] then Inl EmptyHost
        else if CHR ''*'' \<in> set host then Inl MisplacedWildcard
        else case first_outside host_char host of
               Some c \<Rightarrow> Inl (InvalidHostCharacter c)
             | None \<Rightarrow> Inr \<lparr>dr_host = ascii_lowercase host, dr_wildcard = wildcard, dr_port = port\<rparr>)"

definition DomainRule_text :: "domain_rule \<Rightarrow> string" where
  "DomainRule_text r =
     (if dr_wildcard r then ''*.'' else []) @ dr_host r
     @ (case dr_port r of Some p \<Rightarrow> '':'' @ dec p | None \<Rightarrow> [])"

subsection \<open>The rules the parser produces\<close>

definition rule_valid :: "domain_rule \<Rightarrow> bool" where
  "rule_valid r \<longleftrightarrow>
     dr_host r \<noteq> [] \<and> last (dr_host r) \<noteq> CHR ''.''
     \<and> list_all (\<lambda>c. host_char c \<and> \<not> ascii_upper c) (dr_host r)
     \<and> (case dr_port r of None \<Rightarrow> True | Some p \<Rightarrow> 0 < p \<and> p \<le> 65535)"

lemma host_char_ascii: "host_char c \<Longrightarrow> byte c < 128"
  by (auto simp: host_char_def ascii_alphanumeric_def ascii_digit_def ascii_upper_def
      ascii_lower_def byte_def)

lemma host_char_not [simp]: "\<not> host_char CHR '':''" "\<not> host_char CHR ''*''"
  by (simp_all add: host_char_def ascii_alphanumeric_def ascii_digit_def ascii_upper_def
      ascii_lower_def byte_def)

lemma host_char_lower: "host_char c \<Longrightarrow> host_char (to_ascii_lower c)"
  by (auto simp: to_ascii_lower_def host_char_def ascii_alphanumeric_def ascii_upper_def
      ascii_lower_def)

lemma not_upper_lower: "\<not> ascii_upper (to_ascii_lower c)"
  by (auto simp: to_ascii_lower_def ascii_upper_def)

lemma lowercase_id: "list_all (\<lambda>c. \<not> ascii_upper c) s \<Longrightarrow> ascii_lowercase s = s"
  by (induction s) (auto simp: ascii_lowercase_def to_ascii_lower_def)

lemma to_ascii_lower_dot: "to_ascii_lower c = CHR ''.'' \<longleftrightarrow> c = CHR ''.''"
proof
  assume "to_ascii_lower c = CHR ''.''"
  then have "byte (to_ascii_lower c) = byte CHR ''.''" by simp
  then have "byte c = byte CHR ''.''"
    by (auto simp: to_ascii_lower_def ascii_upper_def byte_def split: if_splits)
  then show "c = CHR ''.''" by (simp only: byte_inj)
qed (simp add: to_ascii_lower_def ascii_upper_def byte_def)

lemma DomainRule_port_valid:
  "DomainRule_port v = Inr (h, Some p) \<Longrightarrow> 0 < p \<and> p \<le> 65535"
  by (auto simp: DomainRule_port_def dest: parse_unsigned_bound split: option.splits if_splits)

lemma DomainRule_from_str_valid:
  assumes "DomainRule_from_str v = Inr r"
  shows "rule_valid r"
proof -
  obtain h p where hp: "DomainRule_port v = Inr (h, p)"
    using assms by (auto simp: DomainRule_from_str_def and_then_Inr_iff)
  define h' where "h' = trim_end_matches CHR ''.''
    (case strip_prefix ''*.'' h of Some t \<Rightarrow> t | None \<Rightarrow> h)"
  have ne: "h' \<noteq> []" and none: "first_outside host_char h' = None"
    and host: "dr_host r = ascii_lowercase h'" and port: "dr_port r = p"
    using assms hp
    by (auto simp: DomainRule_from_str_def h'_def Let_def split: option.splits if_splits)
  have all: "list_all host_char h'"
    using none first_outside_None_iff [of host_char] host_char_ascii by blast
  have "last h' \<noteq> CHR ''.''"
    using ne trim_end_matches_last unfolding h'_def by blast
  then have "last (dr_host r) \<noteq> CHR ''.''"
    using ne by (simp add: host ascii_lowercase_def last_map to_ascii_lower_dot)
  moreover have "list_all (\<lambda>c. host_char c \<and> \<not> ascii_upper c) (dr_host r)"
    using all by (auto simp: host ascii_lowercase_def list_all_iff host_char_lower not_upper_lower)
  moreover have "case p of None \<Rightarrow> True | Some p \<Rightarrow> 0 < p \<and> p \<le> 65535"
    using hp by (auto dest: DomainRule_port_valid split: option.splits)
  ultimately show ?thesis
    using ne by (simp add: rule_valid_def host port ascii_lowercase_def)
qed

lemma DomainRule_port_text:
  assumes "rule_valid r"
  shows "DomainRule_port (DomainRule_text r)
         = Inr ((if dr_wildcard r then ''*.'' else []) @ dr_host r, dr_port r)"
proof -
  have colon: "CHR '':'' \<notin> set (dr_host r)"
    using assms by (auto simp: rule_valid_def list_all_iff)
  show ?thesis
  proof (cases "dr_port r")
    case None
    then have "CHR '':'' \<notin> set (DomainRule_text r)" using colon by (simp add: DomainRule_text_def)
    then have no_port: "rsplit_once CHR '':'' (DomainRule_text r) = None" by simp
    show ?thesis unfolding DomainRule_port_def no_port by (simp add: None DomainRule_text_def)
  next
    case (Some p)
    have "CHR '':'' \<notin> set (dec p)"
      using dec_digits [of p] by (auto simp: list_all_iff ascii_digit_def byte_def)
    then have "rsplit_once CHR '':'' (DomainRule_text r)
               = Some ((if dr_wildcard r then ''*.'' else []) @ dr_host r, dec p)"
      by (simp add: rsplit_once_Some_iff DomainRule_text_def Some)
    moreover have "0 < p" "p \<le> 65535" using assms Some by (auto simp: rule_valid_def)
    ultimately show ?thesis using Some by (simp add: DomainRule_port_def)
  qed
qed

lemma DomainRule_roundtrip:
  assumes "rule_valid r"
  shows "DomainRule_from_str (DomainRule_text r) = Inr r"
proof -
  have host: "dr_host r \<noteq> []" "last (dr_host r) \<noteq> CHR ''.''" "CHR ''*'' \<notin> set (dr_host r)"
    "list_all host_char (dr_host r)" "list_all (\<lambda>c. \<not> ascii_upper c) (dr_host r)"
    using assms by (auto simp: rule_valid_def list_all_iff)
  have strip: "(case strip_prefix ''*.'' ((if dr_wildcard r then ''*.'' else []) @ dr_host r) of
      Some h \<Rightarrow> (h, True)
    | None \<Rightarrow> ((if dr_wildcard r then ''*.'' else []) @ dr_host r, False))
    = (dr_host r, dr_wildcard r)"
    using host(3) by (auto simp: strip_prefix_def prefix_def split: option.splits)
  have trimmed: "trim_end_matches CHR ''.'' (dr_host r) = dr_host r"
    by (rule trim_end_matches_id) (use host in simp)
  have none: "first_outside host_char (dr_host r) = None"
    using host first_outside_None_iff [of host_char] host_char_ascii by blast
  show ?thesis
    unfolding DomainRule_from_str_def DomainRule_port_text [OF assms] and_then_simps prod.case
    unfolding strip Let_def prod.case trimmed
    using host by (simp add: none lowercase_id)
qed

interpretation rules: text_codec DomainRule_text DomainRule_from_str rule_valid
  by unfold_locales (rule DomainRule_roundtrip)

subsection \<open>What a rule matches\<close>

lemma DomainRule_matches_iff:
  "DomainRule_matches r host port \<longleftrightarrow>
     (dr_port r = None \<or> dr_port r = Some port)
     \<and> (if dr_wildcard r
        then \<exists>label. label \<noteq> [] \<and>
               ascii_lowercase (trim_end_matches CHR ''.'' host) = label @ ''.'' @ dr_host r
        else ascii_lowercase (trim_end_matches CHR ''.'' host) = dr_host r)"
proof (cases "dr_wildcard r")
  case True
  define h where "h = ascii_lowercase (trim_end_matches CHR ''.'' host)"
  have "(case strip_suffix (dr_host r) h of
           None \<Rightarrow> False | Some pre \<Rightarrow> suffix ''.'' pre \<and> 1 < length pre)
        \<longleftrightarrow> (\<exists>label. label \<noteq> [] \<and> h = label @ ''.'' @ dr_host r)"
    by (auto simp: strip_suffix_Some_iff strip_suffix_None_iff suffix_def split: option.splits)
  then show ?thesis
    using True by (auto simp: DomainRule_matches_def Let_def h_def split: option.splits)
qed (auto simp: DomainRule_matches_def Let_def split: option.splits)

lemma ascii_lowercase_trim:
  "ascii_lowercase (trim_end_matches CHR ''.'' s) = trim_end_matches CHR ''.'' (ascii_lowercase s)"
proof (induction s rule: rev_induct)
  case (snoc c s)
  then show ?case
    by (cases "c = CHR ''.''")
      (simp_all add: trim_end_matches_def ascii_lowercase_def to_ascii_lower_dot rev_map)
qed (simp add: trim_end_matches_def ascii_lowercase_def)

text \<open>Case and trailing dots of the requested host never change the answer.\<close>

lemma DomainRule_matches_cong:
  assumes "ascii_lowercase (trim_end_matches CHR ''.'' h)
           = ascii_lowercase (trim_end_matches CHR ''.'' h')"
  shows "DomainRule_matches r h p = DomainRule_matches r h' p"
  using assms by (simp add: DomainRule_matches_iff)

lemma wildcard_not_bare:
  "dr_wildcard r \<Longrightarrow> \<not> DomainRule_matches r (dr_host r) p" if "rule_valid r"
proof
  assume wild: "dr_wildcard r" and "DomainRule_matches r (dr_host r) p"
  have "trim_end_matches CHR ''.'' (dr_host r) = dr_host r"
    by (rule trim_end_matches_id) (use that in \<open>simp add: rule_valid_def\<close>)
  moreover have "ascii_lowercase (dr_host r) = dr_host r"
    by (rule lowercase_id) (use that in \<open>auto simp: rule_valid_def list_all_iff\<close>)
  ultimately obtain label where "dr_host r = label @ ''.'' @ dr_host r"
    using wild \<open>DomainRule_matches r (dr_host r) p\<close> by (auto simp: DomainRule_matches_iff)
  then have "length (dr_host r) = length (label @ ''.'' @ dr_host r)" by (rule arg_cong)
  then show False by simp
qed

subsection \<open>The group tables\<close>

definition parse_valid :: "(string \<Rightarrow> 'e + 'v) \<Rightarrow> string list \<Rightarrow> 'v list" where
  "parse_valid parse vs = List.map_filter (\<lambda>v. to_option (parse v)) vs"

definition DomainGroup_rules :: "domain_group \<Rightarrow> domain_rule list" where
  "DomainGroup_rules g = parse_valid DomainRule_from_str (domains g)"

text \<open>A shape of rule that is quick to recognise, for the tables: a plain host, perhaps behind \<open>*.\<close>.\<close>

definition host_alphabet :: string where
  "host_alphabet = ''-.abcdefghijklmnopqrstuvwxyz0123456789''"

definition plain_host :: "string \<Rightarrow> bool" where
  "plain_host v \<longleftrightarrow>
     (let h = (case strip_prefix ''*.'' v of Some t \<Rightarrow> t | None \<Rightarrow> v)
      in h \<noteq> [] \<and> last h \<noteq> CHR ''.'' \<and> list_all (\<lambda>c. c \<in> set host_alphabet) h)"

lemma host_alphabet: "list_all host_char host_alphabet"
  by code_simp

lemma plain_host_parses:
  assumes "plain_host v"
  shows "\<exists>r. DomainRule_from_str v = Inr r"
proof -
  define h where "h = (case strip_prefix ''*.'' v of Some t \<Rightarrow> t | None \<Rightarrow> v)"
  have h: "h \<noteq> []" "last h \<noteq> CHR ''.''" "list_all host_char h"
    using assms host_alphabet by (auto simp: plain_host_def h_def Let_def list_all_iff)
  then have no: "CHR '':'' \<notin> set h" "CHR ''*'' \<notin> set h" by (auto simp: list_all_iff)
  have v: "v = h \<or> v = ''*.'' @ h"
    by (auto simp: h_def strip_prefix_Some_iff split: option.splits)
  then have "CHR '':'' \<notin> set v" using no by auto
  then have no_port: "rsplit_once CHR '':'' v = None" by simp
  have port: "DomainRule_port v = Inr (v, None)" unfolding DomainRule_port_def no_port by simp
  have trimmed: "trim_end_matches CHR ''.'' h = h" by (rule trim_end_matches_id) (use h in simp)
  have none: "first_outside host_char h = None"
    using h first_outside_None_iff [of host_char] host_char_ascii by blast
  have "\<exists>w. (case strip_prefix ''*.'' v of Some t \<Rightarrow> (t, True) | None \<Rightarrow> (v, False)) = (h, w)"
    by (auto simp: h_def split: option.splits)
  then obtain w
    where strip: "(case strip_prefix ''*.'' v of Some t \<Rightarrow> (t, True) | None \<Rightarrow> (v, False)) = (h, w)"
    by blast
  show ?thesis
    unfolding DomainRule_from_str_def port and_then_simps prod.case strip Let_def trimmed
    using h(1) no(2) none by simp
qed

lemma plain_hosts: "list_all (\<lambda>g. list_all plain_host (domains g)) DomainGroup_ALL"
  by code_simp

lemma domains_parse: "d \<in> set (domains g) \<Longrightarrow> \<exists>r. DomainRule_from_str d = Inr r"
  using plain_hosts domain_names.all_complete [of g] plain_host_parses
  by (auto simp: list_all_iff)

lemma parse_valid_complete:
  "(\<And>v. v \<in> set vs \<Longrightarrow> \<exists>x. parse v = Inr x) \<Longrightarrow> traverse parse vs = Inr (parse_valid parse vs)"
proof (induction vs)
  case (Cons v vs)
  from Cons.prems [of v] obtain x where "parse v = Inr x" by auto
  with Cons show ?case by (simp add: parse_valid_def List.map_filter_def)
qed (simp add: parse_valid_def List.map_filter_def)

end
