(* ===== verification/Paths.thy ===== *)
theory Paths
  imports Text
begin

text \<open>
  The part of \<open>std::path\<close> for Unix that the program uses. A path is its text; \<open>components\<close>
  reads it the way \<open>Path::components\<close> does: repeated separators and inner \<open>.\<close> are dropped.
  Rust compares paths, and tests \<open>starts_with\<close>, on components.
\<close>

subsection \<open>Components\<close>

datatype component = RootDir | CurDir | ParentDir | Normal string

definition component_of :: "string \<Rightarrow> component" where
  "component_of s = (if s = ''..'' then ParentDir else Normal s)"

definition components :: "string \<Rightarrow> component list" where
  "components p =
     (if prefix ''/'' p then [RootDir]
      else if p = ''.'' \<or> prefix ''./'' p then [CurDir] else [])
     @ map component_of (filter (\<lambda>s. s \<noteq> [] \<and> s \<noteq> ''.'') (split_at_char CHR ''/'' p))"

definition path_eq :: "string \<Rightarrow> string \<Rightarrow> bool" where
  "path_eq p q \<longleftrightarrow> components p = components q"

definition path_starts_with :: "string \<Rightarrow> string \<Rightarrow> bool" where
  "path_starts_with p base \<longleftrightarrow> prefix (components base) (components p)"

definition is_absolute :: "string \<Rightarrow> bool" where
  "is_absolute p \<longleftrightarrow> prefix ''/'' p"

text \<open>\<open>Path::join\<close>: an absolute path replaces the base.\<close>

definition path_join :: "string \<Rightarrow> string \<Rightarrow> string" where
  "path_join base p =
     (if is_absolute p then p
      else if base = [] \<or> last base = CHR ''/'' then base @ p else base @ ''/'' @ p)"

definition file_name :: "string \<Rightarrow> string option" where
  "file_name p = (case rev (components p) of Normal s # _ \<Rightarrow> Some s | _ \<Rightarrow> None)"

text \<open>\<open>Path::extension\<close>: what follows the last dot of the file name, unless the dot starts it.\<close>

definition path_extension :: "string \<Rightarrow> string option" where
  "path_extension p =
     (case file_name p of
        None \<Rightarrow> None
      | Some name \<Rightarrow>
          (case rsplit_once CHR ''.'' name of
             None \<Rightarrow> None
           | Some (stem, extension) \<Rightarrow> if stem = [] then None else Some extension))"

text \<open>The text of a list of components, joined as \<open>PathBuf::push\<close> joins them.\<close>

primrec component_text :: "component \<Rightarrow> string" where
  "component_text RootDir = ''/''"
| "component_text CurDir = ''.''"
| "component_text ParentDir = ''..''"
| "component_text (Normal s) = s"

definition from_components :: "component list \<Rightarrow> string" where
  "from_components cs = foldl (\<lambda>p c. path_join p (component_text c)) [] cs"

definition parent :: "string \<Rightarrow> string option" where
  "parent p =
     (case rev (components p) of
        [] \<Rightarrow> None
      | RootDir # _ \<Rightarrow> None
      | _ # cs \<Rightarrow> Some (from_components (rev cs)))"

text \<open>\<open>Path::ancestors\<close>: the path itself, then its parents, the nearest first.\<close>

definition ancestors :: "string \<Rightarrow> string list" where
  "ancestors path =
     path # map from_components
       (filter (\<lambda>cs. cs \<noteq> [] \<or> \<not> is_absolute path) (tl (rev (prefixes (components path)))))"

lemma path_starts_with_refl [simp]: "path_starts_with p p"
  by (simp add: path_starts_with_def)

lemma path_starts_with_trans:
  "path_starts_with p q \<Longrightarrow> path_starts_with q r \<Longrightarrow> path_starts_with p r"
  unfolding path_starts_with_def by (rule prefix_order.trans)

lemma path_starts_with_antisym:
  "path_starts_with p q \<Longrightarrow> path_starts_with q p \<Longrightarrow> path_eq p q"
  unfolding path_starts_with_def path_eq_def by (metis prefix_order.antisym)

lemma split_append_sep:
  "split_at_char c (p @ c # q) = split_at_char c p @ split_at_char c q"
proof (induction p)
  case (Cons x p)
  then show ?case
    by (auto simp: split_at_char_def split: list.splits)
qed (simp add: split_at_char_def)

lemma components_snoc_slash: "p \<noteq> [] \<Longrightarrow> components (p @ ''/'' @ q) =
    components p @ map component_of (filter (\<lambda>s. s \<noteq> [] \<and> s \<noteq> ''.'') (split_at_char CHR ''/'' q))"
proof -
  assume p: "p \<noteq> []"
  have "prefix ''/'' (p @ ''/'' @ q) \<longleftrightarrow> prefix ''/'' p" using p by (cases p) auto
  moreover have "(p @ ''/'' @ q = ''.'' \<or> prefix ''./'' (p @ ''/'' @ q))
      \<longleftrightarrow> (p = ''.'' \<or> prefix ''./'' p)"
    using p by (cases p; cases "tl p") auto
  ultimately show ?thesis by (simp add: components_def split_append_sep)
qed

lemma join_starts_with:
  assumes "\<not> is_absolute p" and "base \<noteq> []"
  shows "path_starts_with (path_join base p) base"
proof (cases "last base = CHR ''/''")
  case True
  then obtain b where b: "base = b @ ''/''" using assms by (metis append_butlast_last_id)
  show ?thesis
  proof (cases "b = []")
    case True
    then have "path_join base p = ''/'' @ p" using assms b by (simp add: path_join_def)
    with True b show ?thesis
      by (simp add: path_starts_with_def components_def split_at_char_def)
  next
    case False
    have "path_join base p = b @ ''/'' @ p" using assms b by (simp add: path_join_def)
    moreover have "components base = components b"
      using components_snoc_slash [OF False, of "[]"] b by (simp add: split_at_char_def)
    ultimately show ?thesis
      by (simp add: path_starts_with_def components_snoc_slash [OF False] del: append_Cons)
  qed
next
  case False
  then show ?thesis
    using assms by (simp add: path_join_def path_starts_with_def
        components_snoc_slash [OF assms(2), simplified])
qed

subsection \<open>Reading back a list of components\<close>

definition inner_component :: "component \<Rightarrow> bool" where
  "inner_component c \<longleftrightarrow>
     (case c of
        Normal s \<Rightarrow> s \<noteq> [] \<and> s \<noteq> ''.'' \<and> s \<noteq> ''..'' \<and> CHR ''/'' \<notin> set s
      | ParentDir \<Rightarrow> True
      | _ \<Rightarrow> False)"

definition well_formed :: "component list \<Rightarrow> bool" where
  "well_formed cs \<longleftrightarrow>
     (case cs of
        [] \<Rightarrow> True
      | c # cs \<Rightarrow> (c = RootDir \<or> c = CurDir \<or> inner_component c) \<and> list_all inner_component cs)"

lemma split_no_sep: "x \<in> set (split_at_char c s) \<Longrightarrow> c \<notin> set x"
  unfolding split_at_char_def
proof (induction s arbitrary: x)
  case (Cons a s)
  then show ?case by (auto split: if_splits list.splits)
qed simp

lemma component_of_inner:
  "s \<in> set (split_at_char CHR ''/'' p) \<Longrightarrow> s \<noteq> [] \<Longrightarrow> s \<noteq> ''.'' \<Longrightarrow> inner_component (component_of s)"
  using split_no_sep [of s "CHR ''/''" p] by (simp add: component_of_def inner_component_def)

lemma components_well_formed [simp]: "well_formed (components p)"
proof -
  have "list_all inner_component (map component_of
      (filter (\<lambda>s. s \<noteq> [] \<and> s \<noteq> ''.'') (split_at_char CHR ''/'' p)))"
    using component_of_inner by (auto simp: list_all_iff)
  then show ?thesis
    by (auto simp: components_def well_formed_def split: list.splits)
qed

lemma well_formed_append: "well_formed (cs @ ds) \<Longrightarrow> well_formed cs"
  by (cases cs) (auto simp: well_formed_def)

lemma well_formed_take [simp]: "well_formed cs \<Longrightarrow> well_formed (take n cs)"
  using well_formed_append [of "take n cs" "drop n cs"] by simp

lemma inner_text:
  assumes "inner_component c"
  shows "component_text c \<noteq> []" and "CHR ''/'' \<notin> set (component_text c)"
    and "component_text c \<noteq> ''.''" and "component_of (component_text c) = c"
  using assms by (auto simp: inner_component_def component_of_def split: component.splits)

lemma split_single [simp]: "CHR ''/'' \<notin> set s \<Longrightarrow> split_at_char CHR ''/'' s = [s]"
  unfolding split_at_char_def by (rule splitp_no_sep) (auto simp: list_all_iff)

lemma components_inner:
  assumes "inner_component c"
  shows "components (component_text c) = [c]"
proof -
  note c = inner_text [OF assms]
  have "\<not> prefix ''/'' (component_text c)" and "\<not> prefix ''./'' (component_text c)"
    using c(2) by (auto simp: prefix_def)
  then show ?thesis using c by (simp add: components_def)
qed

lemma components_slash_inner:
  assumes "inner_component c"
  shows "components (CHR ''/'' # component_text c) = [RootDir, c]"
proof -
  note c = inner_text [OF assms]
  have "split_at_char CHR ''/'' (CHR ''/'' # component_text c) = [[], component_text c]"
    using split_append_sep [of "CHR ''/''" "[]" "component_text c"] c(2)
    by (simp add: split_at_char_def [of _ "[]"])
  then show ?thesis using c by (simp add: components_def)
qed

lemma components_from_components:
  "well_formed cs \<Longrightarrow> components (from_components cs) = cs
     \<and> (from_components cs = [] \<longleftrightarrow> cs = [])
     \<and> (cs \<noteq> [] \<longrightarrow> (last (from_components cs) = CHR ''/'' \<longleftrightarrow> cs = [RootDir]))"
proof (induction cs rule: rev_induct)
  case Nil
  show ?case by (simp add: from_components_def components_def split_at_char_def)
next
  case (snoc c cs)
  have wf: "well_formed cs" using snoc.prems by (rule well_formed_append)
  note IH = snoc.IH [OF wf]
  have step: "from_components (cs @ [c]) = path_join (from_components cs) (component_text c)"
    by (simp add: from_components_def)
  show ?case
  proof (cases "inner_component c")
    case True
    note t = inner_text [OF True]
    have na: "\<not> is_absolute (component_text c)" using t(2) by (auto simp: is_absolute_def prefix_def)
    have lst: "last (component_text c) \<noteq> CHR ''/''" using t(1,2) last_in_set by metis
    consider "cs = []" | "cs = [RootDir]" | "cs \<noteq> []" "cs \<noteq> [RootDir]" by blast
    then show ?thesis
    proof cases
      case 1
      then show ?thesis using step na IH lst t(1) components_inner [OF True] True
        by (auto simp: path_join_def inner_component_def)
    next
      case 2
      have "from_components cs = ''/''"
        by (simp add: 2 from_components_def path_join_def is_absolute_def)
      then show ?thesis using step na lst t(1) components_slash_inner [OF True] 2
        by (simp add: path_join_def)
    next
      case 3
      then have "from_components (cs @ [c]) = from_components cs @ ''/'' @ component_text c"
        using step na IH by (simp add: path_join_def)
      moreover have "components \<dots> = cs @ [c]"
        using components_snoc_slash [of "from_components cs" "component_text c"] IH 3 t by simp
      ultimately show ?thesis using lst t(1) 3 by simp
    qed
  next
    case False
    then have "cs = []" "c = RootDir \<or> c = CurDir"
      using snoc.prems by (cases cs; auto simp: well_formed_def)+
    then show ?thesis
      by (auto simp: from_components_def path_join_def is_absolute_def components_def split_at_char_def)
  qed
qed

lemma components_from [simp]: "well_formed cs \<Longrightarrow> components (from_components cs) = cs"
  using components_from_components by blast

lemma components_parent: "parent p = Some q \<Longrightarrow> components q = butlast (components p)"
proof -
  assume "parent p = Some q"
  then obtain c cs where c: "rev (components p) = c # cs" and q: "q = from_components (rev cs)"
    by (auto simp: parent_def split: list.splits component.splits)
  from c have eq: "components p = rev cs @ [c]" by (metis rev.simps(2) rev_rev_ident)
  then have "well_formed (rev cs)" using components_well_formed [of p] well_formed_append by metis
  then show ?thesis by (simp add: q eq)
qed

lemma parent_shorter: "parent p = Some q \<Longrightarrow> length (components q) < length (components p)"
proof -
  assume p: "parent p = Some q"
  then have "components p \<noteq> []" by (auto simp: parent_def)
  then show ?thesis using components_parent [OF p] by simp
qed

end
