(* ===== verification/Policy_Path.thy ===== *)
theory Policy_Path
  imports Policy_Domain Paths
begin

text \<open>\<open>beez-policy/src/path.rs\<close>: a path in a filesystem or execution rule, before a host resolves it.\<close>

datatype sandbox_path_error = EmptyPath | NulPath

primrec SandboxPathError_text :: "sandbox_path_error \<Rightarrow> string" where
  "SandboxPathError_text EmptyPath = ''sandbox path must not be empty''"
| "SandboxPathError_text NulPath = ''sandbox path must not contain NUL''"

datatype sandbox_path = SandboxPath (path_text: string)

definition is_bare_name :: "sandbox_path \<Rightarrow> bool" where
  "is_bare_name p \<longleftrightarrow> CHR ''/'' \<notin> set (path_text p) \<and> path_text p \<noteq> ''~''"

definition SandboxPath_resolve :: "sandbox_path \<Rightarrow> string \<Rightarrow> string \<Rightarrow> string" where
  "SandboxPath_resolve p home working_directory =
     (if path_text p = ''~'' then home
      else case strip_prefix ''~/'' (path_text p) of
             Some rest \<Rightarrow> path_join home rest
           | None \<Rightarrow> path_join working_directory (path_text p))"

definition SandboxPath_from_str :: "string \<Rightarrow> sandbox_path_error + sandbox_path" where
  "SandboxPath_from_str v =
     (if v = [] then Inl EmptyPath
      else if CHR 0x00 \<in> set v then Inl NulPath
      else Inr (SandboxPath v))"

definition path_valid :: "sandbox_path \<Rightarrow> bool" where
  "path_valid p \<longleftrightarrow> path_text p \<noteq> [] \<and> CHR 0x00 \<notin> set (path_text p)"

lemma SandboxPath_from_str_iff:
  "SandboxPath_from_str v = Inr p \<longleftrightarrow> path_text p = v \<and> path_valid p"
  by (cases p) (auto simp: SandboxPath_from_str_def path_valid_def)

interpretation sandbox_paths: text_codec path_text SandboxPath_from_str path_valid
  by unfold_locales (simp add: SandboxPath_from_str_iff)

text \<open>\<open>sandbox_paths\<close> of a path group, and the state paths of an executable group.\<close>

definition PathGroup_sandbox_paths :: "path_group \<Rightarrow> sandbox_path list" where
  "PathGroup_sandbox_paths g = parse_valid SandboxPath_from_str (paths g)"

definition state_sandbox_paths :: "executable_group \<Rightarrow> sandbox_path list" where
  "state_sandbox_paths g =
     (case state_group g of Some p \<Rightarrow> PathGroup_sandbox_paths p | None \<Rightarrow> [])"

lemma paths_valid: "list_all (\<lambda>g. list_all (\<lambda>p. path_valid (SandboxPath p)) (paths g)) PathGroup_ALL"
  by code_simp

lemma paths_parse: "p \<in> set (paths g) \<Longrightarrow> SandboxPath_from_str p = Inr (SandboxPath p)"
  using paths_valid path_names.all_complete [of g]
  by (auto simp: list_all_iff SandboxPath_from_str_iff)

lemma PathGroup_sandbox_paths_eq: "PathGroup_sandbox_paths g = map SandboxPath (paths g)"
proof -
  have "traverse SandboxPath_from_str (paths g) = Inr (map SandboxPath (paths g))"
    by (rule traverse_all_Inr_map) (rule paths_parse)
  moreover have "traverse SandboxPath_from_str (paths g) = Inr (PathGroup_sandbox_paths g)"
    unfolding PathGroup_sandbox_paths_def by (rule parse_valid_complete) (use paths_parse in blast)
  ultimately show ?thesis by simp
qed

lemma SandboxPath_resolve_relative:
  assumes "\<not> is_absolute (path_text p)" and "\<not> prefix ''~'' (path_text p)"
  shows "SandboxPath_resolve p home wd = path_join wd (path_text p)"
proof -
  have "path_text p \<noteq> ''~''" using assms(2) by auto
  moreover have "\<not> prefix ''~/'' (path_text p)"
    using assms(2) by (cases "path_text p") auto
  ultimately show ?thesis
    by (simp add: SandboxPath_resolve_def strip_prefix_def)
qed

lemma SandboxPath_resolve_absolute:
  assumes "is_absolute (path_text p)"
  shows "SandboxPath_resolve p home wd = path_text p"
proof -
  have "\<not> prefix ''~/'' (path_text p)" "path_text p \<noteq> ''~''"
    using assms by (cases "path_text p"; auto simp: is_absolute_def)+
  then show ?thesis
    using assms by (simp add: SandboxPath_resolve_def strip_prefix_def path_join_def)
qed

text \<open>A path below \<open>~\<close> resolves below the home directory, unless what follows is absolute again.\<close>

lemma SandboxPath_resolve_home:
  assumes "path_text p = ''~/'' @ rest" and "\<not> is_absolute rest" and "home \<noteq> []"
  shows "path_starts_with (SandboxPath_resolve p home wd) home"
proof -
  have "SandboxPath_resolve p home wd = path_join home rest"
    using strip_prefix_append [of "''~/''" rest] assms(1) by (simp add: SandboxPath_resolve_def)
  then show ?thesis using join_starts_with [OF assms(2,3)] by simp
qed

end
