(* ===== verification/Policy_Sections.thy ===== *)
theory Policy_Sections
  imports Policy_Path
begin

text \<open>
  \<open>beez-policy/src/selection.rs\<close>, \<open>network.rs\<close>, \<open>filesystem.rs\<close>, \<open>executable.rs\<close>,
  \<open>sandbox.rs\<close>, \<open>profile.rs\<close> and \<open>parse.rs\<close>: the sections of a sandbox policy, how a task's
  section is laid over the workflow's, and what the result grants.

  The locale \<open>layering\<close> is the contract of the three sections: merging is associative, the section
  that sets nothing changes nothing, and what a layer names itself no later layer takes away.
\<close>

subsection \<open>Layers\<close>

locale layering =
  fixes merge :: "'p \<Rightarrow> 'p \<Rightarrow> 'p"
    and unset :: 'p
    and named :: "'p \<Rightarrow> 'r set"
  assumes merge_assoc: "merge (merge p q) r = merge p (merge q r)"
    and merge_unset: "merge p unset = p"
    and named_merge: "named (merge p q) = named p \<union> named q"
begin

lemma named_kept: "named p \<subseteq> named (merge p q)"
  by (simp add: named_merge)

lemma foldl_merge: "foldl merge (merge p q) ps = merge p (foldl merge q ps)"
  by (induction ps arbitrary: q) (simp_all add: merge_assoc)

lemma named_layers: "named (foldl merge p ps) = named p \<union> (\<Union>q\<in>set ps. named q)"
  by (induction ps arbitrary: p) (auto simp: named_merge)

lemma named_layer_kept: "q \<in> set ps \<Longrightarrow> named q \<subseteq> named (foldl merge p ps)"
  by (auto simp: named_layers)

lemma named_unset: "named unset \<subseteq> named p"
  by (metis merge_unset named_merge sup.cobounded2)

end

subsection \<open>Lists without repetition\<close>

definition extend_list :: "'a list \<Rightarrow> 'a list \<Rightarrow> 'a list" where
  "extend_list target values = foldl (\<lambda>t v. if v \<in> set t then t else t @ [v]) target values"

lemma extend_Nil [simp]: "extend_list xs [] = xs"
  by (simp add: extend_list_def)

lemma extend_Cons: "extend_list xs (v # vs) = extend_list (if v \<in> set xs then xs else xs @ [v]) vs"
  by (simp add: extend_list_def)

lemma set_extend [simp]: "set (extend_list xs ys) = set xs \<union> set ys"
  by (induction ys arbitrary: xs) (auto simp: extend_Cons)

lemma distinct_extend: "distinct xs \<Longrightarrow> distinct (extend_list xs ys)"
  by (induction ys arbitrary: xs) (auto simp: extend_Cons)

lemma extend_append: "extend_list xs (ys @ zs) = extend_list (extend_list xs ys) zs"
  by (simp add: extend_list_def)

lemma extend_snoc: "extend_list xs (ys @ [z]) = (if z \<in> set xs \<union> set ys then extend_list xs ys else extend_list xs ys @ [z])"
  by (simp add: extend_append extend_Cons)

lemma extend_assoc: "extend_list (extend_list xs ys) zs = extend_list xs (extend_list ys zs)"
proof (induction zs rule: rev_induct)
  case (snoc z zs)
  then show ?case by (auto simp: extend_snoc)
qed simp

lemma prefix_extend: "prefix xs (extend_list xs ys)"
proof (induction ys rule: rev_induct)
  case (snoc y ys)
  then show ?case by (auto simp: extend_snoc)
qed simp

text \<open>\<open>Option::or\<close>.\<close>

fun option_or :: "'a option \<Rightarrow> 'a option \<Rightarrow> 'a option" where
  "option_or (Some x) y = Some x"
| "option_or None y = y"

lemma option_or_simps [simp]:
  "option_or x None = x"
  "option_or (option_or x y) z = option_or x (option_or y z)"
  by (cases x; cases y; simp)+

text \<open>The elements of a \<open>BTreeSet\<close>, in its order.\<close>

definition btree_set :: "'a::linorder list \<Rightarrow> 'a list" where
  "btree_set xs = sort (remdups xs)"

lemma btree_set_simps [simp]:
  "set (btree_set xs) = set xs" "distinct (btree_set xs)" "sorted (btree_set xs)"
  by (simp_all add: btree_set_def)

lemma btree_set_eq: "set xs = set ys \<Longrightarrow> btree_set xs = btree_set ys"
  by (metis btree_set_simps sorted_distinct_set_unique)

subsection \<open>Group selections\<close>

record 'g group_selection =
  gs_defaults :: "bool option"
  gs_groups :: "'g list"
  gs_disable :: "'g list"

definition GroupSelection_default :: "'g group_selection" where
  "GroupSelection_default = \<lparr>gs_defaults = None, gs_groups = [], gs_disable = []\<rparr>"

definition GroupSelection_new :: "bool option \<Rightarrow> 'g list \<Rightarrow> 'g list \<Rightarrow> 'g group_selection" where
  [simp]: "GroupSelection_new defaults groups disable =
     \<lparr>gs_defaults = defaults, gs_groups = groups, gs_disable = disable\<rparr>"

definition GroupSelection_merge ::
  "'g group_selection \<Rightarrow> 'g group_selection \<Rightarrow> 'g group_selection" where
  "GroupSelection_merge s t =
     \<lparr>gs_defaults = option_or (gs_defaults t) (gs_defaults s),
      gs_groups = extend_list (gs_groups s) (gs_groups t),
      gs_disable = extend_list (gs_disable s) (gs_disable t)\<rparr>"

definition selected :: "'g::linorder group_selection \<Rightarrow> 'g list \<Rightarrow> 'g list" where
  "selected s default_groups =
     (let defaults = (case gs_defaults s of Some b \<Rightarrow> b | None \<Rightarrow> True)
      in btree_set
           (filter (\<lambda>g. defaults \<and> g \<notin> set (gs_disable s)) default_groups @ gs_groups s))"

lemma set_selected:
  "set (selected s ds) =
     {g \<in> set ds. gs_defaults s \<noteq> Some False \<and> g \<notin> set (gs_disable s)} \<union> set (gs_groups s)"
  by (auto simp: selected_def Let_def split: option.splits)

lemma GroupSelection_merge_assoc:
  "GroupSelection_merge (GroupSelection_merge s t) u
   = GroupSelection_merge s (GroupSelection_merge t u)"
  by (simp add: GroupSelection_merge_def extend_assoc)

lemma GroupSelection_merge_default: "GroupSelection_merge s GroupSelection_default = s"
  by (simp add: GroupSelection_merge_def GroupSelection_default_def)

text \<open>\<open>parse_all\<close>, with the \<open>Display\<close> of the error.\<close>

definition parse_all :: "(string \<Rightarrow> 'e + 'v) \<Rightarrow> ('e \<Rightarrow> string) \<Rightarrow> string list \<Rightarrow> string + 'v list" where
  "parse_all parse error_text values = traverse (\<lambda>v. map_err error_text (parse v)) values"

subsection \<open>Harness profiles\<close>

definition MULTI_PROVIDER_GROUPS :: "domain_group list" where
  "MULTI_PROVIDER_GROUPS =
     [domain_group.Anthropic, domain_group.OpenAi, domain_group.Google, domain_group.OpenRouter]"

record harness_profile =
  required_domain_groups :: "domain_group list"
  default_domain_groups :: "domain_group list"
  state_paths :: "sandbox_path list"
  environment :: "(string \<times> string) list"

primrec harness_state_group :: "headless_harness \<Rightarrow> path_group" where
  "harness_state_group headless_harness.Claude = path_group.ClaudeState"
| "harness_state_group headless_harness.Codex = path_group.CodexState"
| "harness_state_group headless_harness.Pi = path_group.PiState"
| "harness_state_group headless_harness.Omp = path_group.OmpState"

definition harness_environment :: "headless_harness \<Rightarrow> (string \<times> string) list" where
  "harness_environment h =
     (case h of
        headless_harness.Claude \<Rightarrow>
          [(''CLAUDE_CODE_DISABLE_NONESSENTIAL_TRAFFIC'', ''1''),
           (''DISABLE_AUTOUPDATER'', ''1''),
           (''ENABLE_CLAUDEAI_MCP_SERVERS'', ''false'')]
      | _ \<Rightarrow> [])"

definition for_harness :: "headless_harness \<Rightarrow> harness_profile" where
  "for_harness h =
     (let (required, defaults) =
        (case h of
           headless_harness.Claude \<Rightarrow> ([domain_group.Anthropic], [])
         | headless_harness.Codex \<Rightarrow> ([domain_group.OpenAi], [])
         | headless_harness.Pi \<Rightarrow> ([], MULTI_PROVIDER_GROUPS)
         | headless_harness.Omp \<Rightarrow> ([], MULTI_PROVIDER_GROUPS))
      in \<lparr>required_domain_groups = required, default_domain_groups = defaults,
          state_paths = PathGroup_sandbox_paths (harness_state_group h),
          environment = harness_environment h\<rparr>)"

subsection \<open>Network\<close>

record network_policy =
  np_groups :: "domain_group group_selection"
  np_allow :: "domain_rule list"
  np_localhost :: "bool option"

definition NetworkPolicy_default :: network_policy where
  "NetworkPolicy_default =
     \<lparr>np_groups = GroupSelection_default, np_allow = [], np_localhost = None\<rparr>"

definition NetworkPolicy_new ::
  "bool option \<Rightarrow> domain_group list \<Rightarrow> domain_group list \<Rightarrow> domain_rule list \<Rightarrow> bool option
   \<Rightarrow> network_policy" where
  [simp]: "NetworkPolicy_new defaults groups disable allow local =
     \<lparr>np_groups = GroupSelection_new defaults groups disable, np_allow = allow, np_localhost = local\<rparr>"

definition NetworkPolicy_merge :: "network_policy \<Rightarrow> network_policy \<Rightarrow> network_policy" where
  "NetworkPolicy_merge p q =
     \<lparr>np_groups = GroupSelection_merge (np_groups p) (np_groups q),
      np_allow = extend_list (np_allow p) (np_allow q),
      np_localhost = option_or (np_localhost q) (np_localhost p)\<rparr>"

definition localhost :: "network_policy \<Rightarrow> bool" where
  "localhost p = (case np_localhost p of Some b \<Rightarrow> b | None \<Rightarrow> False)"

definition allowed_domains :: "network_policy \<Rightarrow> harness_profile option \<Rightarrow> domain_rule list" where
  "allowed_domains p profile =
     (let defaults = (case profile of None \<Rightarrow> [] | Some h \<Rightarrow> default_domain_groups h);
          groups = selected (np_groups p) defaults;
          groups = (case profile of
                      None \<Rightarrow> groups
                    | Some h \<Rightarrow> btree_set (groups @ required_domain_groups h))
      in concat (map DomainGroup_rules groups) @ np_allow p)"

definition named_hosts :: "network_policy \<Rightarrow> (domain_group + domain_rule) set" where
  "named_hosts p = Inl ` set (gs_groups (np_groups p)) \<union> Inr ` set (np_allow p)"

interpretation network: layering NetworkPolicy_merge NetworkPolicy_default named_hosts
proof unfold_locales
  show "NetworkPolicy_merge (NetworkPolicy_merge p q) r
        = NetworkPolicy_merge p (NetworkPolicy_merge q r)" for p q r
    by (simp add: NetworkPolicy_merge_def GroupSelection_merge_assoc extend_assoc)
  show "NetworkPolicy_merge p NetworkPolicy_default = p" for p
    by (simp add: NetworkPolicy_merge_def NetworkPolicy_default_def GroupSelection_merge_default)
  show "named_hosts (NetworkPolicy_merge p q) = named_hosts p \<union> named_hosts q" for p q
    by (auto simp: named_hosts_def NetworkPolicy_merge_def GroupSelection_merge_def)
qed

lemma named_rule_allowed: "Inr r \<in> named_hosts p \<Longrightarrow> r \<in> set (allowed_domains p profile)"
  by (auto simp: named_hosts_def allowed_domains_def Let_def)

lemma named_group_allowed:
  "Inl g \<in> named_hosts p \<Longrightarrow> set (DomainGroup_rules g) \<subseteq> set (allowed_domains p profile)"
  by (auto simp: named_hosts_def allowed_domains_def Let_def set_selected split: option.splits)

lemma required_group_allowed:
  "g \<in> set (required_domain_groups h) \<Longrightarrow>
     set (DomainGroup_rules g) \<subseteq> set (allowed_domains p (Some h))"
  by (auto simp: allowed_domains_def Let_def)

subsection \<open>Filesystem\<close>

record filesystem_policy =
  fp_defaults :: "bool option"
  fp_read_deny :: "sandbox_path list"
  fp_write_allow :: "sandbox_path list"
  fp_write_deny :: "sandbox_path list"

definition DEFAULT_READ_DENY_GROUPS :: "path_group list" where
  "DEFAULT_READ_DENY_GROUPS =
     [path_group.Keys, path_group.Cloud, path_group.Logins, path_group.Tokens,
      path_group.History, path_group.Secrets]"

definition DEFAULT_WRITE_ALLOW_GROUPS :: "path_group list" where
  "DEFAULT_WRITE_ALLOW_GROUPS = [path_group.Workspace]"

definition DEFAULT_WRITE_DENY_GROUPS :: "path_group list" where
  "DEFAULT_WRITE_DENY_GROUPS =
     [path_group.Git, path_group.Ci, path_group.Editor, path_group.Toolchain,
      path_group.Harness, path_group.Artifacts]"

definition FilesystemPolicy_default :: filesystem_policy where
  "FilesystemPolicy_default =
     \<lparr>fp_defaults = None, fp_read_deny = [], fp_write_allow = [], fp_write_deny = []\<rparr>"

definition FilesystemPolicy_new ::
  "bool option \<Rightarrow> sandbox_path list \<Rightarrow> sandbox_path list \<Rightarrow> sandbox_path list \<Rightarrow> filesystem_policy" where
  [simp]: "FilesystemPolicy_new defaults denied_reads allowed_writes denied_writes =
     \<lparr>fp_defaults = defaults, fp_read_deny = denied_reads, fp_write_allow = allowed_writes,
      fp_write_deny = denied_writes\<rparr>"

definition FilesystemPolicy_merge ::
  "filesystem_policy \<Rightarrow> filesystem_policy \<Rightarrow> filesystem_policy" where
  "FilesystemPolicy_merge p q =
     \<lparr>fp_defaults = option_or (fp_defaults q) (fp_defaults p),
      fp_read_deny = extend_list (fp_read_deny p) (fp_read_deny q),
      fp_write_allow = extend_list (fp_write_allow p) (fp_write_allow q),
      fp_write_deny = extend_list (fp_write_deny p) (fp_write_deny q)\<rparr>"

definition fs_defaults :: "filesystem_policy \<Rightarrow> bool" where
  "fs_defaults p = (case fp_defaults p of Some b \<Rightarrow> b | None \<Rightarrow> True)"

definition with_defaults ::
  "filesystem_policy \<Rightarrow> path_group list \<Rightarrow> sandbox_path list \<Rightarrow> sandbox_path list" where
  "with_defaults p groups own =
     concat (map PathGroup_sandbox_paths (if fs_defaults p then groups else [])) @ own"

definition read_deny :: "filesystem_policy \<Rightarrow> sandbox_path list" where
  "read_deny p = with_defaults p DEFAULT_READ_DENY_GROUPS (fp_read_deny p)"

definition write_allow :: "filesystem_policy \<Rightarrow> harness_profile option \<Rightarrow> sandbox_path list" where
  "write_allow p profile =
     with_defaults p DEFAULT_WRITE_ALLOW_GROUPS (fp_write_allow p)
     @ (case profile of Some h \<Rightarrow> state_paths h | None \<Rightarrow> [])"

definition write_deny :: "filesystem_policy \<Rightarrow> sandbox_path list" where
  "write_deny p = with_defaults p DEFAULT_WRITE_DENY_GROUPS (fp_write_deny p)"

datatype path_rule =
  DenyRead sandbox_path | AllowWrite sandbox_path | DenyWrite sandbox_path

definition named_paths :: "filesystem_policy \<Rightarrow> path_rule set" where
  "named_paths p =
     DenyRead ` set (fp_read_deny p) \<union> AllowWrite ` set (fp_write_allow p)
     \<union> DenyWrite ` set (fp_write_deny p)"

interpretation filesystem: layering FilesystemPolicy_merge FilesystemPolicy_default named_paths
proof unfold_locales
  show "FilesystemPolicy_merge (FilesystemPolicy_merge p q) r
        = FilesystemPolicy_merge p (FilesystemPolicy_merge q r)" for p q r
    by (simp add: FilesystemPolicy_merge_def extend_assoc)
  show "FilesystemPolicy_merge p FilesystemPolicy_default = p" for p
    by (simp add: FilesystemPolicy_merge_def FilesystemPolicy_default_def)
  show "named_paths (FilesystemPolicy_merge p q) = named_paths p \<union> named_paths q" for p q
    by (auto simp: named_paths_def FilesystemPolicy_merge_def)
qed

lemma named_paths_apply:
  "DenyRead x \<in> named_paths p \<Longrightarrow> x \<in> set (read_deny p)"
  "AllowWrite x \<in> named_paths p \<Longrightarrow> x \<in> set (write_allow p profile)"
  "DenyWrite x \<in> named_paths p \<Longrightarrow> x \<in> set (write_deny p)"
  by (auto simp: named_paths_def read_deny_def write_allow_def write_deny_def with_defaults_def)

subsection \<open>Executables\<close>

record executable_policy =
  ep_groups :: "executable_group group_selection"
  ep_allow :: "sandbox_path list"

definition DEFAULT_EXECUTABLE_GROUPS :: "executable_group list" where
  "DEFAULT_EXECUTABLE_GROUPS =
     [executable_group.Coreutils, executable_group.Text, executable_group.Git,
      executable_group.Net]"

definition ExecutablePolicy_default :: executable_policy where
  "ExecutablePolicy_default = \<lparr>ep_groups = GroupSelection_default, ep_allow = []\<rparr>"

definition ExecutablePolicy_new ::
  "bool option \<Rightarrow> executable_group list \<Rightarrow> executable_group list \<Rightarrow> sandbox_path list
   \<Rightarrow> executable_policy" where
  [simp]: "ExecutablePolicy_new defaults groups disable allow =
     \<lparr>ep_groups = GroupSelection_new defaults groups disable, ep_allow = allow\<rparr>"

definition ExecutablePolicy_merge ::
  "executable_policy \<Rightarrow> executable_policy \<Rightarrow> executable_policy" where
  "ExecutablePolicy_merge p q =
     \<lparr>ep_groups = GroupSelection_merge (ep_groups p) (ep_groups q),
      ep_allow = extend_list (ep_allow p) (ep_allow q)\<rparr>"

definition executable_groups :: "executable_policy \<Rightarrow> executable_group list" where
  "executable_groups p = selected (ep_groups p) DEFAULT_EXECUTABLE_GROUPS"

definition named_programs :: "executable_policy \<Rightarrow> (executable_group + sandbox_path) set" where
  "named_programs p = Inl ` set (gs_groups (ep_groups p)) \<union> Inr ` set (ep_allow p)"

interpretation executables: layering
  ExecutablePolicy_merge ExecutablePolicy_default named_programs
proof unfold_locales
  show "ExecutablePolicy_merge (ExecutablePolicy_merge p q) r
        = ExecutablePolicy_merge p (ExecutablePolicy_merge q r)" for p q r
    by (simp add: ExecutablePolicy_merge_def GroupSelection_merge_assoc extend_assoc)
  show "ExecutablePolicy_merge p ExecutablePolicy_default = p" for p
    by (simp add: ExecutablePolicy_merge_def ExecutablePolicy_default_def
        GroupSelection_merge_default)
  show "named_programs (ExecutablePolicy_merge p q) = named_programs p \<union> named_programs q" for p q
    by (auto simp: named_programs_def ExecutablePolicy_merge_def GroupSelection_merge_def)
qed

lemma named_group_runs: "Inl g \<in> named_programs p \<Longrightarrow> g \<in> set (executable_groups p)"
  by (auto simp: named_programs_def executable_groups_def set_selected)

subsection \<open>The whole policy\<close>

record sandbox_policy =
  sp_network :: network_policy
  sp_filesystem :: filesystem_policy
  sp_executables :: "executable_policy option"

definition SandboxPolicy_default :: sandbox_policy where
  "SandboxPolicy_default =
     \<lparr>sp_network = NetworkPolicy_default, sp_filesystem = FilesystemPolicy_default,
      sp_executables = None\<rparr>"

definition SandboxPolicy_new ::
  "network_policy \<Rightarrow> filesystem_policy \<Rightarrow> executable_policy option \<Rightarrow> sandbox_policy" where
  [simp]: "SandboxPolicy_new network filesystem executables =
     \<lparr>sp_network = network, sp_filesystem = filesystem, sp_executables = executables\<rparr>"

definition SandboxPolicy_merge ::
  "sandbox_policy \<Rightarrow> network_policy option \<Rightarrow> filesystem_policy option \<Rightarrow>
   executable_policy option \<Rightarrow> sandbox_policy" where
  "SandboxPolicy_merge p network filesystem executables =
     \<lparr>sp_network = (case network of
                      Some n \<Rightarrow> NetworkPolicy_merge (sp_network p) n
                    | None \<Rightarrow> sp_network p),
      sp_filesystem = (case filesystem of
                         Some f \<Rightarrow> FilesystemPolicy_merge (sp_filesystem p) f
                       | None \<Rightarrow> sp_filesystem p),
      sp_executables = (case executables of
                          Some e \<Rightarrow>
                            Some (case sp_executables p of
                                    Some base \<Rightarrow> ExecutablePolicy_merge base e
                                  | None \<Rightarrow> e)
                        | None \<Rightarrow> sp_executables p)\<rparr>"

lemma SandboxPolicy_merge_None [simp]: "SandboxPolicy_merge p None None None = p"
  by (simp add: SandboxPolicy_merge_def)

lemma SandboxPolicy_merge_keeps:
  "named_hosts (sp_network p) \<subseteq> named_hosts (sp_network (SandboxPolicy_merge p n f e))"
  "named_paths (sp_filesystem p) \<subseteq> named_paths (sp_filesystem (SandboxPolicy_merge p n f e))"
  "sp_executables p = Some b \<Longrightarrow>
     \<exists>b'. sp_executables (SandboxPolicy_merge p n f e) = Some b' \<and> named_programs b \<subseteq> named_programs b'"
  by (auto simp: SandboxPolicy_merge_def network.named_merge filesystem.named_merge
      executables.named_merge split: option.splits)

end
