(* ===== verification/Task.thy ===== *)
theory Task
  imports Policy_Sections
begin

text \<open>
  \<open>beez-core/src/task.rs\<close>: task IDs, requests, and declared and resolved tasks. A \<open>TaskIndex\<close> is
  the position it wraps.
\<close>

subsection \<open>Task IDs\<close>

datatype task_id_error = EmptyTaskId | InvalidTaskIdCharacter string

primrec TaskIdError_text :: "task_id_error \<Rightarrow> string" where
  "TaskIdError_text EmptyTaskId = ''task ID must not be empty''"
| "TaskIdError_text (InvalidTaskIdCharacter c) =
     ''task ID contains invalid character '' @ debug_char c"

datatype task_id = TaskId (id_text: string)

definition task_id_char :: "char \<Rightarrow> bool" where
  "task_id_char c \<longleftrightarrow> ascii_alphanumeric c \<or> c = CHR ''_''"

definition TaskId_from_str :: "string \<Rightarrow> task_id_error + task_id" where
  "TaskId_from_str v =
     (if v = [] then Inl EmptyTaskId
      else case first_outside task_id_char v of
             Some c \<Rightarrow> Inl (InvalidTaskIdCharacter c)
           | None \<Rightarrow> Inr (TaskId v))"

definition task_id_valid :: "task_id \<Rightarrow> bool" where
  "task_id_valid i \<longleftrightarrow> id_text i \<noteq> [] \<and> list_all task_id_char (id_text i)"

lemma task_id_char_ascii: "task_id_char c \<Longrightarrow> byte c < 128"
  by (auto simp: task_id_char_def ascii_alphanumeric_def ascii_digit_def ascii_upper_def
      ascii_lower_def byte_def)

lemma TaskId_from_str_iff: "TaskId_from_str v = Inr i \<longleftrightarrow> id_text i = v \<and> task_id_valid i"
  using first_outside_None_iff [of task_id_char v] task_id_char_ascii
  by (cases i) (auto simp: TaskId_from_str_def task_id_valid_def split: option.splits)

lemma TaskId_from_str_Inl:
  "(\<exists>e. TaskId_from_str v = Inl e) \<longleftrightarrow> \<not> task_id_valid (TaskId v)"
  using TaskId_from_str_iff [of v "TaskId v"]
  by (cases "TaskId_from_str v") (auto dest: TaskId_from_str_iff [THEN iffD1])

interpretation task_ids: text_codec id_text TaskId_from_str task_id_valid
  by unfold_locales (simp add: TaskId_from_str_iff)

subsection \<open>Requests\<close>

datatype task_request =
    HarnessRequest headless_harness string harness_options
  | CommandRequest string "string list"

primrec texts :: "task_request \<Rightarrow> string list" where
  "texts (HarnessRequest harness prompt options) = [prompt]"
| "texts (CommandRequest program arguments) = arguments"

primrec try_map_texts :: "(string \<Rightarrow> 'e + string) \<Rightarrow> task_request \<Rightarrow> 'e + task_request" where
  "try_map_texts f (HarnessRequest harness prompt options) =
     and_then (f prompt) (\<lambda>prompt. Inr (HarnessRequest harness prompt options))"
| "try_map_texts f (CommandRequest program arguments) =
     and_then (traverse f arguments) (\<lambda>arguments. Inr (CommandRequest program arguments))"

lemma try_map_texts_texts:
  "map_err id (try_map_texts f r) = Inr r' \<Longrightarrow> traverse f (texts r) = Inr (texts r')"
  by (cases r) (auto simp: map_err_Inr_iff and_then_Inr_iff)

lemma try_map_texts_Inr_iff:
  "(\<exists>r'. try_map_texts f r = Inr r') \<longleftrightarrow> (\<forall>t\<in>set (texts r). \<exists>t'. f t = Inr t')"
proof (cases r)
  case (CommandRequest p as)
  have "(\<exists>ys. traverse f as = Inr ys) \<longleftrightarrow> (\<forall>t\<in>set as. \<exists>t'. f t = Inr t')"
    using traverse_all_Inr [of as f] by (auto dest: traverse_Inr_ex)
  with CommandRequest show ?thesis by (auto simp: and_then_Inr_iff)
qed (auto simp: and_then_Inr_iff)

lemma try_map_texts_Inl:
  "try_map_texts f r = Inl e \<Longrightarrow> \<exists>t\<in>set (texts r). f t = Inl e"
  by (cases r) (auto simp: and_then_Inl_iff dest: traverse_Inl_in)

subsection \<open>Tasks\<close>

record task_definition =
  td_id :: task_id
  td_depends_on :: "task_id list"
  td_request :: task_request
  td_sandbox :: "sandbox_policy option"

definition TaskDefinition_new :: "task_id \<Rightarrow> task_id list \<Rightarrow> task_request \<Rightarrow> task_definition" where
  "TaskDefinition_new i depends_on request =
     \<lparr>td_id = i, td_depends_on = depends_on, td_request = request, td_sandbox = None\<rparr>"

definition sandboxed :: "sandbox_policy option \<Rightarrow> task_definition \<Rightarrow> task_definition" where
  "sandboxed sandbox d = d\<lparr>td_sandbox := sandbox\<rparr>"

record task =
  t_id :: task_id
  t_dependencies :: "nat list"
  t_reads :: "nat list"
  t_request :: task_request
  t_sandbox :: "sandbox_policy option"

end
