(* ===== verification/Template.thy ===== *)
theory Template
  imports Task
begin

text \<open>
  \<open>beez-core/src/template.rs\<close>: texts that read the output of other tasks. \<open>parse_template\<close> is the
  loop of \<open>Template::parse\<close>; it ends because each turn drops a placeholder of at least four bytes.
  \<open>expand\<close> is the meaning of a template: the text with each reference replaced in place. The
  lemmas show that rendering the parsed segments is \<open>expand\<close>, and that what \<open>Display\<close> writes for a
  reference is read back as that reference.
\<close>

subsection \<open>References\<close>

datatype task_output = Stdout | Stderr

definition TaskOutput_ALL :: "task_output list" where
  "TaskOutput_ALL = [Stdout, Stderr]"

primrec TaskOutput_name :: "task_output \<Rightarrow> string" where
  "TaskOutput_name Stdout = ''stdout''"
| "TaskOutput_name Stderr = ''stderr''"

interpretation output_names: name_table TaskOutput_ALL TaskOutput_name
proof unfold_locales
  show "distinct (map TaskOutput_name TaskOutput_ALL)" by (simp add: TaskOutput_ALL_def)
  show "v \<in> set TaskOutput_ALL" for v by (cases v) (simp_all add: TaskOutput_ALL_def)
qed

record output_reference =
  or_task :: task_id
  or_output :: task_output

definition OutputReference_text :: "output_reference \<Rightarrow> string" where
  "OutputReference_text r =
     ''{{ tasks.'' @ id_text (or_task r) @ ''.'' @ TaskOutput_name (or_output r) @ '' }}''"

datatype template_error = TemplateError (placeholder: string)

definition TemplateError_text :: "template_error \<Rightarrow> string" where
  "TemplateError_text e =
     placeholder e
     @ '' is not a task output; write {{ tasks.<id>.stdout }} or {{ tasks.<id>.stderr }}''"

subsection \<open>Templates\<close>

datatype segment = TextSegment string | OutputSegment output_reference

type_synonym template = "segment list"

definition OPEN :: string where "OPEN = ''{{''"
definition CLOSE :: string where "CLOSE = ''}}''"
definition PREFIX :: string where "PREFIX = ''tasks.''"

definition push_text :: "segment list \<Rightarrow> string \<Rightarrow> segment list" where
  "push_text segments t =
     (if t = [] then segments
      else case rev segments of
             TextSegment l # front \<Rightarrow> rev front @ [TextSegment (l @ t)]
           | _ \<Rightarrow> segments @ [TextSegment t])"

definition next_placeholder :: "string \<Rightarrow> (string \<times> string \<times> string) option" where
  "next_placeholder t =
     (case find_sub OPEN t of
        None \<Rightarrow> None
      | Some start \<Rightarrow>
          let before = take start t; from_open = drop start t in
          (case find_sub CLOSE (drop (length OPEN) from_open) of
             None \<Rightarrow> None
           | Some c \<Rightarrow>
               let close = c + length OPEN in
               Some (before, take (close + length CLOSE) from_open,
                     drop (close + length CLOSE) from_open)))"

definition parse_reference :: "string \<Rightarrow> (template_error + output_reference) option" where
  "parse_reference p =
     (case strip_prefix OPEN p of None \<Rightarrow> None | Some inner \<Rightarrow>
      case strip_suffix CLOSE inner of None \<Rightarrow> None | Some inner \<Rightarrow>
      case strip_prefix PREFIX (trim inner) of None \<Rightarrow> None | Some path \<Rightarrow>
      let error = TemplateError p in
      case rsplit_once CHR ''.'' path of None \<Rightarrow> Some (Inl error) | Some (task, output) \<Rightarrow>
      case find (\<lambda>stream. TaskOutput_name stream = output) TaskOutput_ALL of
        None \<Rightarrow> Some (Inl error)
      | Some output \<Rightarrow>
          (case TaskId_from_str task of
             Inl _ \<Rightarrow> Some (Inl error)
           | Inr task \<Rightarrow> Some (Inr \<lparr>or_task = task, or_output = output\<rparr>)))"

lemma next_placeholder_split:
  assumes "next_placeholder t = Some (lit, ph, rest)"
  shows "t = lit @ ph @ rest \<and> (\<exists>inner. ph = OPEN @ inner @ CLOSE)"
proof -
  obtain start c where s: "find_sub OPEN t = Some start"
    and c: "find_sub CLOSE (drop (length OPEN) (drop start t)) = Some c"
    and lit: "lit = take start t"
    and ph: "ph = take (c + length OPEN + length CLOSE) (drop start t)"
    and rest: "rest = drop (c + length OPEN + length CLOSE) (drop start t)"
    using assms by (auto simp: next_placeholder_def Let_def split: option.splits)
  from find_sub_SomeD [OF s] obtain u where u: "drop start t = OPEN @ u"
    by (auto simp: prefix_def)
  then have "find_sub CLOSE u = Some c" using c by simp
  from find_sub_SomeD [OF this] obtain w where w: "drop c u = CLOSE @ w" and "c \<le> length u"
    by (auto simp: prefix_def)
  then have "u = take c u @ CLOSE @ w" by (metis append_take_drop_id)
  with \<open>c \<le> length u\<close> have "take (c + length CLOSE) u = take c u @ CLOSE"
    by (metis append.assoc append_eq_conv_conj length_append length_take min.absorb2)
  then have "ph = OPEN @ take c u @ CLOSE"
    using u by (simp add: ph add.commute [of c] add.assoc)
  moreover have "t = lit @ ph @ rest" by (simp only: lit ph rest append_take_drop_id)
  ultimately show ?thesis by blast
qed

lemma next_placeholder_shorter:
  "next_placeholder t = Some (lit, ph, rest) \<Longrightarrow> length rest < length t"
  by (auto dest!: next_placeholder_split simp: OPEN_def CLOSE_def)

function parse_loop :: "segment list \<Rightarrow> string \<Rightarrow> template_error + template" where
  "parse_loop segments rest =
     (case next_placeholder rest of
        None \<Rightarrow> Inr (push_text segments rest)
      | Some (literal, p, rest') \<Rightarrow>
          let segments = push_text segments literal in
          (case parse_reference p of
             Some (Inr reference) \<Rightarrow> parse_loop (segments @ [OutputSegment reference]) rest'
           | Some (Inl error) \<Rightarrow> Inl error
           | None \<Rightarrow> parse_loop (push_text segments p) rest'))"
  by pat_completeness auto
termination by (relation "measure (length \<circ> snd)") (auto dest: next_placeholder_shorter)

declare parse_loop.simps [simp del]

definition parse_template :: "string \<Rightarrow> template_error + template" where
  "parse_template t = parse_loop [] t"

definition references :: "template \<Rightarrow> output_reference list" where
  "references segments =
     List.map_filter (\<lambda>s. case s of OutputSegment r \<Rightarrow> Some r | TextSegment _ \<Rightarrow> None) segments"

primrec render_segments ::
  "(output_reference \<Rightarrow> string option) \<Rightarrow> segment list \<Rightarrow> string \<Rightarrow> output_reference + string" where
  "render_segments lookup [] rendered = Inr rendered"
| "render_segments lookup (s # segments) rendered =
     (case s of
        TextSegment t \<Rightarrow> render_segments lookup segments (rendered @ t)
      | OutputSegment r \<Rightarrow>
          (case lookup r of
             Some output \<Rightarrow> render_segments lookup segments (rendered @ output)
           | None \<Rightarrow> Inl r))"

definition render :: "(output_reference \<Rightarrow> string option) \<Rightarrow> template \<Rightarrow> output_reference + string" where
  "render lookup t = render_segments lookup t []"

subsection \<open>The meaning of a template\<close>

function expand :: "(output_reference \<Rightarrow> string) \<Rightarrow> string \<Rightarrow> string" where
  "expand out t =
     (case next_placeholder t of
        None \<Rightarrow> t
      | Some (literal, p, rest) \<Rightarrow>
          literal
          @ (case parse_reference p of Some (Inr r) \<Rightarrow> out r | _ \<Rightarrow> p)
          @ expand out rest)"
  by pat_completeness auto
termination by (relation "measure (length \<circ> snd)") (auto dest: next_placeholder_shorter)

declare expand.simps [simp del]

text \<open>The text of segments under total outputs.\<close>

definition fill :: "(output_reference \<Rightarrow> string) \<Rightarrow> template \<Rightarrow> string" where
  "fill out segments = concat (map (\<lambda>s. case s of TextSegment t \<Rightarrow> t | OutputSegment r \<Rightarrow> out r) segments)"

lemma fill_append [simp]: "fill out (s @ s') = fill out s @ fill out s'"
  by (simp add: fill_def)

lemma fill_output [simp]: "fill out [OutputSegment r] = out r"
  by (simp add: fill_def)

lemma fill_Nil [simp]: "fill out [] = []"
  by (simp add: fill_def)

lemma fill_push_text [simp]: "fill out (push_text s t) = fill out s @ t"
proof (cases s rule: rev_cases)
  case (snoc front l)
  then show ?thesis by (cases l) (auto simp: push_text_def fill_def)
qed (simp add: push_text_def fill_def)

lemma references_simps [simp]:
  "references [] = []"
  "references (TextSegment t # s) = references s"
  "references (OutputSegment r # s) = r # references s"
  by (simp_all add: references_def List.map_filter_def)

lemma references_append [simp]: "references (s @ s') = references s @ references s'"
  by (simp add: references_def List.map_filter_def)

lemma references_push_text [simp]: "references (push_text s t) = references s"
proof (cases s rule: rev_cases)
  case (snoc front l)
  then show ?thesis by (cases l) (auto simp: push_text_def)
qed (simp add: push_text_def)

lemma parse_loop_fill:
  "parse_loop segments t = Inr s \<Longrightarrow> fill out s = fill out segments @ expand out t"
proof (induction segments t rule: parse_loop.induct)
  case (1 segments rest)
  show ?case
  proof (cases "next_placeholder rest")
    case None
    with 1 show ?thesis by (auto simp: parse_loop.simps [of segments rest] expand.simps [of out rest])
  next
    case (Some x)
    obtain literal p rest' where x: "x = (literal, p, rest')" by (cases x)
    show ?thesis
    proof (cases "parse_reference p")
      case None
      with 1 Some x show ?thesis
        by (auto simp: parse_loop.simps [of segments rest] expand.simps [of out rest])
    next
      case (Some e)
      with 1 \<open>next_placeholder rest = Some x\<close> x show ?thesis
        by (cases e) (auto simp: parse_loop.simps [of segments rest] expand.simps [of out rest])
    qed
  qed
qed

lemma parse_template_fill: "parse_template t = Inr s \<Longrightarrow> fill out s = expand out t"
  using parse_loop_fill [of "[]" t s out] by (simp add: parse_template_def)

lemma render_segments_Inr_iff:
  "render_segments lookup s acc = Inr t \<longleftrightarrow>
     (\<forall>r\<in>set (references s). lookup r \<noteq> None) \<and> t = acc @ fill (\<lambda>r. the (lookup r)) s"
proof (induction s arbitrary: acc)
  case (Cons a s)
  then show ?case by (cases a) (auto simp: fill_def split: option.splits)
qed (auto simp: fill_def)

lemma render_Inr_iff:
  "render lookup s = Inr t \<longleftrightarrow>
     (\<forall>r\<in>set (references s). lookup r \<noteq> None) \<and> t = fill (\<lambda>r. the (lookup r)) s"
  by (simp add: render_def render_segments_Inr_iff)

lemma first_missing_Cons:
  assumes "ok q"
  shows "(\<exists>pre post. q # xs = pre @ r # post \<and> \<not> ok r \<and> (\<forall>x\<in>set pre. ok x))
         \<longleftrightarrow> (\<exists>pre post. xs = pre @ r # post \<and> \<not> ok r \<and> (\<forall>x\<in>set pre. ok x))"
    (is "?l \<longleftrightarrow> ?r")
proof
  assume ?l
  then obtain pre post
    where eq: "q # xs = pre @ r # post" and r: "\<not> ok r" and all: "\<forall>x\<in>set pre. ok x" by blast
  with assms obtain pre' where "pre = q # pre'" by (cases pre) auto
  with eq all r have "xs = pre' @ r # post \<and> \<not> ok r \<and> (\<forall>x\<in>set pre'. ok x)" by simp
  then show ?r by blast
next
  assume ?r
  then obtain pre post
    where "xs = pre @ r # post" and "\<not> ok r" and "\<forall>x\<in>set pre. ok x" by blast
  with assms have "q # xs = (q # pre) @ r # post \<and> \<not> ok r \<and> (\<forall>x\<in>set (q # pre). ok x)" by simp
  then show ?l by blast
qed

lemma render_segments_Inl:
  "render_segments lookup s acc = Inl r \<longleftrightarrow>
     (\<exists>pre post. references s = pre @ r # post \<and> \<not> lookup r \<noteq> None \<and> (\<forall>q\<in>set pre. lookup q \<noteq> None))"
proof (induction s arbitrary: acc)
  case (Cons a s)
  show ?case
  proof (cases a)
    case (OutputSegment q)
    show ?thesis
    proof (cases "lookup q")
      case None
      then show ?thesis using OutputSegment by (auto simp: Cons_eq_append_conv)
    next
      case (Some o')
      show ?thesis
        using OutputSegment Some Cons.IH [of "acc @ o'"]
          first_missing_Cons [where ok = "\<lambda>r. lookup r \<noteq> None" and q = q and r = r]
        by simp
    qed
  qed (use Cons.IH in simp)
qed simp

lemma render_Inl_iff:
  "render lookup s = Inl r \<longleftrightarrow>
     (\<exists>pre post. references s = pre @ r # post \<and> lookup r = None \<and> (\<forall>q\<in>set pre. lookup q \<noteq> None))"
  by (simp add: render_def render_segments_Inl)

text \<open>A text that reads no output renders to itself.\<close>

lemma parse_loop_references:
  "parse_loop segments t = Inr s \<Longrightarrow> \<exists>rs. references s = references segments @ rs"
proof (induction segments t rule: parse_loop.induct)
  case (1 segments rest)
  show ?case
  proof (cases "next_placeholder rest")
    case None
    with 1 show ?thesis by (auto simp: parse_loop.simps [of segments rest])
  next
    case (Some x)
    obtain literal p rest' where x: "x = (literal, p, rest')" by (cases x)
    show ?thesis
    proof (cases "parse_reference p")
      case None
      with 1 Some x show ?thesis by (simp add: parse_loop.simps [of segments rest])
    next
      case (Some e)
      show ?thesis
      proof (cases e)
        case (Inl err)
        with 1 Some \<open>next_placeholder rest = Some x\<close> x show ?thesis
          by (simp add: parse_loop.simps [of segments rest])
      next
        case (Inr r)
        with 1 Some \<open>next_placeholder rest = Some x\<close> x
        have "\<exists>rs. references s = references (push_text segments literal @ [OutputSegment r]) @ rs"
          by (simp add: parse_loop.simps [of segments rest])
        then show ?thesis by auto
      qed
    qed
  qed
qed

lemma expand_literal:
  "parse_loop segments t = Inr s \<Longrightarrow> references s = references segments \<Longrightarrow> expand out t = t"
proof (induction segments t arbitrary: s rule: parse_loop.induct)
  case (1 segments rest)
  show ?case
  proof (cases "next_placeholder rest")
    case None
    then show ?thesis by (simp add: expand.simps [of out rest])
  next
    case (Some x)
    obtain literal p rest' where x: "x = (literal, p, rest')" by (cases x)
    have split: "rest = literal @ p @ rest'"
      using next_placeholder_split [of rest literal p rest'] Some x by simp
    show ?thesis
    proof (cases "parse_reference p")
      case None
      then have "parse_loop (push_text (push_text segments literal) p) rest' = Inr s"
        using 1(3) Some x by (simp add: parse_loop.simps [of segments rest])
      then have "expand out rest' = rest'"
        using 1 \<open>next_placeholder rest = Some x\<close> x None by auto
      moreover have "expand out rest = literal @ p @ expand out rest'"
        using \<open>next_placeholder rest = Some x\<close> x None by (simp add: expand.simps [of out rest])
      ultimately show ?thesis using split by simp
    next
      case (Some e)
      show ?thesis
      proof (cases e)
        case (Inl err)
        with 1(3) Some \<open>next_placeholder rest = Some x\<close> x show ?thesis
          by (simp add: parse_loop.simps [of segments rest])
      next
        case (Inr r)
        with 1(3) Some \<open>next_placeholder rest = Some x\<close> x
        have "parse_loop (push_text segments literal @ [OutputSegment r]) rest' = Inr s"
          by (simp add: parse_loop.simps [of segments rest])
        from parse_loop_references [OF this] 1(4) show ?thesis by simp
      qed
    qed
  qed
qed

subsection \<open>References read back\<close>

lemma find_sub_skip:
  "c \<notin> set s \<Longrightarrow> p = c # p' \<Longrightarrow> find_sub p (s @ p @ t) = Some (length s)"
proof (induction s)
  case Nil
  then show ?case by (cases t) simp_all
next
  case (Cons x s)
  then show ?case by auto
qed

lemma trim_spaces:
  assumes "is_ascii s" and "s \<noteq> []" and "\<not> is_whitespace [hd s]" and "\<not> is_whitespace [last s]"
  shows "trim ('' '' @ s @ '' '') = s"
proof -
  have ascii: "is_ascii ('' '' @ s @ '' '')" using assms(1) by (simp add: is_ascii_def byte_def)
  have sp: "is_whitespace '' ''" by (simp add: is_whitespace_ascii byte_def)
  obtain a s' where s: "s = a # s'" using assms(2) by (cases s) auto
  obtain z b where z: "s = z @ [b]" using assms(2) by (metis rev_exhaust)
  have "dropWhile is_whitespace (map (\<lambda>c. [c]) ('' '' @ s @ '' '')) = map (\<lambda>c. [c]) (s @ '' '')"
    using assms(3) sp by (simp add: s)
  moreover have "dropWhile is_whitespace (rev (map (\<lambda>c. [c]) (s @ '' ''))) = rev (map (\<lambda>c. [c]) s)"
    using assms(4) sp by (simp add: z)
  ultimately have "trim ('' '' @ s @ '' '') = concat (map (\<lambda>c. [c]) s)"
    by (simp only: trim_def chars_ascii [OF ascii] rev_rev_ident)
  then show ?thesis by simp
qed

definition reference_body :: "output_reference \<Rightarrow> string" where
  "reference_body r = ''tasks.'' @ id_text (or_task r) @ ''.'' @ TaskOutput_name (or_output r)"

lemma OutputReference_text_body: "OutputReference_text r = OPEN @ ('' '' @ reference_body r @ '' '') @ CLOSE"
  by (simp add: OutputReference_text_def reference_body_def OPEN_def CLOSE_def)

lemma task_id_char_not [simp]:
  "\<not> task_id_char CHR ''}''" "\<not> task_id_char CHR ''.''" "\<not> task_id_char CHR ''{''" "\<not> task_id_char CHR '' ''"
  by (simp_all add: task_id_char_def ascii_alphanumeric_def ascii_digit_def ascii_upper_def
      ascii_lower_def byte_def)

lemma TaskOutput_name_chars:
  "is_ascii (TaskOutput_name o')" "CHR ''.'' \<notin> set (TaskOutput_name o')"
  "CHR ''}'' \<notin> set (TaskOutput_name o')" "TaskOutput_name o' \<noteq> []"
  "\<not> is_whitespace [last (TaskOutput_name o')]"
  by (cases o'; simp add: is_ascii_def byte_def is_whitespace_ascii)+

lemma reference_body_trim:
  assumes "task_id_valid (or_task r)"
  shows "trim ('' '' @ reference_body r @ '' '') = reference_body r"
proof (rule trim_spaces)
  have "is_ascii (id_text (or_task r))"
    using assms task_id_char_ascii by (auto simp: task_id_valid_def is_ascii_def list_all_iff)
  then show "is_ascii (reference_body r)"
    using TaskOutput_name_chars(1) [of "or_output r"]
    by (simp add: reference_body_def is_ascii_def byte_def)
  show "\<not> is_whitespace [last (reference_body r)]"
    using TaskOutput_name_chars(4,5) [of "or_output r"] by (simp add: reference_body_def)
qed (simp_all add: reference_body_def is_whitespace_ascii byte_def)

lemma parse_reference_text:
  assumes valid: "task_id_valid (or_task r)"
  shows "parse_reference (OutputReference_text r) = Some (Inr r)"
proof -
  have open': "strip_prefix OPEN (OutputReference_text r)
      = Some (('' '' @ reference_body r @ '' '') @ CLOSE)"
    unfolding OutputReference_text_body by (rule strip_prefix_append)
  have close: "strip_suffix CLOSE (('' '' @ reference_body r @ '' '') @ CLOSE)
      = Some ('' '' @ reference_body r @ '' '')"
    by (rule strip_suffix_append)
  have path: "strip_prefix PREFIX (reference_body r)
      = Some (id_text (or_task r) @ ''.'' @ TaskOutput_name (or_output r))"
    unfolding reference_body_def PREFIX_def by (rule strip_prefix_append)
  have split: "rsplit_once CHR ''.'' (id_text (or_task r) @ ''.'' @ TaskOutput_name (or_output r))
      = Some (id_text (or_task r), TaskOutput_name (or_output r))"
    using TaskOutput_name_chars(2) by (simp add: rsplit_once_Some_iff)
  have stream: "find (\<lambda>s. TaskOutput_name s = TaskOutput_name (or_output r)) TaskOutput_ALL
      = Some (or_output r)"
    using output_names.from_name_iff [of "TaskOutput_name (or_output r)" "or_output r"]
    by (simp add: from_name_def)
  have task: "TaskId_from_str (id_text (or_task r)) = Inr (or_task r)"
    using valid by (rule task_ids.parse_emit)
  show ?thesis
    unfolding parse_reference_def open' option.case close reference_body_trim [OF valid] path
      Let_def split prod.case stream task sum.case
    by simp
qed

lemma next_placeholder_text:
  assumes valid: "task_id_valid (or_task r)"
  shows "next_placeholder (OutputReference_text r @ t) = Some ([], OutputReference_text r, t)"
proof -
  define inner where "inner = '' '' @ reference_body r @ '' ''"
  have "CHR ''}'' \<notin> set (id_text (or_task r))"
    using valid by (auto simp: task_id_valid_def list_all_iff)
  then have "CHR ''}'' \<notin> set inner"
    using TaskOutput_name_chars(3) [of "or_output r"] by (simp add: inner_def reference_body_def)
  then have close: "find_sub CLOSE (inner @ CLOSE @ t) = Some (length inner)"
    by (rule find_sub_skip) (simp add: CLOSE_def)
  have body: "OutputReference_text r @ t = OPEN @ inner @ CLOSE @ t"
    by (simp add: OutputReference_text_body inner_def)
  have open': "find_sub OPEN (OPEN @ inner @ CLOSE @ t) = Some 0"
    by (simp add: OPEN_def)
  have "next_placeholder (OPEN @ inner @ CLOSE @ t) = Some ([], OPEN @ inner @ CLOSE, t)"
    unfolding next_placeholder_def open' option.case Let_def
    using close by (simp add: OPEN_def CLOSE_def)
  then show ?thesis
    unfolding body by (simp add: OutputReference_text_body inner_def)
qed

lemma parse_template_reference:
  assumes "task_id_valid (or_task r)"
  shows "parse_template (OutputReference_text r) = Inr [OutputSegment r]"
proof -
  have "next_placeholder (OutputReference_text r) = Some ([], OutputReference_text r, [])"
    using next_placeholder_text [OF assms, of "[]"] by simp
  moreover have "next_placeholder [] = None" by (simp add: next_placeholder_def OPEN_def)
  ultimately show ?thesis
    using parse_reference_text [OF assms]
    by (simp add: parse_template_def parse_loop.simps push_text_def)
qed

text \<open>A reference parses back from its text, so a message that quotes one can be pasted into a prompt.\<close>

interpretation references: text_codec OutputReference_text
  "\<lambda>s. case parse_reference s of Some r \<Rightarrow> r | None \<Rightarrow> Inl (TemplateError s)"
  "\<lambda>r. task_id_valid (or_task r)"
  by unfold_locales (simp add: parse_reference_text)

lemma parse_reference_valid:
  "parse_reference p = Some (Inr r) \<Longrightarrow> task_id_valid (or_task r)"
  by (auto simp: parse_reference_def Let_def TaskId_from_str_iff
      split: option.splits prod.splits sum.splits)

lemma parse_reference_error: "parse_reference p = Some (Inl e) \<Longrightarrow> placeholder e = p"
  by (auto simp: parse_reference_def Let_def split: option.splits prod.splits sum.splits)

subsection \<open>Properties\<close>

text \<open>C4. Rendering a parsed template succeeds exactly when every reference has an output, and then
  gives the text with each reference replaced in place and everything else kept byte for byte.\<close>

theorem render_is_expand:
  assumes "parse_template t = Inr s"
  shows "render lookup s = Inr u \<longleftrightarrow>
     (\<forall>r\<in>set (references s). lookup r \<noteq> None) \<and> u = expand (\<lambda>r. the (lookup r)) t"
  by (simp add: render_Inr_iff parse_template_fill [OF assms])

theorem render_is_expand_witness:
  "render (\<lambda>r. if or_output r = Stdout then Some ''ok'' else None)
     [TextSegment ''a {{ b }} '', OutputSegment \<lparr>or_task = TaskId ''x'', or_output = Stdout\<rparr>]
   = Inr ''a {{ b }} ok''"
proof -
  have "parse_template ''a {{ b }} {{tasks.x.stdout}}'' =
      Inr [TextSegment ''a {{ b }} '', OutputSegment \<lparr>or_task = TaskId ''x'', or_output = Stdout\<rparr>]"
    by code_simp
  moreover have "expand (\<lambda>r. ''ok'') ''a {{ b }} {{tasks.x.stdout}}'' = ''a {{ b }} ok''"
    by code_simp
  ultimately show ?thesis
    using render_is_expand [of "''a {{ b }} {{tasks.x.stdout}}''"
        "[TextSegment ''a {{ b }} '', OutputSegment \<lparr>or_task = TaskId ''x'', or_output = Stdout\<rparr>]"
        "\<lambda>r. if or_output r = Stdout then Some ''ok'' else None" "''a {{ b }} ok''"]
      render_Inr_iff [of "\<lambda>r. if or_output r = Stdout then Some ''ok'' else None"
        "[TextSegment ''a {{ b }} '', OutputSegment \<lparr>or_task = TaskId ''x'', or_output = Stdout\<rparr>]"
        "''a {{ b }} ok''"]
    by (simp add: fill_def)
qed

text \<open>The text \<open>Display\<close> prints for a reference parses to a template of just that reference.\<close>

theorem reference_text_parses:
  assumes "task_id_valid (or_task r)"
  shows "parse_template (OutputReference_text r) = Inr [OutputSegment r]"
  by (rule parse_template_reference [OF assms])

theorem reference_text_parses_witness:
  "parse_template ''{{ tasks.Build_42.stderr }}''
   = Inr [OutputSegment \<lparr>or_task = TaskId ''Build_42'', or_output = Stderr\<rparr>]"
  using reference_text_parses [of "\<lparr>or_task = TaskId ''Build_42'', or_output = Stderr\<rparr>"]
  by (simp add: OutputReference_text_def task_id_valid_def task_id_char_def ascii_alphanumeric_def
      ascii_digit_def ascii_upper_def ascii_lower_def byte_def)

end
