(* ===== verification/Acyclic.thy ===== *)
theory Acyclic
  imports Template
begin

text \<open>
  The cycle check of \<open>beez-core/src/workflow.rs\<close>: \<open>validate_acyclic\<close> and \<open>visit\<close>, a depth-first
  search with three colours and a trail.

  \<open>visit\<close> and the loop over the dependencies are nested recursion: the loop goes on with the states
  a call returned. The recursion ends because a call never turns a seen task back into an unseen one,
  which is proved about the partial function first. The invariant \<open>search_inv\<close> then gives both
  directions: the check passes exactly on acyclic graphs, and what it reports is a cycle.
\<close>

subsection \<open>The search\<close>

datatype visit = Unseen | Visiting | Complete

type_synonym search = "visit list \<times> nat list"

function visit_task :: "nat list list \<Rightarrow> nat \<Rightarrow> search \<Rightarrow> nat list + search"
  and visit_each :: "nat list list \<Rightarrow> nat list \<Rightarrow> search \<Rightarrow> nat list + search" where
  "visit_task deps i st =
     (case (case get_at (fst st) i of Some v \<Rightarrow> v | None \<Rightarrow> Complete) of
        Complete \<Rightarrow> Inr st
      | Visiting \<Rightarrow>
          Inl (drop (case find_position (\<lambda>t. t = i) (snd st) of Some s \<Rightarrow> s | None \<Rightarrow> 0) (snd st) @ [i])
      | Unseen \<Rightarrow>
          and_then
            (visit_each deps (case get_at deps i of Some ds \<Rightarrow> ds | None \<Rightarrow> [])
               ((fst st)[i := Visiting], snd st @ [i]))
            (\<lambda>st. Inr ((fst st)[i := Complete], butlast (snd st))))"
| "visit_each deps [] st = Inr st"
| "visit_each deps (d # ds) st = and_then (visit_task deps d st) (\<lambda>st. visit_each deps ds st)"
  by pat_completeness auto

definition unseen :: "visit list \<Rightarrow> nat" where
  "unseen states = length (filter (\<lambda>v. v = Unseen) states)"

lemma unseen_update_le: "v \<noteq> Unseen \<Longrightarrow> unseen (states[i := v]) \<le> unseen states"
  by (induction states arbitrary: i) (auto simp: unseen_def split: nat.splits)

lemma unseen_update_less:
  "v \<noteq> Unseen \<Longrightarrow> i < length states \<Longrightarrow> states ! i = Unseen \<Longrightarrow> unseen (states[i := v]) < unseen states"
proof (induction states arbitrary: i)
  case (Cons a states)
  then show ?case by (cases i) (auto simp: unseen_def)
qed simp

lemma visit_unseen:
  "visit_task_visit_each_dom (Inl (deps, i, st)) \<Longrightarrow>
     \<forall>states trail. visit_task deps i st = Inr (states, trail) \<longrightarrow> unseen states \<le> unseen (fst st)"
  "visit_task_visit_each_dom (Inr (deps, ds, st)) \<Longrightarrow>
     \<forall>states trail. visit_each deps ds st = Inr (states, trail) \<longrightarrow> unseen states \<le> unseen (fst st)"
proof (induction deps i st and deps ds st rule: visit_task_visit_each.pinduct)
  case (1 deps i st)
  show ?case
  proof (clarsimp)
    fix states trail
    assume ok: "visit_task deps i st = Inr (states, trail)"
    show "unseen states \<le> unseen (fst st)"
    proof (cases "case get_at (fst st) i of Some v \<Rightarrow> v | None \<Rightarrow> Complete")
      case Unseen
      let ?ds = "case get_at deps i of Some ds \<Rightarrow> ds | None \<Rightarrow> []"
      let ?st = "((fst st)[i := Visiting], snd st @ [i])"
      from ok Unseen obtain st' where each: "visit_each deps ?ds ?st = Inr st'"
        and states: "states = (fst st')[i := Complete]"
        by (auto simp: visit_task.psimps [OF 1(1)] and_then_Inr_iff)
      from 1(2) [OF Unseen] each have "unseen (fst st') \<le> unseen (fst ?st)" by (cases st') simp
      also have "\<dots> \<le> unseen (fst st)" by (simp add: unseen_update_le)
      finally have "unseen (fst st') \<le> unseen (fst st)" .
      moreover have "unseen states \<le> unseen (fst st')" by (simp add: states unseen_update_le)
      ultimately show ?thesis by simp
    next
      case Visiting
      with ok show ?thesis by (simp add: visit_task.psimps [OF 1(1)])
    next
      case Complete
      with ok show ?thesis by (simp add: visit_task.psimps [OF 1(1)])
    qed
  qed
next
  case (2 deps st)
  then show ?case by (simp add: visit_each.psimps)
next
  case (3 deps d ds st)
  show ?case
  proof (clarsimp)
    fix states trail
    assume "visit_each deps (d # ds) st = Inr (states, trail)"
    then obtain st' where one: "visit_task deps d st = Inr st'"
      and rest: "visit_each deps ds st' = Inr (states, trail)"
      by (auto simp: visit_each.psimps(2) [OF 3(1)] and_then_Inr_iff)
    from 3(2) one have "unseen (fst st') \<le> unseen (fst st)" by (cases st') simp
    moreover from 3(3) [OF one] rest have "unseen states \<le> unseen (fst st')" by simp
    ultimately show "unseen states \<le> unseen (fst st)" by simp
  qed
qed

termination visit_task
proof (relation "measures
    [\<lambda>x. case x of Inl (deps, i, st) \<Rightarrow> unseen (fst st) | Inr (deps, ds, st) \<Rightarrow> unseen (fst st),
     \<lambda>x. case x of Inl _ \<Rightarrow> 0 | Inr (deps, ds, st) \<Rightarrow> Suc (length ds)]")
  fix deps d ds and st x :: search
  assume dom: "visit_task_visit_each_dom (Inl (deps, d, st))" and "visit_task deps d st = Inr x"
  with visit_unseen(1) [OF dom] have "unseen (fst x) \<le> unseen (fst st)" by (cases x) simp
  then show "(Inr (deps, ds, x), Inr (deps, d # ds, st)) \<in> measures
    [\<lambda>x. case x of Inl (deps, i, st) \<Rightarrow> unseen (fst st) | Inr (deps, ds, st) \<Rightarrow> unseen (fst st),
     \<lambda>x. case x of Inl _ \<Rightarrow> 0 | Inr (deps, ds, st) \<Rightarrow> Suc (length ds)]"
    by auto
qed (auto split: option.splits intro: unseen_update_less)

declare visit_task.simps [simp del]

text \<open>The loop of \<open>validate_acyclic\<close> over every position is the loop over dependencies.\<close>

definition validate_acyclic :: "nat list list \<Rightarrow> nat list + unit" where
  "validate_acyclic deps =
     and_then
       (visit_each deps [0..<length deps] (replicate (length deps) Unseen, []))
       (\<lambda>_. Inr ())"

subsection \<open>The graph\<close>

definition edges :: "nat list list \<Rightarrow> (nat \<times> nat) set" where
  "edges deps = {(i, d). i < length deps \<and> d < length deps \<and> d \<in> set (deps ! i)}"

text \<open>A cycle as the code reports it: a walk along the edges that ends where it starts.\<close>

fun walk :: "('a \<times> 'a) set \<Rightarrow> 'a list \<Rightarrow> bool" where
  "walk E (a # b # cs) \<longleftrightarrow> (a, b) \<in> E \<and> walk E (b # cs)"
| "walk E _ \<longleftrightarrow> True"

definition cycle_of :: "nat list list \<Rightarrow> nat list \<Rightarrow> bool" where
  "cycle_of deps c \<longleftrightarrow> 2 \<le> length c \<and> hd c = last c \<and> walk (edges deps) c"

lemma walk_append: "walk E (xs @ y # ys) \<longleftrightarrow> walk E (xs @ [y]) \<and> walk E (y # ys)"
  by (induction E xs rule: walk.induct) auto

lemma walk_snoc: "xs \<noteq> [] \<Longrightarrow> walk E (xs @ [y]) \<longleftrightarrow> walk E xs \<and> (last xs, y) \<in> E"
  by (induction E xs rule: walk.induct) auto

lemma walk_drop: "walk E xs \<Longrightarrow> walk E (drop k xs)"
proof (induction k arbitrary: xs)
  case (Suc k)
  then show ?case by (cases "(E, xs)" rule: walk.cases) auto
qed simp

lemma walk_trancl: "walk E (a # xs) \<Longrightarrow> xs \<noteq> [] \<Longrightarrow> (a, last xs) \<in> E\<^sup>+"
proof (induction xs arbitrary: a)
  case (Cons b xs)
  then show ?case by (cases "xs = []") (auto intro: trancl_into_trancl2)
qed simp

lemma cycle_not_acyclic: "cycle_of deps c \<Longrightarrow> \<not> acyclic (edges deps)"
proof -
  assume c: "cycle_of deps c"
  then obtain a xs where xs: "c = a # xs" "xs \<noteq> []"
    by (cases c; cases "tl c") (auto simp: cycle_of_def)
  with c have "(a, last xs) \<in> (edges deps)\<^sup>+" and "a = last xs"
    by (auto simp: cycle_of_def intro: walk_trancl)
  then show ?thesis by (auto simp: acyclic_def)
qed

lemma trancl_in_graph: "(a, b) \<in> (edges deps)\<^sup>+ \<Longrightarrow> a < length deps \<and> b < length deps"
  by (induction rule: trancl_induct) (auto simp: edges_def)

subsection \<open>The invariant of the search\<close>

definition complete :: "visit list \<Rightarrow> nat set" where
  "complete states = {i. i < length states \<and> states ! i = Complete}"

lemma complete_completed:
  "i < length states \<Longrightarrow> complete (states[i := Complete]) = insert i (complete states)"
  by (auto simp: complete_def nth_list_update)

lemma complete_visiting:
  "i < length states \<Longrightarrow> states ! i \<noteq> Complete \<Longrightarrow> complete (states[i := Visiting]) = complete states"
  by (auto simp: complete_def nth_list_update)

definition search_inv :: "nat list list \<Rightarrow> search \<Rightarrow> bool" where
  "search_inv deps st \<longleftrightarrow>
     length (fst st) = length deps
     \<and> set (snd st) = {i. i < length deps \<and> fst st ! i = Visiting}
     \<and> distinct (snd st)
     \<and> walk (edges deps) (snd st)
     \<and> (\<forall>i\<in>complete (fst st). \<forall>d. (i, d) \<in> edges deps \<longrightarrow> d \<in> complete (fst st))
     \<and> (\<forall>i\<in>complete (fst st). (i, i) \<notin> (edges deps)\<^sup>+)"

text \<open>The task at the end of the trail depends on every task of \<open>ds\<close>.\<close>

definition reaches :: "nat list list \<Rightarrow> search \<Rightarrow> nat list \<Rightarrow> bool" where
  "reaches deps st ds \<longleftrightarrow>
     snd st \<noteq> [] \<longrightarrow> (\<forall>d\<in>set ds. d < length deps \<longrightarrow> (last (snd st), d) \<in> edges deps)"

lemma closed_trancl:
  assumes "(a, b) \<in> E\<^sup>+" and "\<forall>i\<in>C. \<forall>d. (i, d) \<in> E \<longrightarrow> d \<in> C" and "a \<in> C"
  shows "b \<in> C"
  using assms by (induction rule: trancl_induct) auto

lemma visiting_cycle:
  assumes inv: "search_inv deps st" and on: "reaches deps st [i]"
    and i: "i < length deps" "fst st ! i = Visiting"
  shows "cycle_of deps
    (drop (case find_position (\<lambda>t. t = i) (snd st) of Some s \<Rightarrow> s | None \<Rightarrow> 0) (snd st) @ [i])"
proof -
  have "i \<in> set (snd st)" using inv i by (auto simp: search_inv_def)
  then obtain s where s: "find_position (\<lambda>t. t = i) (snd st) = Some s"
    by (cases "find_position (\<lambda>t. t = i) (snd st)") auto
  then have len: "s < length (snd st)" and at: "snd st ! s = i"
    by (auto dest: find_position_SomeD)
  let ?c = "drop s (snd st)"
  have ne: "?c \<noteq> []" using len by simp
  have "hd ?c = i" using len at by (simp add: hd_drop_conv_nth)
  moreover have "walk (edges deps) ?c" using inv by (auto simp: search_inv_def intro: walk_drop)
  moreover have "(last ?c, i) \<in> edges deps"
    using on i(1) len by (auto simp: reaches_def)
  ultimately have "hd (?c @ [i]) = i" "walk (edges deps) (?c @ [i])" "2 \<le> length (?c @ [i])"
    using ne len by (simp_all add: walk_snoc)
  then show ?thesis by (simp add: s cycle_of_def)
qed

lemma enter_inv:
  assumes inv: "search_inv deps st" and on: "reaches deps st [i]"
    and i: "i < length deps" "fst st ! i = Unseen"
  shows "search_inv deps ((fst st)[i := Visiting], snd st @ [i])"
proof -
  have len: "length (fst st) = length deps" using inv by (simp add: search_inv_def)
  have out: "i \<notin> set (snd st)" using inv i by (simp add: search_inv_def)
  have same: "complete ((fst st)[i := Visiting]) = complete (fst st)"
    using i len by (simp add: complete_visiting)
  have walk: "walk (edges deps) (snd st @ [i])"
    using inv on i(1) by (cases "snd st = []") (auto simp: walk_snoc search_inv_def reaches_def)
  have trail: "set (snd st @ [i]) = {j. j < length deps \<and> (fst st)[i := Visiting] ! j = Visiting}"
    using inv i len by (auto simp: search_inv_def nth_list_update)
  show ?thesis
    using inv same walk trail out len by (simp add: search_inv_def)
qed

lemma leave_inv:
  assumes inv: "search_inv deps (states, trail @ [i])"
    and finished: "\<forall>d. (i, d) \<in> edges deps \<longrightarrow> d \<in> complete states"
  shows "search_inv deps (states[i := Complete], trail)"
proof -
  have len: "length states = length deps" and i: "i < length deps" "states ! i = Visiting"
    and out: "i \<notin> set trail"
    using inv by (auto simp: search_inv_def)
  have comp: "complete (states[i := Complete]) = insert i (complete states)"
    using i len by (simp add: complete_completed)
  have trail: "set trail = {j. j < length deps \<and> states[i := Complete] ! j = Visiting}"
    using inv i len out by (auto simp: search_inv_def nth_list_update)
  have closed: "\<forall>j\<in>complete states. \<forall>d. (j, d) \<in> edges deps \<longrightarrow> d \<in> complete states"
    using inv by (simp add: search_inv_def)
  have "(i, i) \<notin> (edges deps)\<^sup>+"
  proof
    assume "(i, i) \<in> (edges deps)\<^sup>+"
    then have "\<exists>d. (i, d) \<in> edges deps \<and> (d = i \<or> (d, i) \<in> (edges deps)\<^sup>+)"
      by (metis tranclD rtranclD)
    then obtain d where "d \<in> complete states" and "d = i \<or> (d, i) \<in> (edges deps)\<^sup>+"
      using finished by blast
    then have "i \<in> complete states" using closed_trancl [OF _ closed] by blast
    then show False using i by (simp add: complete_def)
  qed
  moreover have "walk (edges deps) trail"
    using inv by (cases "trail = []") (auto simp: search_inv_def walk_snoc)
  ultimately show ?thesis
    using inv comp trail len finished closed by (auto simp: search_inv_def)
qed

text \<open>What a successful call leaves behind, and what a failed one reports.\<close>

definition visited :: "nat list list \<Rightarrow> search \<Rightarrow> nat list \<Rightarrow> nat list + search \<Rightarrow> bool" where
  "visited deps st ds r \<longleftrightarrow>
     (case r of
        Inl c \<Rightarrow> cycle_of deps c
      | Inr st' \<Rightarrow>
          search_inv deps st' \<and> snd st' = snd st \<and> complete (fst st) \<subseteq> complete (fst st')
          \<and> (\<forall>d\<in>set ds. d < length deps \<longrightarrow> d \<in> complete (fst st')))"

lemma leave_visited:
  assumes "visited deps ((fst st)[i := Visiting], snd st @ [i]) (deps ! i) r"
    and "i < length deps" and "length (fst st) = length deps" and "fst st ! i \<noteq> Complete"
  shows "visited deps st [i] (and_then r (\<lambda>st. Inr ((fst st)[i := Complete], butlast (snd st))))"
proof (cases r)
  case (Inl c)
  with assms(1) show ?thesis by (simp add: visited_def)
next
  case (Inr st')
  have st': "search_inv deps (fst st', snd st @ [i])" "snd st' = snd st @ [i]"
    "complete (fst st) \<subseteq> complete (fst st')"
    and all: "\<forall>d\<in>set (deps ! i). d < length deps \<longrightarrow> d \<in> complete (fst st')"
    using assms Inr by (cases st'; auto simp: visited_def complete_visiting)+
  from all have "\<forall>d. (i, d) \<in> edges deps \<longrightarrow> d \<in> complete (fst st')" by (simp add: edges_def)
  then have "search_inv deps ((fst st')[i := Complete], snd st)" by (rule leave_inv [OF st'(1)])
  moreover have "complete ((fst st')[i := Complete]) = insert i (complete (fst st'))"
    using st'(1) assms(2) by (intro complete_completed) (simp add: search_inv_def)
  ultimately show ?thesis
    using st'(2,3) by (auto simp: visited_def Inr)
qed

lemma visit_correct:
  "search_inv deps st \<Longrightarrow> reaches deps st [i] \<Longrightarrow> visited deps st [i] (visit_task deps i st)"
  "search_inv deps st \<Longrightarrow> reaches deps st ds \<Longrightarrow> visited deps st ds (visit_each deps ds st)"
proof (induction deps i st and deps ds st rule: visit_task_visit_each.induct)
  case (1 deps i st)
  have len: "length (fst st) = length deps" using 1 by (simp add: search_inv_def)
  show ?case
  proof (cases "case get_at (fst st) i of Some v \<Rightarrow> v | None \<Rightarrow> Complete")
    case Complete
    then have "i < length deps \<Longrightarrow> i \<in> complete (fst st)" using len by (simp add: complete_def)
    then show ?thesis using Complete 1 by (simp add: visit_task.simps visited_def)
  next
    case Visiting
    then have i: "i < length deps" "fst st ! i = Visiting" using len
      by (auto simp: get_at_def split: if_splits)
    show ?thesis
      using Visiting visiting_cycle [OF 1(2,3) i] by (simp add: visit_task.simps visited_def)
  next
    case Unseen
    then have i: "i < length deps" "fst st ! i = Unseen" using len
      by (auto simp: get_at_def split: if_splits)
    let ?st = "((fst st)[i := Visiting], snd st @ [i])"
    have "visited deps ?st (deps ! i) (visit_each deps (deps ! i) ?st)"
      using 1(1) [OF Unseen] enter_inv [OF 1(2,3) i] i(1)
      by (simp add: reaches_def edges_def)
    moreover have "visit_task deps i st = and_then (visit_each deps (deps ! i) ?st)
        (\<lambda>st. Inr ((fst st)[i := Complete], butlast (snd st)))"
      using Unseen i(1) by (simp add: visit_task.simps)
    moreover have "fst st ! i \<noteq> Complete" using i by simp
    ultimately show ?thesis
      using leave_visited [of deps st i] i len by simp
  qed
next
  case (2 deps st)
  then show ?case by (simp add: visited_def)
next
  case (3 deps d ds st)
  have one: "visited deps st [d] (visit_task deps d st)"
    using 3(1) 3(3,4) by (simp add: reaches_def)
  show ?case
  proof (cases "visit_task deps d st")
    case (Inl c)
    with one show ?thesis by (simp add: visited_def)
  next
    case (Inr st')
    with one 3(4) have "search_inv deps st'" and "reaches deps st' ds"
      by (auto simp: visited_def reaches_def)
    then have "visited deps st' ds (visit_each deps ds st')" using 3(2) [OF Inr] by simp
    then show ?thesis
      using one Inr by (auto simp: visited_def split: sum.splits)
  qed
qed

lemma validate_acyclic_visited:
  "visited deps (replicate (length deps) Unseen, []) [0..<length deps]
     (visit_each deps [0..<length deps] (replicate (length deps) Unseen, []))"
  by (rule visit_correct) (auto simp: search_inv_def reaches_def complete_def)

lemma validate_acyclic_cycle: "validate_acyclic deps = Inl c \<Longrightarrow> cycle_of deps c"
  using validate_acyclic_visited [of deps]
  by (auto simp: validate_acyclic_def visited_def and_then_Inl_iff)

lemma validate_acyclic_sound:
  assumes "validate_acyclic deps = Inr ()"
  shows "acyclic (edges deps)"
proof (rule acyclicI, rule allI, rule notI)
  fix i assume loop: "(i, i) \<in> (edges deps)\<^sup>+"
  then have i: "i < length deps" using trancl_in_graph by blast
  from assms obtain st
    where "visit_each deps [0..<length deps] (replicate (length deps) Unseen, []) = Inr st"
    by (auto simp: validate_acyclic_def and_then_Inr_iff)
  with validate_acyclic_visited [of deps] i
  have "search_inv deps st" and "i \<in> complete (fst st)" by (auto simp: visited_def)
  with loop show False by (simp add: search_inv_def)
qed

lemma validate_acyclic_iff: "validate_acyclic deps = Inr () \<longleftrightarrow> acyclic (edges deps)"
proof
  assume "acyclic (edges deps)"
  then have "validate_acyclic deps \<noteq> Inl c" for c
    using validate_acyclic_cycle cycle_not_acyclic by blast
  then show "validate_acyclic deps = Inr ()" by (cases "validate_acyclic deps") auto
qed (rule validate_acyclic_sound)

subsection \<open>Properties\<close>

text \<open>C2. The depth-first search passes a dependency graph exactly when the graph has no cycle.\<close>

theorem cycle_check_exact: "validate_acyclic deps = Inr () \<longleftrightarrow> acyclic (edges deps)"
  by (rule validate_acyclic_iff)

text \<open>When the search fails, the positions it reports are a real cycle along dependency edges,
  with the first position repeated last.\<close>

theorem cycle_report_real:
  assumes "validate_acyclic deps = Inl c"
  shows "2 \<le> length c \<and> hd c = last c \<and> walk (edges deps) c"
  using validate_acyclic_cycle [OF assms] by (simp add: cycle_of_def)

theorem cycle_report_real_witness:
  "validate_acyclic [[1], [2], [1]] = Inl [1, 2, 1] \<and> walk (edges [[1], [2], [1]]) [1, 2, 1]"
proof -
  have "validate_acyclic [[1], [2], [1]] = Inl [1, 2, 1]" by code_simp
  then show ?thesis using cycle_report_real [of "[[1], [2], [1]]" "[1, 2, 1]"] by simp
qed

end
