(* ===== verification/Workflow.thy ===== *)
theory Workflow
  imports Acyclic
begin

text \<open>
  \<open>beez-core/src/workflow.rs\<close>: building a workflow from task definitions. \<open>Workflow_try_from\<close> is
  \<open>TryFrom\<close> with its checks in the code's order.

  \<open>definitions_ok\<close> says what a well-formed list of definitions is, without an order of checks; the
  lemmas show that \<open>Workflow_try_from\<close> accepts exactly those lists, that the workflow it builds
  carries the facts the execution relies on, and that an error names a real defect.
\<close>

subsection \<open>Errors\<close>

datatype workflow_error =
    EmptyWorkflow
  | DuplicateTask task_id
  | UnknownDependency task_id task_id
  | SelfDependency task_id
  | Cycle "task_id list"
  | InvalidTemplate task_id template_error
  | SelfOutput task_id
  | OutputOfUnknownTask task_id task_id
  | OutputWithoutDependency task_id task_id

primrec WorkflowError_text :: "workflow_error \<Rightarrow> string" where
  "WorkflowError_text EmptyWorkflow = ''workflow must define at least one task''"
| "WorkflowError_text (DuplicateTask t) = ''duplicate task ID '' @ id_text t"
| "WorkflowError_text (UnknownDependency t d) =
     ''task '' @ id_text t @ '' depends on unknown task '' @ id_text d"
| "WorkflowError_text (SelfDependency t) = ''task '' @ id_text t @ '' depends on itself''"
| "WorkflowError_text (Cycle ts) =
     ''workflow dependency cycle: '' @ join '' -> '' (map id_text ts)"
| "WorkflowError_text (InvalidTemplate t e) =
     ''task '' @ id_text t @ '': '' @ TemplateError_text e"
| "WorkflowError_text (SelfOutput t) = ''task '' @ id_text t @ '' reads its own output''"
| "WorkflowError_text (OutputOfUnknownTask t s) =
     ''task '' @ id_text t @ '' reads the output of unknown task '' @ id_text s"
| "WorkflowError_text (OutputWithoutDependency t s) =
     ''task '' @ id_text t @ '' reads the output of task '' @ id_text s
     @ '', so it must depend on it''"

subsection \<open>Resolving names\<close>

type_synonym indexes = "task_id \<Rightarrow> nat option"

fun task_indexes_from :: "nat \<Rightarrow> task_definition list \<Rightarrow> indexes \<Rightarrow> workflow_error + indexes" where
  "task_indexes_from position [] indexes = Inr indexes"
| "task_indexes_from position (d # ds) indexes =
     (case indexes (td_id d) of
        Some _ \<Rightarrow> Inl (DuplicateTask (td_id d))
      | None \<Rightarrow> task_indexes_from (Suc position) ds (indexes(td_id d \<mapsto> position)))"

definition task_indexes :: "task_definition list \<Rightarrow> workflow_error + indexes" where
  "task_indexes definitions = task_indexes_from 0 definitions (\<lambda>_. None)"

definition resolve_dependency ::
  "task_definition \<Rightarrow> nat \<Rightarrow> indexes \<Rightarrow> task_id \<Rightarrow> workflow_error + nat" where
  "resolve_dependency definition task_index indexes dependency_id =
     (case indexes dependency_id of
        None \<Rightarrow> Inl (UnknownDependency (td_id definition) dependency_id)
      | Some dependency \<Rightarrow>
          if dependency = task_index then Inl (SelfDependency (td_id definition))
          else Inr dependency)"

definition resolve_dependencies ::
  "task_definition \<Rightarrow> nat \<Rightarrow> indexes \<Rightarrow> workflow_error + nat list" where
  "resolve_dependencies definition task_index indexes =
     traverse (resolve_dependency definition task_index indexes) (td_depends_on definition)"

definition resolve_all_dependencies ::
  "task_definition list \<Rightarrow> indexes \<Rightarrow> workflow_error + nat list list" where
  "resolve_all_dependencies definitions indexes =
     traverse (\<lambda>(position, definition). resolve_dependencies definition position indexes)
       (enumerate 0 definitions)"

fun read_sources ::
  "task_definition \<Rightarrow> nat list \<Rightarrow> indexes \<Rightarrow> output_reference list \<Rightarrow> nat list
   \<Rightarrow> workflow_error + nat list" where
  "read_sources definition dependencies indexes [] sources = Inr sources"
| "read_sources definition dependencies indexes (r # rs) sources =
     (let source = or_task r in
      if source = td_id definition then Inl (SelfOutput (td_id definition))
      else case indexes source of
             None \<Rightarrow> Inl (OutputOfUnknownTask (td_id definition) source)
           | Some index \<Rightarrow>
               if index \<notin> set dependencies
               then Inl (OutputWithoutDependency (td_id definition) source)
               else read_sources definition dependencies indexes rs
                      (if index \<in> set sources then sources else sources @ [index]))"

fun read_texts ::
  "task_definition \<Rightarrow> nat list \<Rightarrow> indexes \<Rightarrow> string list \<Rightarrow> nat list
   \<Rightarrow> workflow_error + nat list" where
  "read_texts definition dependencies indexes [] sources = Inr sources"
| "read_texts definition dependencies indexes (t # ts) sources =
     and_then (map_err (InvalidTemplate (td_id definition)) (parse_template t)) (\<lambda>template.
     and_then (read_sources definition dependencies indexes (references template) sources)
       (\<lambda>sources. read_texts definition dependencies indexes ts sources))"

definition resolve_output_sources ::
  "task_definition \<Rightarrow> nat list \<Rightarrow> indexes \<Rightarrow> workflow_error + nat list" where
  "resolve_output_sources definition dependencies indexes =
     read_texts definition dependencies indexes (texts (td_request definition)) []"

definition task_ids_at :: "task_definition list \<Rightarrow> nat list \<Rightarrow> task_id list" where
  "task_ids_at definitions positions =
     map td_id (List.map_filter (get_at definitions) positions)"

subsection \<open>Workflows\<close>

record workflow =
  tasks :: "task list"

definition task_at :: "workflow \<Rightarrow> nat \<Rightarrow> task option" where
  "task_at w i = get_at (tasks w) i"

definition index_of :: "workflow \<Rightarrow> task_id \<Rightarrow> nat option" where
  "index_of w i = find_position (\<lambda>t. t_id t = i) (tasks w)"

definition build_task :: "(task_definition \<times> nat list) \<times> nat list \<Rightarrow> task" where
  "build_task x = (case x of ((definition, dependencies), reads) \<Rightarrow>
     \<lparr>t_id = td_id definition, t_dependencies = dependencies, t_reads = reads,
      t_request = td_request definition, t_sandbox = td_sandbox definition\<rparr>)"

definition Workflow_try_from :: "task_definition list \<Rightarrow> workflow_error + workflow" where
  "Workflow_try_from definitions =
     (if definitions = [] then Inl EmptyWorkflow
      else
        and_then (task_indexes definitions) (\<lambda>indexes.
        and_then (resolve_all_dependencies definitions indexes) (\<lambda>dependencies.
        and_then (map_err (\<lambda>cycle. Cycle (task_ids_at definitions cycle))
                    (validate_acyclic dependencies)) (\<lambda>_.
        and_then (traverse (\<lambda>(definition, dependencies).
                    resolve_output_sources definition dependencies indexes)
                    (zip definitions dependencies)) (\<lambda>reads.
        Inr \<lparr>tasks = map build_task (zip (zip definitions dependencies) reads)\<rparr>)))))"

subsection \<open>What a well-formed list of definitions is\<close>

abbreviation ids :: "task_definition list \<Rightarrow> task_id list" where
  "ids defs \<equiv> map td_id defs"

definition id_index :: "task_definition list \<Rightarrow> indexes" where
  "id_index defs = map_of (zip (ids defs) [0..<length defs])"

definition depends :: "task_definition list \<Rightarrow> (task_id \<times> task_id) set" where
  "depends defs = {(td_id d, i) |d i. d \<in> set defs \<and> i \<in> set (td_depends_on d)}"

definition deps_known :: "task_definition list \<Rightarrow> bool" where
  "deps_known defs \<longleftrightarrow>
     (\<forall>d\<in>set defs. set (td_depends_on d) \<subseteq> set (ids defs) \<and> td_id d \<notin> set (td_depends_on d))"

definition text_ok :: "task_definition \<Rightarrow> string \<Rightarrow> bool" where
  "text_ok d t \<longleftrightarrow>
     (\<exists>s. parse_template t = Inr s \<and> or_task ` set (references s) \<subseteq> set (td_depends_on d))"

definition definitions_ok :: "task_definition list \<Rightarrow> bool" where
  "definitions_ok defs \<longleftrightarrow>
     defs \<noteq> [] \<and> distinct (ids defs) \<and> deps_known defs \<and> acyclic (depends defs)
     \<and> (\<forall>d\<in>set defs. \<forall>t\<in>set (texts (td_request d)). text_ok d t)"

text \<open>The resolved predecessors of every task.\<close>

definition dep_graph :: "task_definition list \<Rightarrow> nat list list" where
  "dep_graph defs = map (\<lambda>d. map (the \<circ> id_index defs) (td_depends_on d)) defs"

subsection \<open>Names and positions\<close>

lemma task_indexes_from_Inr:
  "task_indexes_from p ds m = Inr m' \<longleftrightarrow>
     distinct (ids ds) \<and> set (ids ds) \<inter> dom m = {}
     \<and> m' = m ++ map_of (zip (ids ds) [p..<p + length ds])"
proof (induction ds arbitrary: p m)
  case (Cons d ds)
  show ?case
  proof (cases "m (td_id d)")
    case None
    have upt: "[p..<p + length (d # ds)] = p # [Suc p..<Suc p + length ds]"
      by (subst upt_conv_Cons) simp_all
    have step: "task_indexes_from p (d # ds) m = task_indexes_from (Suc p) ds (m(td_id d \<mapsto> p))"
      using None by simp
    show ?thesis
    proof (cases "td_id d \<in> set (ids ds)")
      case True
      then show ?thesis unfolding step Cons.IH by auto
    next
      case False
      then have "td_id d \<notin> dom (map_of (zip (ids ds) [Suc p..<Suc p + length ds]))"
        by (auto dest: map_of_SomeD set_zip_leftD)
      then have maps: "m(td_id d \<mapsto> p) ++ map_of (zip (ids ds) [Suc p..<Suc p + length ds])
          = m ++ map_of (zip (ids (d # ds)) [p..<p + length (d # ds)])"
        unfolding upt by (simp add: map_add_upd_left)
      have disjoint: "set (ids ds) \<inter> dom (m(td_id d \<mapsto> p)) = {} \<longleftrightarrow> set (ids (d # ds)) \<inter> dom m = {}"
        using None False by auto
      show ?thesis
        unfolding step Cons.IH maps disjoint using False by (simp only: list.map distinct.simps) blast
    qed
  qed auto
qed auto

lemma task_indexes_Inr:
  "task_indexes defs = Inr m \<longleftrightarrow> distinct (ids defs) \<and> m = id_index defs"
  using task_indexes_from_Inr [of 0 defs "\<lambda>_. None" m]
  by (simp add: task_indexes_def id_index_def)

lemma task_indexes_from_Inl:
  "task_indexes_from p ds m = Inl e \<Longrightarrow>
     \<exists>pre d post. ds = pre @ d # post \<and> e = DuplicateTask (td_id d)
       \<and> (td_id d \<in> dom m \<or> td_id d \<in> set (ids pre))"
proof (induction ds arbitrary: p m)
  case (Cons d ds)
  show ?case
  proof (cases "m (td_id d)")
    case None
    with Cons.prems have "task_indexes_from (Suc p) ds (m(td_id d \<mapsto> p)) = Inl e" by simp
    from Cons.IH [OF this] obtain pre d' post
      where "ds = pre @ d' # post" "e = DuplicateTask (td_id d')"
        "td_id d' \<in> dom (m(td_id d \<mapsto> p)) \<or> td_id d' \<in> set (ids pre)" by blast
    then have "d # ds = (d # pre) @ d' # post \<and> e = DuplicateTask (td_id d')
        \<and> (td_id d' \<in> dom m \<or> td_id d' \<in> set (ids (d # pre)))" by auto
    then show ?thesis by blast
  next
    case (Some k)
    with Cons.prems have "d # ds = [] @ d # ds \<and> e = DuplicateTask (td_id d)
        \<and> (td_id d \<in> dom m \<or> td_id d \<in> set (ids []))" by auto
    then show ?thesis by blast
  qed
qed simp

lemma id_index_Some:
  assumes "distinct (ids defs)"
  shows "id_index defs i = Some k \<longleftrightarrow> k < length defs \<and> td_id (defs ! k) = i"
proof -
  have "id_index defs i = Some k \<longleftrightarrow> (i, k) \<in> set (zip (ids defs) [0..<length defs])"
    using assms by (simp add: id_index_def)
  also have "\<dots> \<longleftrightarrow> k < length defs \<and> td_id (defs ! k) = i"
    by (auto simp: in_set_zip intro!: exI [of _ k])
  finally show ?thesis .
qed

lemma id_index_None: "id_index defs i = None \<longleftrightarrow> i \<notin> set (ids defs)"
  unfolding id_index_def by (rule map_of_zip_is_None) simp

lemma id_index_nth:
  "distinct (ids defs) \<Longrightarrow> k < length defs \<Longrightarrow> id_index defs (td_id (defs ! k)) = Some k"
  by (simp add: id_index_Some)

lemma id_index_inj:
  assumes "distinct (ids defs)" and "id_index defs i = Some k" and "id_index defs j = Some k"
  shows "i = j"
  using assms by (simp add: id_index_Some)

lemma id_index_known: "i \<in> set (ids defs) \<Longrightarrow> \<exists>k. id_index defs i = Some k"
  using id_index_None [of defs i] by (cases "id_index defs i") auto

subsection \<open>Dependencies\<close>

lemma resolve_dependency_Inr:
  assumes "distinct (ids defs)" and "k < length defs"
  shows "resolve_dependency (defs ! k) k (id_index defs) i = Inr x \<longleftrightarrow>
     id_index defs i = Some x \<and> i \<noteq> td_id (defs ! k)"
proof -
  have "id_index defs i = Some k \<longleftrightarrow> i = td_id (defs ! k)"
    using assms by (auto simp: id_index_Some)
  then show ?thesis by (auto simp: resolve_dependency_def split: option.splits)
qed

lemma resolve_dependencies_Inr:
  assumes "distinct (ids defs)" and "k < length defs"
  shows "resolve_dependencies (defs ! k) k (id_index defs) = Inr xs \<longleftrightarrow>
     (\<forall>i\<in>set (td_depends_on (defs ! k)). i \<in> set (ids defs) \<and> i \<noteq> td_id (defs ! k))
     \<and> xs = map (the \<circ> id_index defs) (td_depends_on (defs ! k))"
    (is "_ = Inr xs \<longleftrightarrow> ?ok \<and> xs = ?xs")
proof
  assume "resolve_dependencies (defs ! k) k (id_index defs) = Inr xs"
  then have all: "list_all2 (\<lambda>i x. id_index defs i = Some x \<and> i \<noteq> td_id (defs ! k))
      (td_depends_on (defs ! k)) xs"
    by (simp add: resolve_dependencies_def traverse_Inr_iff resolve_dependency_Inr [OF assms])
  have ?ok
  proof
    fix i assume "i \<in> set (td_depends_on (defs ! k))"
    with all have "\<exists>x\<in>set xs. id_index defs i = Some x \<and> i \<noteq> td_id (defs ! k)"
      by (rule list_all2_inE)
    then have "id_index defs i \<noteq> None" and "i \<noteq> td_id (defs ! k)" by fastforce+
    then show "i \<in> set (ids defs) \<and> i \<noteq> td_id (defs ! k)"
      unfolding id_index_None by blast
  qed
  moreover have "xs = ?xs" using all by (auto simp: list_all2_conv_all_nth intro: nth_equalityI)
  ultimately show "?ok \<and> xs = ?xs" by simp
next
  assume "?ok \<and> xs = ?xs"
  then have ok: ?ok and xs: "xs = ?xs" by simp_all
  have "resolve_dependency (defs ! k) k (id_index defs) i = Inr ((the \<circ> id_index defs) i)"
    if "i \<in> set (td_depends_on (defs ! k))" for i
    using ok that id_index_known [of i defs] by (auto simp: resolve_dependency_Inr [OF assms])
  then show "resolve_dependencies (defs ! k) k (id_index defs) = Inr xs"
    unfolding resolve_dependencies_def xs by (rule traverse_all_Inr_map)
qed

lemma deps_known_nth:
  "deps_known defs \<longleftrightarrow>
     (\<forall>k<length defs. \<forall>i\<in>set (td_depends_on (defs ! k)). i \<in> set (ids defs) \<and> i \<noteq> td_id (defs ! k))"
  unfolding deps_known_def by (subst all_set_conv_all_nth) blast

lemma resolve_all_dependencies_Inr:
  assumes "distinct (ids defs)"
  shows "resolve_all_dependencies defs (id_index defs) = Inr deps \<longleftrightarrow>
     deps_known defs \<and> deps = dep_graph defs"
proof -
  have "resolve_all_dependencies defs (id_index defs) = Inr deps \<longleftrightarrow>
      length deps = length defs
      \<and> (\<forall>k<length defs. resolve_dependencies (defs ! k) k (id_index defs) = Inr (deps ! k))"
    by (auto simp: resolve_all_dependencies_def traverse_Inr_iff list_all2_conv_all_nth
        nth_enumerate_eq)
  also have "\<dots> \<longleftrightarrow> length deps = length defs \<and> deps_known defs
      \<and> (\<forall>k<length defs. deps ! k = map (the \<circ> id_index defs) (td_depends_on (defs ! k)))"
    by (auto simp: resolve_dependencies_Inr [OF assms] deps_known_nth)
  also have "\<dots> \<longleftrightarrow> deps_known defs \<and> deps = dep_graph defs"
    unfolding dep_graph_def list_eq_iff_nth_eq by auto
  finally show ?thesis .
qed

lemma resolve_all_dependencies_Inl:
  assumes "resolve_all_dependencies defs m = Inl e"
  shows "\<exists>k i. k < length defs \<and> i \<in> set (td_depends_on (defs ! k))
    \<and> (m i = None \<and> e = UnknownDependency (td_id (defs ! k)) i
       \<or> m i = Some k \<and> e = SelfDependency (td_id (defs ! k)))"
proof -
  from assms obtain k where k: "k < length defs" "resolve_dependencies (defs ! k) k m = Inl e"
    by (auto simp: resolve_all_dependencies_def in_set_enumerate_eq dest!: traverse_Inl_in)
  then obtain i where "i \<in> set (td_depends_on (defs ! k))"
    and "resolve_dependency (defs ! k) k m i = Inl e"
    by (auto simp: resolve_dependencies_def dest: traverse_Inl_in)
  with k show ?thesis
    by (auto simp: resolve_dependency_def split: option.splits if_splits)
qed

subsection \<open>The graph of positions and the graph of names\<close>

lemma dep_graph_edges:
  assumes "distinct (ids defs)" and "deps_known defs" and "k < length defs"
  shows "(k, l) \<in> edges (dep_graph defs) \<longleftrightarrow>
     l < length defs \<and> (td_id (defs ! k), td_id (defs ! l)) \<in> depends defs"
proof -
  have "l \<in> set (dep_graph defs ! k) \<longleftrightarrow> td_id (defs ! l) \<in> set (td_depends_on (defs ! k))"
    if l: "l < length defs"
  proof
    assume "l \<in> set (dep_graph defs ! k)"
    then obtain i where i: "i \<in> set (td_depends_on (defs ! k))" "l = the (id_index defs i)"
      using assms(3) by (auto simp: dep_graph_def)
    moreover have "i \<in> set (ids defs)" using assms(2,3) i(1) nth_mem by (fastforce simp: deps_known_def)
    ultimately have "id_index defs i = Some l" using id_index_known by fastforce
    then show "td_id (defs ! l) \<in> set (td_depends_on (defs ! k))"
      using i(1) assms(1) by (simp add: id_index_Some)
  next
    assume "td_id (defs ! l) \<in> set (td_depends_on (defs ! k))"
    then show "l \<in> set (dep_graph defs ! k)"
      using assms(1,3) l by (force simp: dep_graph_def id_index_nth)
  qed
  moreover have "(td_id (defs ! k), i) \<in> depends defs \<longleftrightarrow> i \<in> set (td_depends_on (defs ! k))" for i
  proof -
    have "d = defs ! k" if "d \<in> set defs" "td_id d = td_id (defs ! k)" for d
      using that assms(1,3) by (metis distinct_map inj_onD nth_mem)
    then show ?thesis using assms(3) by (auto simp: depends_def)
  qed
  ultimately show ?thesis using assms(3) by (auto simp: edges_def dep_graph_def)
qed

lemma acyclic_dep_graph:
  assumes dist: "distinct (ids defs)" and known: "deps_known defs"
  shows "acyclic (edges (dep_graph defs)) \<longleftrightarrow> acyclic (depends defs)"
proof -
  have to_ids: "(td_id (defs ! k), td_id (defs ! l)) \<in> (depends defs)\<^sup>+"
    if "(k, l) \<in> (edges (dep_graph defs))\<^sup>+" for k l
    using that
  proof (induction rule: trancl_induct)
    case (base l)
    then have "k < length defs" by (simp add: edges_def dep_graph_def)
    with base show ?case using dep_graph_edges [OF assms] by (meson r_into_trancl)
  next
    case (step l m)
    have "l < length defs" using step(2) by (auto simp: edges_def dep_graph_def)
    with step show ?case
      using dep_graph_edges [OF assms] by (meson trancl_into_trancl)
  qed
  have to_pos: "\<exists>k l. id_index defs i = Some k \<and> id_index defs j = Some l
      \<and> (k, l) \<in> (edges (dep_graph defs))\<^sup>+"
    if "(i, j) \<in> (depends defs)\<^sup>+" for i j
    using that
  proof (induction rule: trancl_induct)
    case (base j)
    then have mem: "i \<in> set (ids defs)" "j \<in> set (ids defs)"
      using known by (auto simp: depends_def deps_known_def)
    then obtain k l where kl: "id_index defs i = Some k" "id_index defs j = Some l"
      using id_index_known by metis
    then have "(k, l) \<in> edges (dep_graph defs)"
      using base dist dep_graph_edges [OF assms, of k l] by (simp add: id_index_Some)
    then show ?case using kl by blast
  next
    case (step j h)
    then obtain k l where kl: "id_index defs i = Some k" "id_index defs j = Some l"
      "(k, l) \<in> (edges (dep_graph defs))\<^sup>+" by blast
    have "h \<in> set (ids defs)"
      using step(2) known by (auto simp: depends_def deps_known_def)
    then obtain m where m: "id_index defs h = Some m" using id_index_known by metis
    then have "(l, m) \<in> edges (dep_graph defs)"
      using step(2) kl dist dep_graph_edges [OF assms, of l m] by (simp add: id_index_Some)
    then show ?case using kl m by (meson trancl_into_trancl)
  qed
  show ?thesis
    unfolding acyclic_def using to_ids to_pos by (metis option.inject)
qed

subsection \<open>Outputs\<close>

text \<open>A reference is allowed when it names a dependency, by the name's resolved position.\<close>

definition source_ok :: "task_definition \<Rightarrow> nat list \<Rightarrow> indexes \<Rightarrow> output_reference \<Rightarrow> bool" where
  "source_ok d deps m r \<longleftrightarrow>
     or_task r \<noteq> td_id d \<and> (\<exists>k. m (or_task r) = Some k \<and> k \<in> set deps)"

lemma read_sources_Inr:
  "read_sources d deps m rs sources = Inr out \<longleftrightarrow>
     (\<forall>r\<in>set rs. source_ok d deps m r)
     \<and> out = extend_list sources (map (\<lambda>r. the (m (or_task r))) rs)"
proof (induction d deps m rs sources rule: read_sources.induct)
  case (1 d deps m sources)
  then show ?case by auto
next
  case (2 d deps m r rs sources)
  show ?case
  proof (cases "source_ok d deps m r")
    case True
    then obtain k where "m (or_task r) = Some k" "k \<in> set deps" "or_task r \<noteq> td_id d"
      by (auto simp: source_ok_def)
    with 2 True show ?thesis by (simp add: extend_Cons)
  next
    case False
    then show ?thesis by (auto simp: source_ok_def Let_def split: option.splits)
  qed
qed

lemma read_texts_Inr:
  "read_texts d deps m ts sources = Inr out \<Longrightarrow>
     (\<forall>t\<in>set ts. \<exists>s. parse_template t = Inr s \<and>
        (\<forall>r\<in>set (references s). source_ok d deps m r \<and> the (m (or_task r)) \<in> set out))
     \<and> set sources \<subseteq> set out \<and> set out \<subseteq> set sources \<union> set deps \<and> (distinct sources \<longrightarrow> distinct out)"
proof (induction ts arbitrary: sources)
  case (Cons t ts)
  then obtain s sources' where s: "parse_template t = Inr s"
    and src: "read_sources d deps m (references s) sources = Inr sources'"
    and rest: "read_texts d deps m ts sources' = Inr out"
    by (auto simp: and_then_Inr_iff map_err_Inr_iff)
  from src have ok: "\<forall>r\<in>set (references s). source_ok d deps m r"
    and sources': "sources' = extend_list sources (map (\<lambda>r. the (m (or_task r))) (references s))"
    by (auto simp: read_sources_Inr)
  from ok have "set (map (\<lambda>r. the (m (or_task r))) (references s)) \<subseteq> set deps"
    by (auto simp: source_ok_def)
  then have now: "set sources' \<subseteq> set sources \<union> set deps" "set sources \<subseteq> set sources'"
    "distinct sources \<longrightarrow> distinct sources'"
    "\<forall>r\<in>set (references s). the (m (or_task r)) \<in> set sources'"
    by (auto simp: sources' distinct_extend)
  from Cons.IH [OF rest] have later: "\<forall>t\<in>set ts. \<exists>s. parse_template t = Inr s \<and>
        (\<forall>r\<in>set (references s). source_ok d deps m r \<and> the (m (or_task r)) \<in> set out)"
    "set sources' \<subseteq> set out" "set out \<subseteq> set sources' \<union> set deps" "distinct sources' \<longrightarrow> distinct out"
    by blast+
  have "\<forall>r\<in>set (references s). source_ok d deps m r \<and> the (m (or_task r)) \<in> set out"
    using ok now(4) later(2) by blast
  with s have head: "\<exists>s. parse_template t = Inr s \<and>
        (\<forall>r\<in>set (references s). source_ok d deps m r \<and> the (m (or_task r)) \<in> set out)"
    by (intro exI conjI)
  show ?case
  proof (intro conjI ballI)
    fix u assume "u \<in> set (t # ts)"
    then consider "u = t" | "u \<in> set ts" by (simp only: list.set insert_iff) blast
    then show "\<exists>s. parse_template u = Inr s \<and>
        (\<forall>r\<in>set (references s). source_ok d deps m r \<and> the (m (or_task r)) \<in> set out)"
      by cases (use head in simp, use later(1) in simp)
  qed (use now(1-3) later(2-4) in blast)+
qed simp

lemma read_texts_ok:
  "(\<forall>t\<in>set ts. \<exists>s. parse_template t = Inr s \<and> (\<forall>r\<in>set (references s). source_ok d deps m r))
   \<Longrightarrow> \<exists>out. read_texts d deps m ts sources = Inr out"
proof (induction ts arbitrary: sources)
  case (Cons t ts)
  then obtain s where s: "parse_template t = Inr s" "\<forall>r\<in>set (references s). source_ok d deps m r"
    by auto
  then have "read_sources d deps m (references s) sources
      = Inr (extend_list sources (map (\<lambda>r. the (m (or_task r))) (references s)))"
    by (simp add: read_sources_Inr)
  with Cons s show ?case by simp
qed simp

lemma read_sources_Inl:
  "read_sources d deps m rs sources = Inl e \<Longrightarrow>
     \<exists>r\<in>set rs.
       or_task r = td_id d \<and> e = SelfOutput (td_id d)
       \<or> m (or_task r) = None \<and> e = OutputOfUnknownTask (td_id d) (or_task r)
       \<or> (\<exists>k. m (or_task r) = Some k \<and> k \<notin> set deps)
         \<and> e = OutputWithoutDependency (td_id d) (or_task r)"
proof (induction d deps m rs sources rule: read_sources.induct)
  case (2 d deps m r rs sources)
  then show ?case by (auto simp: Let_def split: if_splits option.splits)
qed simp

lemma read_texts_Inl:
  "read_texts d deps m ts sources = Inl e \<Longrightarrow>
     \<exists>t\<in>set ts.
       (\<exists>e'. parse_template t = Inl e' \<and> e = InvalidTemplate (td_id d) e')
       \<or> (\<exists>s. parse_template t = Inr s \<and> (\<exists>sources. read_sources d deps m (references s) sources = Inl e))"
proof (induction ts arbitrary: sources)
  case (Cons t ts)
  then show ?case
    by (cases "parse_template t") (auto simp: and_then_Inl_iff)
qed simp

lemma source_ok_iff:
  assumes "distinct (ids defs)" and "deps_known defs" and "k < length defs"
  shows "source_ok (defs ! k) (dep_graph defs ! k) (id_index defs) r \<longleftrightarrow>
     or_task r \<in> set (td_depends_on (defs ! k))"
proof -
  have known: "i \<in> set (ids defs) \<and> i \<noteq> td_id (defs ! k)"
    if "i \<in> set (td_depends_on (defs ! k))" for i
    using assms that by (simp add: deps_known_nth)
  show ?thesis
  proof
    assume "source_ok (defs ! k) (dep_graph defs ! k) (id_index defs) r"
    then obtain l where l: "id_index defs (or_task r) = Some l" "l \<in> set (dep_graph defs ! k)"
      by (auto simp: source_ok_def)
    then obtain i where i: "i \<in> set (td_depends_on (defs ! k))" "l = the (id_index defs i)"
      using assms(3) by (auto simp: dep_graph_def)
    then have "id_index defs i = Some l" using known id_index_known by fastforce
    then have "or_task r = i" using id_index_inj [OF assms(1) l(1)] by simp
    then show "or_task r \<in> set (td_depends_on (defs ! k))" using i by simp
  next
    assume r: "or_task r \<in> set (td_depends_on (defs ! k))"
    then obtain l where l: "id_index defs (or_task r) = Some l" using known id_index_known by metis
    have "the (id_index defs (or_task r)) \<in> set (dep_graph defs ! k)"
      using r assms(3) by (auto simp: dep_graph_def)
    then show "source_ok (defs ! k) (dep_graph defs ! k) (id_index defs) r"
      using l known [OF r] by (simp add: source_ok_def)
  qed
qed

subsection \<open>Validation\<close>

text \<open>A workflow stands for its definitions: same tasks in the same order, with names resolved.\<close>

definition represents :: "task_definition list \<Rightarrow> workflow \<Rightarrow> bool" where
  "represents defs w \<longleftrightarrow>
     length (tasks w) = length defs
     \<and> (\<forall>k<length defs.
          t_id (tasks w ! k) = td_id (defs ! k)
          \<and> t_request (tasks w ! k) = td_request (defs ! k)
          \<and> t_sandbox (tasks w ! k) = td_sandbox (defs ! k)
          \<and> t_dependencies (tasks w ! k) = dep_graph defs ! k
          \<and> set (t_reads (tasks w ! k)) \<subseteq> set (dep_graph defs ! k)
          \<and> distinct (t_reads (tasks w ! k))
          \<and> (\<forall>t\<in>set (texts (td_request (defs ! k))). \<exists>s. parse_template t = Inr s
               \<and> (\<forall>r\<in>set (references s). \<exists>j\<in>set (t_reads (tasks w ! k)).
                     id_index defs (or_task r) = Some j)))"

definition try_from_parts ::
  "task_definition list \<Rightarrow> nat list list \<Rightarrow> workflow_error + nat list list" where
  "try_from_parts defs deps =
     traverse (\<lambda>(d, ds). resolve_output_sources d ds (id_index defs)) (zip defs deps)"

lemma try_from_parts_Inr:
  "length deps = length defs \<Longrightarrow> try_from_parts defs deps = Inr reads \<longleftrightarrow>
     length reads = length defs
     \<and> (\<forall>k<length defs. resolve_output_sources (defs ! k) (deps ! k) (id_index defs) = Inr (reads ! k))"
  by (auto simp: try_from_parts_def traverse_Inr_iff list_all2_conv_all_nth)

lemma dep_graph_length [simp]: "length (dep_graph defs) = length defs"
  by (simp add: dep_graph_def)

lemma Workflow_try_from_Inr_iff:
  "Workflow_try_from defs = Inr w \<longleftrightarrow>
     defs \<noteq> [] \<and> distinct (ids defs) \<and> deps_known defs \<and> acyclic (depends defs)
     \<and> (\<exists>reads. try_from_parts defs (dep_graph defs) = Inr reads
          \<and> w = \<lparr>tasks = map build_task (zip (zip defs (dep_graph defs)) reads)\<rparr>)"
proof (cases "defs \<noteq> [] \<and> distinct (ids defs) \<and> deps_known defs")
  case True
  then have "task_indexes defs = Inr (id_index defs)"
    and "resolve_all_dependencies defs (id_index defs) = Inr (dep_graph defs)"
    using task_indexes_Inr [of defs "id_index defs"] resolve_all_dependencies_Inr [of defs "dep_graph defs"]
    by simp_all
  then have "Workflow_try_from defs =
      and_then (map_err (\<lambda>cycle. Cycle (task_ids_at defs cycle)) (validate_acyclic (dep_graph defs))) (\<lambda>_.
      and_then (try_from_parts defs (dep_graph defs)) (\<lambda>reads.
      Inr \<lparr>tasks = map build_task (zip (zip defs (dep_graph defs)) reads)\<rparr>))"
    using True by (simp add: Workflow_try_from_def try_from_parts_def)
  then have "Workflow_try_from defs = Inr w \<longleftrightarrow>
      validate_acyclic (dep_graph defs) = Inr ()
      \<and> (\<exists>reads. try_from_parts defs (dep_graph defs) = Inr reads
          \<and> \<lparr>tasks = map build_task (zip (zip defs (dep_graph defs)) reads)\<rparr> = w)"
    by (simp add: and_then_Inr_iff map_err_Inr_iff)
  moreover have "validate_acyclic (dep_graph defs) = Inr () \<longleftrightarrow> acyclic (depends defs)"
    unfolding validate_acyclic_iff using True by (intro acyclic_dep_graph) simp_all
  ultimately show ?thesis using True by blast
next
  case False
  have "Workflow_try_from defs \<noteq> Inr w"
  proof
    assume ok: "Workflow_try_from defs = Inr w"
    then have ne: "defs \<noteq> []" by (auto simp: Workflow_try_from_def)
    then obtain m deps where "task_indexes defs = Inr m" and r: "resolve_all_dependencies defs m = Inr deps"
      using ok by (simp add: Workflow_try_from_def and_then_Inr_iff) blast
    then have d: "distinct (ids defs)" and m: "m = id_index defs" by (simp_all add: task_indexes_Inr)
    from r have "deps_known defs" unfolding m resolve_all_dependencies_Inr [OF d] by simp
    with False ne d show False by simp
  qed
  with False show ?thesis by blast
qed

lemma text_ok_sources:
  assumes "distinct (ids defs)" and "deps_known defs" and "k < length defs"
  shows "text_ok (defs ! k) t \<longleftrightarrow>
     (\<exists>s. parse_template t = Inr s
        \<and> (\<forall>r\<in>set (references s). source_ok (defs ! k) (dep_graph defs ! k) (id_index defs) r))"
  unfolding text_ok_def source_ok_iff [OF assms] by (simp add: image_subset_iff)

lemma Workflow_try_from_accepts:
  assumes "definitions_ok defs"
  shows "\<exists>w. Workflow_try_from defs = Inr w"
proof -
  note ok = assms [unfolded definitions_ok_def]
  have "\<exists>out. resolve_output_sources (defs ! k) (dep_graph defs ! k) (id_index defs) = Inr out"
    if "k < length defs" for k
  proof -
    have "\<forall>t\<in>set (texts (td_request (defs ! k))). text_ok (defs ! k) t"
      using ok that nth_mem by blast
    then show ?thesis
      unfolding resolve_output_sources_def
      by (intro read_texts_ok) (use ok that text_ok_sources [of defs k] in blast)
  qed
  then obtain f
    where "resolve_output_sources (defs ! k) (dep_graph defs ! k) (id_index defs) = Inr (f k)"
    if "k < length defs" for k
    by metis
  then have "try_from_parts defs (dep_graph defs) = Inr (map f [0..<length defs])"
    by (simp add: try_from_parts_Inr)
  then show ?thesis using ok by (auto simp: Workflow_try_from_Inr_iff)
qed

lemma Workflow_try_from_builds:
  assumes "Workflow_try_from defs = Inr w"
  shows "definitions_ok defs" and "represents defs w"
proof -
  from assms obtain reads
    where ok: "defs \<noteq> []" "distinct (ids defs)" "deps_known defs" "acyclic (depends defs)"
      and parts: "try_from_parts defs (dep_graph defs) = Inr reads"
      and w: "w = \<lparr>tasks = map build_task (zip (zip defs (dep_graph defs)) reads)\<rparr>"
    by (auto simp: Workflow_try_from_Inr_iff)
  have len: "length reads = length defs" using parts by (simp add: try_from_parts_Inr)
  have read: "read_texts (defs ! k) (dep_graph defs ! k) (id_index defs)
      (texts (td_request (defs ! k))) [] = Inr (reads ! k)" if "k < length defs" for k
    using parts that by (simp add: try_from_parts_Inr resolve_output_sources_def)
  note got = read_texts_Inr [OF read]
  have texts: "text_ok (defs ! k) t"
    if "k < length defs" "t \<in> set (texts (td_request (defs ! k)))" for k t
    unfolding text_ok_sources [OF ok(2,3) that(1)] using got [OF that(1)] that(2) by blast
  then have "\<forall>d\<in>set defs. \<forall>t\<in>set (texts (td_request d)). text_ok d t"
    by (metis in_set_conv_nth)
  with ok show "definitions_ok defs" by (simp add: definitions_ok_def)
  have task: "tasks w ! k = build_task ((defs ! k, dep_graph defs ! k), reads ! k)"
    if "k < length defs" for k
    using that len by (simp add: w)
  have "\<exists>s. parse_template t = Inr s \<and> (\<forall>r\<in>set (references s). \<exists>j\<in>set (reads ! k).
      id_index defs (or_task r) = Some j)"
    if k: "k < length defs" and t: "t \<in> set (texts (td_request (defs ! k)))" for k t
  proof -
    from got [OF k] t obtain s where s: "parse_template t = Inr s"
      and r: "\<forall>r\<in>set (references s). source_ok (defs ! k) (dep_graph defs ! k) (id_index defs) r
        \<and> the (id_index defs (or_task r)) \<in> set (reads ! k)" by blast
    have "\<exists>j\<in>set (reads ! k). id_index defs (or_task r') = Some j"
      if "r' \<in> set (references s)" for r'
      using bspec [OF r that] by (auto simp: source_ok_def)
    with s show ?thesis by blast
  qed
  moreover have "set (reads ! k) \<subseteq> set (dep_graph defs ! k)" "distinct (reads ! k)"
    if "k < length defs" for k
    using got [OF that] by auto
  ultimately show "represents defs w"
    using len by (simp add: represents_def task build_task_def w [symmetric]) (simp add: w)
qed

text \<open>What the execution and the runner rely on, over the workflow alone.\<close>

definition workflow_ok :: "workflow \<Rightarrow> bool" where
  "workflow_ok w \<longleftrightarrow>
     tasks w \<noteq> [] \<and> distinct (map t_id (tasks w))
     \<and> acyclic (edges (map t_dependencies (tasks w)))
     \<and> (\<forall>t\<in>set (tasks w).
          set (t_dependencies t) \<subseteq> {..<length (tasks w)}
          \<and> set (t_reads t) \<subseteq> set (t_dependencies t)
          \<and> (\<forall>x\<in>set (texts (t_request t)). \<exists>s. parse_template x = Inr s
               \<and> (\<forall>r\<in>set (references s). \<exists>j\<in>set (t_reads t). index_of w (or_task r) = Some j)))"

lemma represents_ids: "represents defs w \<Longrightarrow> map t_id (tasks w) = ids defs"
  by (auto simp: represents_def intro: nth_equalityI)

lemma represents_deps: "represents defs w \<Longrightarrow> map t_dependencies (tasks w) = dep_graph defs"
  by (auto simp: represents_def intro: nth_equalityI)

lemma index_of_id_index:
  assumes "represents defs w" and "distinct (ids defs)"
  shows "index_of w i = id_index defs i"
proof (cases "id_index defs i")
  case None
  then have "i \<notin> set (map t_id (tasks w))"
    by (simp add: id_index_None represents_ids [OF assms(1)])
  then have "index_of w i = None" by (auto simp: index_of_def)
  with None show ?thesis by simp
next
  case (Some k)
  then have k: "k < length defs" "td_id (defs ! k) = i" using assms(2) by (simp_all add: id_index_Some)
  have eq: "t_id (tasks w ! j) = td_id (defs ! j)" if "j < length defs" for j
    using assms(1) that by (simp add: represents_def)
  have "index_of w i = Some k"
    unfolding index_of_def find_position_Some_iff
    using k assms eq by (auto simp: represents_def distinct_conv_nth)
  with Some show ?thesis by simp
qed

lemma dep_graph_range:
  assumes "distinct (ids defs)" and "deps_known defs" and "k < length defs"
  shows "set (dep_graph defs ! k) \<subseteq> {..<length defs}"
proof
  fix l assume "l \<in> set (dep_graph defs ! k)"
  then obtain i where i: "i \<in> set (td_depends_on (defs ! k))" "l = the (id_index defs i)"
    using assms(3) by (auto simp: dep_graph_def)
  then have "i \<in> set (ids defs)" using assms by (simp add: deps_known_nth)
  then have "id_index defs i = Some l" using i(2) id_index_known by fastforce
  then show "l \<in> {..<length defs}" using assms(1) by (simp add: id_index_Some)
qed

lemma represents_workflow_ok:
  assumes "definitions_ok defs" and "represents defs w"
  shows "workflow_ok w"
proof -
  have ok: "defs \<noteq> []" "distinct (ids defs)" "deps_known defs" "acyclic (depends defs)"
    using assms(1) by (simp_all add: definitions_ok_def)
  have task: "set (t_dependencies (tasks w ! k)) \<subseteq> {..<length (tasks w)}
      \<and> set (t_reads (tasks w ! k)) \<subseteq> set (t_dependencies (tasks w ! k))
      \<and> (\<forall>x\<in>set (texts (t_request (tasks w ! k))). \<exists>s. parse_template x = Inr s
          \<and> (\<forall>r\<in>set (references s). \<exists>j\<in>set (t_reads (tasks w ! k)). index_of w (or_task r) = Some j))"
    if "k < length (tasks w)" for k
    using that assms(2) dep_graph_range [OF ok(2,3), of k]
    unfolding index_of_id_index [OF assms(2) ok(2)] by (simp add: represents_def)
  have "tasks w \<noteq> []" using assms(2) ok(1) by (auto simp: represents_def)
  moreover have "distinct (map t_id (tasks w))" by (simp only: represents_ids [OF assms(2)] ok(2))
  moreover have "acyclic (edges (map t_dependencies (tasks w)))"
    unfolding represents_deps [OF assms(2)] using ok by (simp add: acyclic_dep_graph)
  ultimately show ?thesis
    using task unfolding workflow_ok_def by (metis in_set_conv_nth)
qed

subsection \<open>Errors name real defects\<close>

fun defect :: "task_definition list \<Rightarrow> workflow_error \<Rightarrow> bool" where
  "defect defs EmptyWorkflow \<longleftrightarrow> defs = []"
| "defect defs (DuplicateTask t) \<longleftrightarrow>
     (\<exists>pre d post. defs = pre @ d # post \<and> td_id d = t \<and> t \<in> set (ids pre))"
| "defect defs (UnknownDependency t i) \<longleftrightarrow> (t, i) \<in> depends defs \<and> i \<notin> set (ids defs)"
| "defect defs (SelfDependency t) \<longleftrightarrow> (t, t) \<in> depends defs"
| "defect defs (Cycle c) \<longleftrightarrow> 2 \<le> length c \<and> hd c = last c \<and> walk (depends defs) c"
| "defect defs (InvalidTemplate t e) \<longleftrightarrow>
     (\<exists>d\<in>set defs. td_id d = t \<and> (\<exists>x\<in>set (texts (td_request d)). parse_template x = Inl e))"
| "defect defs (SelfOutput t) \<longleftrightarrow>
     (\<exists>d\<in>set defs. td_id d = t \<and> (\<exists>x\<in>set (texts (td_request d)). \<exists>s. parse_template x = Inr s
        \<and> t \<in> or_task ` set (references s)))"
| "defect defs (OutputOfUnknownTask t i) \<longleftrightarrow>
     i \<notin> set (ids defs)
     \<and> (\<exists>d\<in>set defs. td_id d = t \<and> (\<exists>x\<in>set (texts (td_request d)). \<exists>s. parse_template x = Inr s
          \<and> i \<in> or_task ` set (references s)))"
| "defect defs (OutputWithoutDependency t i) \<longleftrightarrow>
     (\<exists>d\<in>set defs. td_id d = t \<and> i \<notin> set (td_depends_on d)
        \<and> (\<exists>x\<in>set (texts (td_request d)). \<exists>s. parse_template x = Inr s
              \<and> i \<in> or_task ` set (references s)))"

lemma task_indexes_defect: "task_indexes defs = Inl e \<Longrightarrow> defect defs e"
proof -
  assume "task_indexes defs = Inl e"
  then have "task_indexes_from 0 defs (\<lambda>_. None) = Inl e" by (simp only: task_indexes_def)
  from task_indexes_from_Inl [OF this] obtain pre d post
    where "defs = pre @ d # post" and e: "e = DuplicateTask (td_id d)" and "td_id d \<in> set (ids pre)"
    by (auto simp only: dom_empty empty_iff)
  then have "\<exists>pre d' post. defs = pre @ d' # post \<and> td_id d' = td_id d \<and> td_id d \<in> set (ids pre)"
    by blast
  then show "defect defs e" by (simp only: e defect.simps)
qed

lemma resolve_all_defect:
  assumes "distinct (ids defs)" and "resolve_all_dependencies defs (id_index defs) = Inl e"
  shows "defect defs e"
proof -
  obtain k i where k: "k < length defs" "i \<in> set (td_depends_on (defs ! k))"
    and e: "id_index defs i = None \<and> e = UnknownDependency (td_id (defs ! k)) i
      \<or> id_index defs i = Some k \<and> e = SelfDependency (td_id (defs ! k))"
    using resolve_all_dependencies_Inl [OF assms(2)] by blast
  have dep: "(td_id (defs ! k), i) \<in> depends defs" using k by (auto simp: depends_def)
  from e show ?thesis
  proof
    assume "id_index defs i = None \<and> e = UnknownDependency (td_id (defs ! k)) i"
    then show ?thesis using dep by (simp add: id_index_None)
  next
    assume "id_index defs i = Some k \<and> e = SelfDependency (td_id (defs ! k))"
    then show ?thesis using dep assms(1) by (simp add: id_index_Some)
  qed
qed

lemma task_ids_at_map:
  "set c \<subseteq> {..<length defs} \<Longrightarrow> task_ids_at defs c = map (\<lambda>k. td_id (defs ! k)) c"
  by (induction c) (auto simp: task_ids_at_def List.map_filter_def)

lemma walk_map:
  "walk E c \<Longrightarrow> (\<And>a b. (a, b) \<in> E \<Longrightarrow> (f a, f b) \<in> F) \<Longrightarrow> walk F (map f c)"
  by (induction E c rule: walk.induct) auto

lemma walk_range: "walk (edges deps) (a # b # c) \<Longrightarrow> set (a # b # c) \<subseteq> {..<length deps}"
proof (induction c arbitrary: a b)
  case (Cons d c)
  then show ?case by (auto simp: edges_def)
qed (auto simp: edges_def)

lemma cycle_defect:
  assumes "distinct (ids defs)" and "deps_known defs" and "cycle_of (dep_graph defs) c"
  shows "defect defs (Cycle (task_ids_at defs c))"
proof -
  obtain a b c' where c: "c = a # b # c'"
    using assms(3) by (cases c; cases "tl c") (auto simp: cycle_of_def)
  have walk: "walk (edges (dep_graph defs)) c" and ends: "hd c = last c" and len: "2 \<le> length c"
    using assms(3) by (simp_all add: cycle_of_def)
  then have "set c \<subseteq> {..<length defs}" using walk_range c by fastforce
  then have ids: "task_ids_at defs c = map (\<lambda>k. td_id (defs ! k)) c" by (rule task_ids_at_map)
  have "walk (depends defs) (map (\<lambda>k. td_id (defs ! k)) c)"
  proof (rule walk_map [OF walk])
    fix k l assume kl: "(k, l) \<in> edges (dep_graph defs)"
    then have "k < length defs" by (simp add: edges_def)
    with kl show "(td_id (defs ! k), td_id (defs ! l)) \<in> depends defs"
      using dep_graph_edges [OF assms(1,2)] by blast
  qed
  moreover have "hd (map (\<lambda>k. td_id (defs ! k)) c) = last (map (\<lambda>k. td_id (defs ! k)) c)"
    using ends c by (simp add: last_map hd_map)
  ultimately show ?thesis using len by (simp add: ids)
qed

lemma read_sources_defect:
  assumes "distinct (ids defs)" and "deps_known defs" and "k < length defs"
    and "x \<in> set (texts (td_request (defs ! k)))" and "parse_template x = Inr s"
    and "read_sources (defs ! k) (dep_graph defs ! k) (id_index defs) (references s) acc = Inl e"
  shows "defect defs e"
proof -
  obtain r where r: "r \<in> set (references s)"
    and e: "or_task r = td_id (defs ! k) \<and> e = SelfOutput (td_id (defs ! k))
      \<or> id_index defs (or_task r) = None \<and> e = OutputOfUnknownTask (td_id (defs ! k)) (or_task r)
      \<or> (\<exists>l. id_index defs (or_task r) = Some l \<and> l \<notin> set (dep_graph defs ! k))
         \<and> e = OutputWithoutDependency (td_id (defs ! k)) (or_task r)"
    using read_sources_Inl [OF assms(6)] by blast
  have mem: "defs ! k \<in> set defs" and img: "or_task r \<in> or_task ` set (references s)"
    using assms(3) r by simp_all
  have "or_task r \<notin> set (td_depends_on (defs ! k))"
    if "\<exists>l. id_index defs (or_task r) = Some l \<and> l \<notin> set (dep_graph defs ! k)"
    using that source_ok_iff [OF assms(1-3), of r] by (auto simp: source_ok_def)
  moreover have "\<exists>x\<in>set (texts (td_request (defs ! k))). \<exists>s. parse_template x = Inr s
      \<and> or_task r \<in> or_task ` set (references s)"
    using assms(4,5) img by blast
  ultimately show ?thesis
    using e mem unfolding id_index_None by (elim disjE conjE; simp only: defect.simps; metis)
qed

lemma Workflow_try_from_defect:
  assumes "Workflow_try_from defs = Inl e"
  shows "defect defs e"
proof (cases "defs = []")
  case True
  with assms show ?thesis by (simp add: Workflow_try_from_def)
next
  case ne: False
  show ?thesis
  proof (cases "distinct (ids defs)")
    case False
    then obtain e' where "task_indexes defs = Inl e'"
      using task_indexes_Inr [of defs] by (cases "task_indexes defs") auto
    with assms ne show ?thesis by (auto simp: Workflow_try_from_def dest: task_indexes_defect)
  next
    case dist: True
    then have idx: "task_indexes defs = Inr (id_index defs)" by (simp add: task_indexes_Inr)
    show ?thesis
    proof (cases "resolve_all_dependencies defs (id_index defs)")
      case (Inl e')
      with assms ne idx show ?thesis
        using resolve_all_defect [OF dist] by (simp add: Workflow_try_from_def)
    next
      case (Inr deps)
      then have known: "deps_known defs" and deps: "deps = dep_graph defs"
        by (simp_all add: resolve_all_dependencies_Inr [OF dist])
      show ?thesis
      proof (cases "validate_acyclic deps")
        case (Inl c)
        with assms ne idx Inr show ?thesis
          using cycle_defect [OF dist known] validate_acyclic_cycle [OF Inl] deps
          by (auto simp: Workflow_try_from_def simp del: defect.simps)
      next
        case acyclic: (Inr u)
        then have "try_from_parts defs deps = Inl e"
          using assms ne idx Inr
          by (auto simp: Workflow_try_from_def try_from_parts_def and_then_Inl_iff)
        then obtain k where k: "k < length defs"
          and "read_texts (defs ! k) (dep_graph defs ! k) (id_index defs)
            (texts (td_request (defs ! k))) [] = Inl e"
          using deps by (auto simp: try_from_parts_def resolve_output_sources_def in_set_zip
              dest!: traverse_Inl_in)
        then obtain x where x: "x \<in> set (texts (td_request (defs ! k)))"
          and "(\<exists>e'. parse_template x = Inl e' \<and> e = InvalidTemplate (td_id (defs ! k)) e')
            \<or> (\<exists>s acc. parse_template x = Inr s \<and> read_sources (defs ! k) (dep_graph defs ! k)
                 (id_index defs) (references s) acc = Inl e)"
          using read_texts_Inl by blast
        then show ?thesis
        proof (elim disjE exE conjE)
          fix e' assume "parse_template x = Inl e'" and e: "e = InvalidTemplate (td_id (defs ! k)) e'"
          then have "\<exists>d\<in>set defs. td_id d = td_id (defs ! k)
              \<and> (\<exists>x\<in>set (texts (td_request d)). parse_template x = Inl e')"
            using nth_mem [OF k] x by blast
          then show ?thesis by (simp only: e defect.simps)
        qed (rule read_sources_defect [OF dist known k x])
      qed
    qed
  qed
qed

subsection \<open>Properties\<close>

text \<open>C1. A list of definitions becomes a workflow exactly when it is well formed: some task, no two
  tasks with one ID, known dependencies and none on itself, no dependency cycle, and only well-formed
  references to outputs of direct dependencies.\<close>

theorem try_from_accepts_exactly:
  "(\<exists>w. Workflow_try_from defs = Inr w) \<longleftrightarrow> definitions_ok defs"
  using Workflow_try_from_accepts Workflow_try_from_builds(1) by blast

text \<open>The workflow that is built holds the definitions in order with every name resolved, and is
  acyclic, with each task's reads among its dependencies.\<close>

theorem try_from_represents:
  assumes "Workflow_try_from defs = Inr w"
  shows "represents defs w \<and> workflow_ok w"
  using Workflow_try_from_builds [OF assms] represents_workflow_ok by blast

definition demo_defs :: "task_definition list" where
  "demo_defs =
     [TaskDefinition_new (TaskId ''a'') [] (CommandRequest ''ls'' []),
      TaskDefinition_new (TaskId ''b'') [TaskId ''a'']
        (CommandRequest ''echo'' [''{{ tasks.a.stdout }}''])]"

definition demo_workflow :: workflow where
  "demo_workflow =
     \<lparr>tasks =
       [\<lparr>t_id = TaskId ''a'', t_dependencies = [], t_reads = [],
         t_request = CommandRequest ''ls'' [], t_sandbox = None\<rparr>,
        \<lparr>t_id = TaskId ''b'', t_dependencies = [0], t_reads = [0],
         t_request = CommandRequest ''echo'' [''{{ tasks.a.stdout }}''], t_sandbox = None\<rparr>]\<rparr>"

lemma demo_try_from: "Workflow_try_from demo_defs = Inr demo_workflow"
  by code_simp

lemma demo_workflow_ok: "workflow_ok demo_workflow"
  using Workflow_try_from_builds [OF demo_try_from] represents_workflow_ok by blast

theorem try_from_represents_witness: "represents demo_defs demo_workflow \<and> workflow_ok demo_workflow"
  by (rule try_from_represents [OF demo_try_from])

text \<open>An error of \<open>TryFrom\<close> names a defect the definitions really have: the duplicate, the unknown
  or own dependency, a closed walk along declared dependencies, or the offending reference.\<close>

theorem try_from_error_real:
  assumes "Workflow_try_from defs = Inl e"
  shows "defect defs e"
  by (rule Workflow_try_from_defect [OF assms])

theorem try_from_error_real_witness:
  "defect
     [TaskDefinition_new (TaskId ''a'') [TaskId ''b''] (CommandRequest ''x'' []),
      TaskDefinition_new (TaskId ''b'') [TaskId ''a''] (CommandRequest ''y'' [])]
     (Cycle [TaskId ''a'', TaskId ''b'', TaskId ''a''])"
  by (rule try_from_error_real) code_simp

end
