(* ===== verification/Offset.thy ===== *)
theory Offset
  imports Text "HOL-Library.Word"
begin

text \<open>
  \<open>beez-schedule/src/error.rs\<close> and \<open>offset.rs\<close>: the errors of a schedule and a fixed offset from
  UTC. The offset is an \<open>i32\<close>, kept here as a word of 32 bits read by \<open>sint\<close>, whose arithmetic wraps
  as it does in a release build; a debug build panics on the same overflow.
\<close>

subsection \<open>Errors\<close>

datatype schedule_error =
    EmptySchedule
  | FieldCount nat
  | Expression string
  | SubMinute
  | DayOfWeek string
  | InvalidInstant string
  | InvalidOffset string

primrec ScheduleError_text :: "schedule_error \<Rightarrow> string" where
  "ScheduleError_text EmptySchedule = ''schedule must not be empty''"
| "ScheduleError_text (FieldCount count) =
     ''cron expression has '' @ dec count @
     '' fields, but needs 5 (minute hour day-of-month month day-of-week), 6 with leading seconds, or 7 with a trailing year''"
| "ScheduleError_text (Expression e) = e"
| "ScheduleError_text SubMinute =
     ''the seconds field must be one fixed value, so a schedule fires at most once a minute''"
| "ScheduleError_text (DayOfWeek v) =
     ''day of week '' @ v @ '' is not 0 to 7, where both 0 and 7 mean Sunday''"
| "ScheduleError_text (InvalidInstant v) =
     v @ '' is not an RFC 3339 date and time, such as 2026-09-10T03:00:00Z''"
| "ScheduleError_text (InvalidOffset v) =
     v @ '' is not a fixed offset from UTC, such as Z, +02:00, or -05:30''"

subsection \<open>The offset\<close>

definition LIMIT_SECONDS :: int where
  "LIMIT_SECONDS = 18 * 3600"

datatype utc_offset = UtcOffset (offset_seconds: "32 word")

definition UTC :: utc_offset where
  "UTC = UtcOffset 0"

text \<open>\<open>i32::abs\<close>: the least value is its own absolute value.\<close>

definition wrapping_abs :: "32 word \<Rightarrow> 32 word" where
  "wrapping_abs w = (if sint w < 0 then - w else w)"

text \<open>\<open>FixedOffset::east_opt\<close> of the crate chrono is the parameter \<open>east_opt\<close>.\<close>

definition fixed :: "(int \<Rightarrow> 'z option) \<Rightarrow> utc_offset \<Rightarrow> 'z option" where
  "fixed east_opt offset = east_opt (sint (offset_seconds offset))"

definition offset_sign :: "string \<Rightarrow> (32 word \<times> string) option" where
  "offset_sign v =
     (case v of
        c # rest \<Rightarrow>
          if c = CHR ''+'' then Some (1, rest)
          else if c = CHR ''-'' then Some (- 1, rest)
          else None
      | [] \<Rightarrow> None)"

definition offset_of_parts :: "string \<Rightarrow> 32 word \<Rightarrow> int \<Rightarrow> int \<Rightarrow> schedule_error + utc_offset" where
  "offset_of_parts v sign hours minutes =
     (if hours < 0 \<or> \<not> (0 \<le> minutes \<and> minutes \<le> 59) then Inl (InvalidOffset v)
      else let seconds = sign * (word_of_int hours * 3600 + word_of_int minutes * 60) in
           if LIMIT_SECONDS < sint (wrapping_abs seconds) then Inl (InvalidOffset v)
           else Inr (UtcOffset seconds))"

definition UtcOffset_from_str :: "string \<Rightarrow> schedule_error + utc_offset" where
  "UtcOffset_from_str v =
     (if v \<in> {''Z'', ''z'', ''UTC'', ''utc''} then Inr UTC
      else and_then (ok_or (InvalidOffset v) (offset_sign v)) (\<lambda>(sign, rest).
        let (hours, minutes) =
              (case split_once CHR '':'' rest of
                 Some (hours, minutes) \<Rightarrow> (hours, minutes)
               | None \<Rightarrow> (rest, ''0'')) in
        and_then (ok_or (InvalidOffset v) (parse_i32 hours)) (\<lambda>hours.
        and_then (ok_or (InvalidOffset v) (parse_i32 minutes)) (\<lambda>minutes.
          offset_of_parts v sign hours minutes))))"

text \<open>The format \<open>{:02}\<close> of an integer, whose width counts the sign.\<close>

definition two_digits :: "int \<Rightarrow> string" where
  "two_digits i =
     (if i < 0 then ''-'' @ pad_zero 1 (dec (nat (- i))) else pad_zero 2 (dec (nat i)))"

definition UtcOffset_text :: "utc_offset \<Rightarrow> string" where
  "UtcOffset_text offset =
     (if offset_seconds offset = 0 then ''Z''
      else let sign = (if sint (offset_seconds offset) < 0 then CHR ''-'' else CHR ''+'');
               total = sint (wrapping_abs (offset_seconds offset)) in
           [sign] @ two_digits (total div 3600) @ '':'' @ two_digits (total mod 3600 div 60))"

text \<open>The offsets the format can write: whole minutes, at most 18 hours.\<close>

definition offset_valid :: "utc_offset \<Rightarrow> bool" where
  "offset_valid offset \<longleftrightarrow>
     \<bar>sint (offset_seconds offset)\<bar> \<le> LIMIT_SECONDS \<and> 60 dvd sint (offset_seconds offset)"

subsection \<open>Round trip\<close>

lemma sint_small: "- 2147483648 \<le> i \<Longrightarrow> i < 2147483648 \<Longrightarrow> sint (word_of_int i :: 32 word) = i"
  by (simp add: sint_uint signed_take_bit_int_eq_self unsigned_of_int signed_take_bit_take_bit)

lemma pad_zero_digits [simp]: "list_all ascii_digit (pad_zero w (dec n))"
  by (auto simp: pad_zero_def list_all_iff ascii_digit_def byte_def
      dest: dec_digits [of n, unfolded list_all_iff, rule_format])

lemma pad_zero_dec_not_Nil [simp]: "pad_zero w (dec n) \<noteq> []"
  by (simp add: pad_zero_def)

lemma parse_i32_digits:
  assumes "list_all ascii_digit s" and "s \<noteq> []" and "undec s < 2147483648"
  shows "parse_i32 s = Some (int (undec s))"
proof -
  obtain c t where s: "s = c # t" using assms(2) by (cases s) auto
  then have "c \<noteq> CHR ''+'' \<and> c \<noteq> CHR ''-''"
    using assms(1) by (auto simp: ascii_digit_def byte_def)
  with s assms show ?thesis by (simp add: parse_i32_def parse_digits_def)
qed

lemma parse_i32_pad_zero: "n < 2147483648 \<Longrightarrow> parse_i32 (pad_zero w (dec n)) = Some (int n)"
  by (subst parse_i32_digits) simp_all

lemma digits_without: "list_all ascii_digit s \<Longrightarrow> \<not> ascii_digit c \<Longrightarrow> c \<notin> set s"
  by (auto simp: list_all_iff)

lemma two_digits_pos: "0 \<le> i \<Longrightarrow> two_digits i = pad_zero 2 (dec (nat i))"
  by (simp add: two_digits_def)

lemma sint_wrapping_abs:
  assumes "\<bar>sint w\<bar> < 2147483648" shows "sint (wrapping_abs w) = \<bar>sint w\<bar>"
proof (cases "sint w < 0")
  case True
  have "sint (word_of_int (- sint w) :: 32 word) = - sint w"
    using assms True by (intro sint_small) auto
  moreover have "word_of_int (- sint w) = - w" by simp
  ultimately show ?thesis using True by (simp add: wrapping_abs_def)
qed (simp add: wrapping_abs_def)

text \<open>What is read from a sign, hours and minutes whose product does not overflow.\<close>

lemma from_str_of_parts:
  assumes sign: "c = CHR ''+'' \<and> s = 1 \<or> c = CHR ''-'' \<and> s = - 1"
    and h: "CHR '':'' \<notin> set h" "parse_i32 h = Some hours" "0 \<le> hours" "hours \<le> 18"
    and m: "parse_i32 m = Some minutes" "0 \<le> minutes" "minutes \<le> 59"
    and limit: "hours * 3600 + minutes * 60 \<le> LIMIT_SECONDS"
  shows "UtcOffset_from_str (c # h @ CHR '':'' # m) =
           Inr (UtcOffset (word_of_int (s * (hours * 3600 + minutes * 60))))"
proof -
  let ?n = "s * (hours * 3600 + minutes * 60)"
  have abs: "\<bar>?n\<bar> \<le> LIMIT_SECONDS" using sign h(3) m(2) limit by (auto simp: abs_mult)
  have n: "sint (word_of_int ?n :: 32 word) = ?n"
    using abs by (intro sint_small) (auto simp: LIMIT_SECONDS_def)
  have w: "word_of_int s * (word_of_int hours * 3600 + word_of_int minutes * 60)
             = (word_of_int ?n :: 32 word)"
    by simp
  have "sint (wrapping_abs (word_of_int ?n)) = \<bar>?n\<bar>"
    using sint_wrapping_abs [of "word_of_int ?n"] n abs by (simp add: LIMIT_SECONDS_def)
  then have fits: "\<not> LIMIT_SECONDS < sint (wrapping_abs (word_of_int ?n))" using abs by simp
  have name: "c # h @ CHR '':'' # m \<notin> {''Z'', ''z'', ''UTC'', ''utc''}"
    using sign by auto
  have sgn: "offset_sign (c # h @ CHR '':'' # m) = Some (word_of_int s, h @ CHR '':'' # m)"
    using sign by (auto simp: offset_sign_def)
  have "UtcOffset_from_str (c # h @ CHR '':'' # m) =
      offset_of_parts (c # h @ CHR '':'' # m) (word_of_int s) hours minutes"
    unfolding UtcOffset_from_str_def if_not_P [OF name] sgn
    using h m by (simp add: split_once_append [OF h(1)])
  also have "\<dots> = Inr (UtcOffset (word_of_int ?n))"
    unfolding offset_of_parts_def w using h m fits by (simp add: Let_def)
  finally show ?thesis .
qed

lemma offset_reads_back:
  assumes "offset_valid x" shows "UtcOffset_from_str (UtcOffset_text x) = Inr x"
proof (cases "offset_seconds x = 0")
  case True
  then show ?thesis by (cases x) (simp add: UtcOffset_text_def UtcOffset_from_str_def UTC_def)
next
  case False
  let ?i = "sint (offset_seconds x)" and ?n = "\<bar>sint (offset_seconds x)\<bar>"
  let ?h = "?n div 3600" and ?m = "?n mod 3600 div 60"
  have n: "?n \<le> 64800" "60 dvd ?n" using assms by (auto simp: offset_valid_def LIMIT_SECONDS_def)
  have parts: "i div 3600 * 3600 + i mod 3600 div 60 * 60 = i" "0 \<le> i div 3600" "i div 3600 \<le> 18"
      "0 \<le> i mod 3600 div 60" "i mod 3600 div 60 \<le> 59"
    if i: "0 \<le> i" "i \<le> 64800" "60 dvd i" for i :: int
  proof -
    have "60 dvd i mod 3600" using i(3) by (simp add: dvd_mod_iff)
    then show "i div 3600 * 3600 + i mod 3600 div 60 * 60 = i" by simp
    have "i mod 3600 < 3600" "0 \<le> i mod 3600" by simp_all
    then show "0 \<le> i mod 3600 div 60" "i mod 3600 div 60 \<le> 59" by linarith+
    show "0 \<le> i div 3600" "i div 3600 \<le> 18" using i(1,2) by linarith+
  qed
  have whole: "?h * 3600 + ?m * 60 = ?n" and bounds: "0 \<le> ?h" "?h \<le> 18" "0 \<le> ?m" "?m \<le> 59"
    by (rule parts; use n in simp)+
  define c where "c = (if ?i < 0 then CHR ''-'' else CHR ''+'')"
  define s :: int where "s = (if ?i < 0 then - 1 else 1)"
  have "sint (wrapping_abs (offset_seconds x)) = ?n" using n(1) by (intro sint_wrapping_abs) simp
  then have written: "UtcOffset_text x =
      c # pad_zero 2 (dec (nat ?h)) @ CHR '':'' # pad_zero 2 (dec (nat ?m))"
    unfolding UtcOffset_text_def Let_def c_def if_not_P [OF False]
    by (simp only: two_digits_pos [OF bounds(1)] two_digits_pos [OF bounds(3)] append_Cons append_Nil)
  have "UtcOffset_from_str (UtcOffset_text x) = Inr (UtcOffset (word_of_int (s * (?h * 3600 + ?m * 60))))"
    unfolding written
  proof (rule from_str_of_parts)
    show "c = CHR ''+'' \<and> s = 1 \<or> c = CHR ''-'' \<and> s = - 1" by (simp add: c_def s_def)
    show "CHR '':'' \<notin> set (pad_zero 2 (dec (nat ?h)))"
      by (rule digits_without) (simp_all add: ascii_digit_def byte_def)
    show "parse_i32 (pad_zero 2 (dec (nat ?h))) = Some ?h"
      using bounds(1,2) by (subst parse_i32_pad_zero) (linarith, simp)
    show "parse_i32 (pad_zero 2 (dec (nat ?m))) = Some ?m"
      using bounds(3,4) by (subst parse_i32_pad_zero) (linarith, simp)
    show "?h * 3600 + ?m * 60 \<le> LIMIT_SECONDS" using whole n(1) by (simp add: LIMIT_SECONDS_def)
  qed (use bounds in simp_all)
  also have "s * (?h * 3600 + ?m * 60) = ?i" unfolding whole by (simp add: s_def)
  finally show ?thesis by (cases x) simp
qed

interpretation offsets: text_codec UtcOffset_text UtcOffset_from_str offset_valid
  by unfold_locales (rule offset_reads_back)

text \<open>Every offset of whole minutes within 18 hours is read back as it was written.\<close>

theorem offset_roundtrip: "offset_valid x \<Longrightarrow> UtcOffset_from_str (UtcOffset_text x) = Inr x"
  by (rule offsets.parse_emit)

theorem offset_roundtrip_witness:
  "UtcOffset_from_str (UtcOffset_text (UtcOffset (word_of_int (- 19800)))) =
     Inr (UtcOffset (word_of_int (- 19800)))"
  by (rule offset_roundtrip) (simp add: offset_valid_def LIMIT_SECONDS_def)

subsection \<open>Overflow\<close>

lemma overflow_small:
  "UtcOffset_from_str ''+1193047'' = Inr (UtcOffset 1904)"
proof -
  have "parse_i32 ''1193047'' = Some 1193047" "parse_i32 ''0'' = Some 0"
    by (simp_all add: parse_i32_def parse_digits_def undec_def digit_value_def ascii_digit_def byte_def)
  moreover have "offset_of_parts ''+1193047'' 1 1193047 0 = Inr (UtcOffset 1904)"
    by (simp add: offset_of_parts_def wrapping_abs_def LIMIT_SECONDS_def)
  moreover have no: "split_once CHR '':'' ''1193047'' = None" unfolding split_once_None_iff by simp
  ultimately show ?thesis by (simp add: UtcOffset_from_str_def offset_sign_def split_once_def)
qed

lemma overflow_least:
  "UtcOffset_from_str ''+8947848:32'' = Inr (UtcOffset (word_of_int (- 2147483648)))"
proof -
  have "parse_i32 ''8947848'' = Some 8947848" "parse_i32 ''32'' = Some 32"
    by (simp_all add: parse_i32_def parse_digits_def undec_def digit_value_def ascii_digit_def byte_def)
  moreover have "split_once CHR '':'' ''8947848:32'' = Some (''8947848'', ''32'')"
    by (simp add: split_once_Some_iff)
  moreover have "offset_of_parts ''+8947848:32'' 1 8947848 32 = Inr (UtcOffset (word_of_int (- 2147483648)))"
    by (simp add: offset_of_parts_def wrapping_abs_def LIMIT_SECONDS_def)
  ultimately show ?thesis by (simp add: UtcOffset_from_str_def offset_sign_def)
qed

text \<open>The limit of 18 hours can be passed by overflow.
  The product \<open>hours * 3_600\<close> is taken before the limit is checked, so an hour count that overflows it
  can pass: 1193047 hours is read as 1904 seconds, and 8947848 hours and 32 minutes as the least
  \<open>i32\<close>, whose absolute value is negative.
\<close>

theorem offset_overflow_accepted:
  "UtcOffset_from_str ''+1193047'' = Inr (UtcOffset 1904) \<and>
   UtcOffset_from_str ''+8947848:32'' = Inr (UtcOffset (word_of_int (- 2147483648)))"
  by (simp add: overflow_small overflow_least)

end
