(* ===== verification/Cron.thy ===== *)
theory Cron
  imports Offset
begin

text \<open>
  \<open>beez-schedule/src/cron_schedule.rs\<close>: a crontab expression, moved to the Quartz form that the crate
  cron reads. An instant (\<open>SystemTime\<close>) is a whole number of nanoseconds since 1970.

  The crates cron and chrono are parameters, gathered in the record \<open>calendar\<close>: how an expression is
  parsed, the first instant a parsed expression matches after another one in an offset, the fixed
  offset of a number of seconds, and how an instant is read and written.
\<close>

type_synonym instant = int

record ('p, 'z) calendar =
  parse_expression :: "string \<Rightarrow> string + 'p"
  first_after :: "'p \<Rightarrow> 'z \<Rightarrow> instant \<Rightarrow> instant option"
  east_opt :: "int \<Rightarrow> 'z option"
  parse_rfc3339 :: "string \<Rightarrow> instant option"
  utc_text :: "instant \<Rightarrow> string"

definition SECONDS :: nat where "SECONDS = 0"

definition DAY_OF_MONTH :: nat where "DAY_OF_MONTH = 3"

definition DAY_OF_WEEK :: nat where "DAY_OF_WEEK = 5"

record 'p cron_schedule =
  cs_text :: string
  cs_offset :: utc_offset
  cs_primary :: 'p
  cs_alternate :: "'p option"

subsection \<open>The Quartz form\<close>

definition is_number :: "string \<Rightarrow> bool" where
  "is_number s \<longleftrightarrow> s \<noteq> [] \<and> list_all ascii_digit s"

definition restricts :: "string \<Rightarrow> bool" where
  "restricts field \<longleftrightarrow> field \<noteq> ''*'' \<and> field \<noteq> ''?''"

definition shift_day_of_week :: "string \<Rightarrow> schedule_error + string" where
  "shift_day_of_week day =
     (if \<not> is_number day then Inr day
      else and_then (ok_or (DayOfWeek day) (parse_unsigned (2 ^ 32 - 1) day)) (\<lambda>number.
        if 7 < number then Inl (DayOfWeek day) else Inr (dec (number mod 7 + 1))))"

definition shift_term :: "string \<Rightarrow> schedule_error + string" where
  "shift_term term =
     (let (days, step) =
            (case split_once CHR ''/'' term of
               Some (days, step) \<Rightarrow> (days, Some step)
             | None \<Rightarrow> (term, None)) in
      and_then (traverse shift_day_of_week (split_at_char CHR ''-'' days)) (\<lambda>days.
        case step of
          Some step \<Rightarrow> Inr (join ''-'' days @ ''/'' @ step)
        | None \<Rightarrow> Inr (join ''-'' days)))"

definition shift_days_of_week :: "string \<Rightarrow> schedule_error + string" where
  "shift_days_of_week field =
     and_then (traverse shift_term (split_at_char CHR '','' field)) (\<lambda>terms. Inr (join '','' terms))"

definition normalize :: "string \<Rightarrow> schedule_error + string list" where
  "normalize text =
     (let fields = split_whitespace text;
          count = length fields in
      and_then (if count = 5 then Inr (''0'' # fields)
                else if count = 6 \<or> count = 7 then Inr fields
                else Inl (FieldCount count)) (\<lambda>fields.
        if \<not> (case get_at fields SECONDS of Some field \<Rightarrow> is_number field | None \<Rightarrow> False)
        then Inl SubMinute
        else traverse (\<lambda>(position, field).
               if position = DAY_OF_WEEK then shift_days_of_week field else Inr field)
               (enumerate 0 fields)))"

definition with_field :: "string list \<Rightarrow> nat \<Rightarrow> string \<Rightarrow> string" where
  "with_field columns position v =
     join '' '' (map (\<lambda>(index, field). if index = position then v else field) (enumerate 0 columns))"

subsection \<open>Schedules\<close>

definition parse_cron :: "('p, 'z, 'm) calendar_scheme \<Rightarrow> string \<Rightarrow> schedule_error + 'p" where
  "parse_cron cal expression = map_err Expression (parse_expression cal expression)"

definition field_at :: "string list \<Rightarrow> nat \<Rightarrow> string" where
  "field_at columns position = (case get_at columns position of Some field \<Rightarrow> field | None \<Rightarrow> ''*'')"

definition CronSchedule_new ::
    "('p, 'z, 'm) calendar_scheme \<Rightarrow> string \<Rightarrow> utc_offset \<Rightarrow> schedule_error + 'p cron_schedule" where
  "CronSchedule_new cal expression offset =
     (let text = trim expression in
      if text = [] then Inl EmptySchedule
      else and_then
        (if hd text = CHR ''@'' then
           and_then (parse_cron cal text) (\<lambda>primary. Inr (primary, None))
         else
           and_then (normalize text) (\<lambda>fields.
             if restricts (field_at fields DAY_OF_MONTH) \<and> restricts (field_at fields DAY_OF_WEEK) then
               and_then (parse_cron cal (with_field fields DAY_OF_WEEK ''*'')) (\<lambda>primary.
               and_then (parse_cron cal (with_field fields DAY_OF_MONTH ''*'')) (\<lambda>alternate.
                 Inr (primary, Some alternate)))
             else and_then (parse_cron cal (join '' '' fields)) (\<lambda>primary. Inr (primary, None))))
        (\<lambda>(primary, alternate).
           Inr \<lparr>cs_text = text, cs_offset = offset, cs_primary = primary, cs_alternate = alternate\<rparr>))"

definition CronSchedule_from_str ::
    "('p, 'z, 'm) calendar_scheme \<Rightarrow> string \<Rightarrow> schedule_error + 'p cron_schedule" where
  "CronSchedule_from_str cal expression = CronSchedule_new cal expression UTC"

definition cron_next_after ::
    "('p, 'z, 'm) calendar_scheme \<Rightarrow> 'p cron_schedule \<Rightarrow> instant \<Rightarrow> instant option" where
  "cron_next_after cal schedule time =
     (case fixed (east_opt cal) (cs_offset schedule) of
        None \<Rightarrow> None
      | Some zone \<Rightarrow>
          let primary = first_after cal (cs_primary schedule) zone time;
              alternate = Option.bind (cs_alternate schedule) (\<lambda>s. first_after cal s zone time) in
          (case (primary, alternate) of
             (Some primary, Some alternate) \<Rightarrow> Some (min primary alternate)
           | (Some next, None) \<Rightarrow> Some next
           | (None, Some next) \<Rightarrow> Some next
           | (None, None) \<Rightarrow> None))"

text \<open>Equality of schedules compares how they are written, never the parsed halves.\<close>

definition cron_eq :: "'p cron_schedule \<Rightarrow> 'p cron_schedule \<Rightarrow> bool" where
  "cron_eq x y \<longleftrightarrow> cs_text x = cs_text y \<and> cs_offset x = cs_offset y"

definition CronSchedule_text :: "'p cron_schedule \<Rightarrow> string" where
  "CronSchedule_text s =
     cs_text s @ (if cs_offset s \<noteq> UTC then '' '' @ UtcOffset_text (cs_offset s) else [])"


subsection \<open>Days of week\<close>

text \<open>
  What a day-of-week field means: to a crontab, whose Sunday is 0 and 7, and to the Quartz form, whose
  Sunday is 1. Days are counted from Sunday as 0 in both readings.
\<close>

datatype day_term =
    Every
  | Named string
  | Day nat
  | Days nat nat
  | Stepped nat nat nat

primrec day_text :: "day_term \<Rightarrow> string" where
  "day_text Every = ''*''"
| "day_text (Named name) = name"
| "day_text (Day n) = dec n"
| "day_text (Days a b) = dec a @ ''-'' @ dec b"
| "day_text (Stepped a b k) = dec a @ ''-'' @ dec b @ ''/'' @ dec k"

primrec crontab_days :: "day_term \<Rightarrow> nat set" where
  "crontab_days Every = {0..6}"
| "crontab_days (Named name) = {}"
| "crontab_days (Day n) = {n mod 7}"
| "crontab_days (Days a b) = (\<lambda>d. d mod 7) ` {a..b}"
| "crontab_days (Stepped a b k) = (\<lambda>d. d mod 7) ` {d \<in> {a..b}. k dvd d - a}"

primrec quartz_days :: "day_term \<Rightarrow> nat set" where
  "quartz_days Every = {0..6}"
| "quartz_days (Named name) = {}"
| "quartz_days (Day n) = {n - 1}"
| "quartz_days (Days a b) = (\<lambda>d. d - 1) ` {a..b}"
| "quartz_days (Stepped a b k) = (\<lambda>d. d - 1) ` {d \<in> {a..b}. k dvd d - a}"

primrec day_term_ok :: "day_term \<Rightarrow> bool" where
  "day_term_ok Every = True"
| "day_term_ok (Named name) = (name \<noteq> [] \<and> (\<forall>c\<in>set name. \<not> ascii_digit c \<and> c \<notin> set '',-/''))"
| "day_term_ok (Day n) = (n \<le> 7)"
| "day_term_ok (Days a b) = (a \<le> b \<and> b \<le> 6)"
| "day_term_ok (Stepped a b k) = (a \<le> b \<and> b \<le> 6 \<and> 0 < k)"

primrec shifted :: "day_term \<Rightarrow> day_term" where
  "shifted Every = Every"
| "shifted (Named name) = Named name"
| "shifted (Day n) = Day (n mod 7 + 1)"
| "shifted (Days a b) = Days (a + 1) (b + 1)"
| "shifted (Stepped a b k) = Stepped (a + 1) (b + 1) k"

lemma shift_number: "n \<le> 7 \<Longrightarrow> shift_day_of_week (dec n) = Inr (dec (n mod 7 + 1))"
  by (simp add: shift_day_of_week_def is_number_def)

lemma shift_name: "\<not> is_number s \<Longrightarrow> shift_day_of_week s = Inr s"
  by (simp add: shift_day_of_week_def)

lemma not_in_dec: "\<not> ascii_digit c \<Longrightarrow> c \<notin> set (dec n)"
  by (rule digits_without) simp_all

lemma punctuation [simp]:
  "\<not> ascii_digit CHR '',''" "\<not> ascii_digit CHR ''-''" "\<not> ascii_digit CHR ''/''"
  "\<not> ascii_digit CHR ''*''"
  by (simp_all add: ascii_digit_def byte_def)

lemma split_days: "split_at_char CHR ''-'' (dec a @ CHR ''-'' # dec b) = [dec a, dec b]"
  using split_join [of "[dec a, dec b]" "CHR ''-''"] by (simp add: not_in_dec)

lemma split_one: "c \<notin> set s \<Longrightarrow> split_at_char c s = [s]"
  using split_join [of "[s]" c] by simp

lemma shift_term_text: "day_term_ok t \<Longrightarrow> shift_term (day_text t) = Inr (day_text (shifted t))"
proof (cases t)
  case Every
  then show ?thesis
    by (simp add: shift_term_def split_once_def split_one shift_name is_number_def)
next
  case (Named name)
  assume ok: "day_term_ok t"
  have no: "split_once CHR ''/'' name = None" using ok Named by auto
  have name: "CHR ''-'' \<notin> set name" "\<not> is_number name"
    using ok Named by (auto simp: is_number_def list_all_iff neq_Nil_conv)
  show ?thesis unfolding Named using name by (simp add: shift_term_def no split_one shift_name)
next
  case (Day n)
  assume ok: "day_term_ok t"
  have no: "split_once CHR ''/'' (dec n) = None" by (simp add: not_in_dec)
  show ?thesis using ok unfolding Day
    by (simp add: shift_term_def no split_one not_in_dec shift_number)
next
  case (Days a b)
  assume ok: "day_term_ok t"
  have no: "split_once CHR ''/'' (dec a @ CHR ''-'' # dec b) = None" by (simp add: not_in_dec)
  show ?thesis using ok unfolding Days
    by (simp add: shift_term_def no split_days shift_number)
next
  case (Stepped a b k)
  assume ok: "day_term_ok t"
  have yes: "split_once CHR ''/'' (dec a @ CHR ''-'' # dec b @ CHR ''/'' # dec k) =
      Some (dec a @ CHR ''-'' # dec b, dec k)"
    by (simp add: split_once_Some_iff not_in_dec)
  show ?thesis using ok unfolding Stepped
    by (simp add: shift_term_def yes split_days shift_number)
qed

lemma comma_not_in_day_text: "day_term_ok t \<Longrightarrow> CHR '','' \<notin> set (day_text t)"
  by (cases t) (auto simp: not_in_dec)

lemma minus_one_image: "(\<lambda>d. d - 1) ` {d \<in> {Suc a..Suc b}. P (d - Suc a)} = {d \<in> {a..b}. P (d - a)}"
  by (force simp: image_iff)

lemma minus_one_range: "(\<lambda>d. d - 1) ` {Suc a..Suc b} = {a..b}"
  by (force simp: image_iff)

lemma shifted_days: "day_term_ok t \<Longrightarrow> quartz_days (shifted t) = crontab_days t"
proof (cases t)
  case (Days a b)
  assume ok: "day_term_ok t"
  have "(\<lambda>d. d mod 7) ` {a..b} = (\<lambda>d. d) ` {a..b}"
    using ok Days by (intro image_cong) auto
  then show ?thesis unfolding Days using minus_one_range [of a b] by simp
next
  case (Stepped a b k)
  assume ok: "day_term_ok t"
  have "(\<lambda>d. d mod 7) ` {d \<in> {a..b}. k dvd d - a} = (\<lambda>d. d) ` {d \<in> {a..b}. k dvd d - a}"
    using ok Stepped by (intro image_cong) auto
  then show ?thesis using minus_one_image [of a b "\<lambda>n. k dvd n"] Stepped by simp
qed auto



lemma days_five_to_seven: "shift_days_of_week (day_text (Days 5 7)) = Inr (day_text (Days 6 1))"
proof -
  have no: "split_once CHR ''/'' (dec 5 @ CHR ''-'' # dec 7) = None" by (simp add: not_in_dec)
  have "CHR '','' \<notin> set (dec 5 @ CHR ''-'' # dec 7)" by (simp add: not_in_dec)
  then show ?thesis
    by (simp add: shift_days_of_week_def split_one shift_term_def no split_days shift_number)
qed

text \<open>A range that ends in 7 does not keep its days: Friday to Sunday is written as a range from
  6 to 1, which holds no day.\<close>

theorem range_to_seven_reversed:
  "shift_days_of_week (day_text (Days 5 7)) = Inr (day_text (Days 6 1)) \<and>
   crontab_days (Days 5 7) = {5, 6, 0} \<and> quartz_days (Days 6 1) = {}"
proof -
  have "{5..7} = {5, 6, 7 :: nat}" by auto
  then show ?thesis by (simp add: days_five_to_seven del: day_text.simps)
qed


subsection \<open>Accepted expressions\<close>

lemma traverse_enumerate:
  "traverse (\<lambda>(i, x). f i x) (enumerate n xs) = Inr ys \<longleftrightarrow>
     length ys = length xs \<and> (\<forall>i<length xs. f (n + i) (xs ! i) = Inr (ys ! i))"
  by (auto simp: traverse_Inr_iff list_all2_conv_all_nth nth_enumerate_eq)

lemma normalize_fields:
  assumes "normalize text = Inr fs"
  shows "length fs \<in> {6, 7}" and "is_number (fs ! 0)"
proof -
  let ?ws = "split_whitespace text"
  obtain gs where gs: "gs = (if length ?ws = 5 then ''0'' # ?ws else ?ws)" and "length gs \<in> {6, 7}"
    and number: "is_number (gs ! 0)"
    and fs: "traverse (\<lambda>(position, field). if position = DAY_OF_WEEK then shift_days_of_week field
               else Inr field) (enumerate 0 gs) = Inr fs"
    using assms
    by (auto simp: normalize_def Let_def and_then_Inr_iff SECONDS_def split: if_splits option.splits)
  then have "length fs = length gs" and "gs \<noteq> []" by (auto simp: traverse_enumerate)
  with fs \<open>length gs \<in> {6, 7}\<close> have "fs ! 0 = gs ! 0"
    by (auto simp: traverse_enumerate DAY_OF_WEEK_def)
  with number show "is_number (fs ! 0)" by simp
  show "length fs \<in> {6, 7}" using \<open>length fs = length gs\<close> \<open>length gs \<in> {6, 7}\<close> by simp
qed

lemma CronSchedule_new_written:
  "CronSchedule_new cal e offset = Inr s \<Longrightarrow> cs_text s = trim e \<and> cs_text s \<noteq> [] \<and> cs_offset s = offset"
  by (auto simp: CronSchedule_new_def Let_def and_then_Inr_iff split: if_splits)

lemma CronSchedule_text_utc [simp]: "cs_offset s = UTC \<Longrightarrow> CronSchedule_text s = cs_text s"
  by (simp add: CronSchedule_text_def)

text \<open>Every accepted expression that is not a macro reaches the parser with six or seven fields whose
  first, the second of the minute, is one fixed number, so a schedule fires at most once a minute; and
  when it restricts the day of month and the day of week it becomes two expressions, each with one of
  the two fields open.
\<close>

theorem accepted_expression_parts:
  assumes "CronSchedule_new cal e offset = Inr s" and "hd (trim e) \<noteq> CHR ''@''"
  shows "\<exists>fs. normalize (trim e) = Inr fs \<and> length fs \<in> {6, 7} \<and> is_number (fs ! 0) \<and>
    (if restricts (field_at fs DAY_OF_MONTH) \<and> restricts (field_at fs DAY_OF_WEEK)
     then parse_expression cal (with_field fs DAY_OF_WEEK ''*'') = Inr (cs_primary s) \<and>
       (\<exists>p. cs_alternate s = Some p \<and> parse_expression cal (with_field fs DAY_OF_MONTH ''*'') = Inr p)
     else parse_expression cal (join '' '' fs) = Inr (cs_primary s) \<and> cs_alternate s = None)"
proof -
  obtain fs where fs: "normalize (trim e) = Inr fs"
    using assms by (auto simp: CronSchedule_new_def Let_def and_then_Inr_iff split: if_splits)
  with assms show ?thesis using normalize_fields [OF fs]
    by (intro exI [of _ fs])
      (auto simp: CronSchedule_new_def Let_def and_then_Inr_iff parse_cron_def map_err_Inr_iff split: if_splits)
qed

definition demo_calendar :: "(string, unit) calendar" where
  "demo_calendar = \<lparr>parse_expression = Inr, first_after = (\<lambda>p z t. Some (10 * (t div 10) + 10)),
     east_opt = (\<lambda>_. Some ()), parse_rfc3339 = (\<lambda>_. None), utc_text = (\<lambda>_. [])\<rparr>"

theorem accepted_expression_parts_witness:
  "\<exists>s fs. CronSchedule_new demo_calendar ''0 3 13 * Fri'' UTC = Inr s \<and>
     normalize (trim ''0 3 13 * Fri'') = Inr fs \<and> is_number (fs ! 0)"
proof -
  obtain s where s: "CronSchedule_new demo_calendar ''0 3 13 * Fri'' UTC = Inr s"
    and "hd (trim ''0 3 13 * Fri'') \<noteq> CHR ''@''"
  proof
    show "CronSchedule_new demo_calendar ''0 3 13 * Fri'' UTC =
      Inr \<lparr>cs_text = ''0 3 13 * Fri'', cs_offset = UTC, cs_primary = ''0 0 3 13 * *'',
        cs_alternate = Some ''0 0 3 * * Fri''\<rparr>"
      by code_simp
    show "hd (trim ''0 3 13 * Fri'') \<noteq> CHR ''@''" by code_simp
  qed
  from accepted_expression_parts [OF this] s show ?thesis by blast
qed

subsection \<open>The next fire\<close>

text \<open>
  The contract of what fires: \<open>next t\<close> is the first instant after \<open>t\<close> at which it matches.
\<close>

definition first_match :: "(instant \<Rightarrow> bool) \<Rightarrow> instant \<Rightarrow> instant \<Rightarrow> bool" where
  "first_match matches t u \<longleftrightarrow> t < u \<and> matches u \<and> (\<forall>v. t < v \<and> v < u \<longrightarrow> \<not> matches v)"

primrec fires :: "(instant \<Rightarrow> instant option) \<Rightarrow> nat \<Rightarrow> instant \<Rightarrow> instant list" where
  "fires next_fire 0 t = []"
| "fires next_fire (Suc n) t =
     (case next_fire t of None \<Rightarrow> [] | Some u \<Rightarrow> u # fires next_fire n u)"

locale firing =
  fixes next_fire :: "instant \<Rightarrow> instant option"
    and matches :: "instant \<Rightarrow> bool"
  assumes next_fire_iff: "next_fire t = Some u \<longleftrightarrow> first_match matches t u"
begin

lemma next_later: "next_fire t = Some u \<Longrightarrow> t < u"
  by (simp add: next_fire_iff first_match_def)

lemma next_matches: "next_fire t = Some u \<Longrightarrow> matches u"
  by (simp add: next_fire_iff first_match_def)

lemma next_skips_none: "next_fire t = Some u \<Longrightarrow> t < v \<Longrightarrow> v < u \<Longrightarrow> \<not> matches v"
  by (auto simp: next_fire_iff first_match_def)

lemma next_None_iff: "next_fire t = None \<longleftrightarrow> (\<forall>v. t < v \<longrightarrow> \<not> matches v)"
proof
  assume none: "next_fire t = None"
  show "\<forall>v. t < v \<longrightarrow> \<not> matches v"
  proof (intro allI impI notI)
    fix v assume v: "t < v" "matches v"
    define P where "P k \<longleftrightarrow> matches (t + 1 + int k)" for k
    let ?k = "LEAST k. P k"
    have "P (nat (v - t - 1))" using v by (simp add: P_def)
    then have "P ?k" by (rule LeastI)
    then have found: "matches (t + 1 + int ?k)" by (simp add: P_def)
    have gap: "\<not> matches w" if w: "t < w" "w < t + 1 + int ?k" for w
    proof -
      have "nat (w - t - 1) < ?k" using w by linarith
      then have "\<not> P (nat (w - t - 1))" by (rule not_less_Least)
      with w(1) show ?thesis by (simp add: P_def)
    qed
    have "t < t + 1 + int ?k" by simp
    with found gap have "first_match matches t (t + 1 + int ?k)"
      unfolding first_match_def by blast
    then have "next_fire t = Some (t + 1 + int ?k)" by (rule next_fire_iff [THEN iffD2])
    with none show False by simp
  qed
next
  assume "\<forall>v. t < v \<longrightarrow> \<not> matches v"
  then show "next_fire t = None"
    by (cases "next_fire t") (auto simp: next_fire_iff first_match_def)
qed

lemma fires_increase: "sorted_wrt (<) (t # fires next_fire n t)"
proof (induction n arbitrary: t)
  case (Suc n)
  show ?case
  proof (cases "next_fire t")
    case (Some u)
    have "t < u" using Some by (rule next_later)
    with Suc.IH [of u] Some show ?thesis by fastforce
  qed simp
qed simp

lemma fires_exact:
  "set (fires next_fire n t) = {v. t < v \<and> matches v \<and> (\<exists>w\<in>set (fires next_fire n t). v \<le> w)}"
proof (induction n arbitrary: t)
  case (Suc n)
  show ?case
  proof (cases "next_fire t")
    case (Some u)
    have u: "t < u" "matches u" and gap: "\<And>v. t < v \<Longrightarrow> v < u \<Longrightarrow> \<not> matches v"
      using next_later [OF Some] next_matches [OF Some] next_skips_none [OF Some] by auto
    have later: "\<forall>w\<in>set (fires next_fire n u). u < w" using fires_increase [of u n] by simp
    have "v \<in> set (u # fires next_fire n u) \<longleftrightarrow>
        t < v \<and> matches v \<and> (\<exists>w\<in>set (u # fires next_fire n u). v \<le> w)" for v
    proof (cases v u rule: linorder_cases)
      case less
      with gap [of v] later show ?thesis by auto
    next
      case equal
      with u show ?thesis by auto
    next
      case greater
      with u Suc.IH [of u] show ?thesis by auto
    qed
    with Some show ?thesis by auto
  qed simp
qed simp

end

text \<open>
  What a schedule matches, given what the parsed expressions match, and the documented behaviour of
  the crate: \<open>after(&start).next()\<close> is the first match after \<open>start\<close>.
\<close>

definition finds_first_match ::
    "('p, 'z, 'm) calendar_scheme \<Rightarrow> ('p \<Rightarrow> 'z \<Rightarrow> instant \<Rightarrow> bool) \<Rightarrow> bool" where
  "finds_first_match cal matches \<longleftrightarrow>
     (\<forall>p z t u. first_after cal p z t = Some u \<longleftrightarrow> first_match (matches p z) t u)"

definition cron_matches ::
    "('p, 'z, 'm) calendar_scheme \<Rightarrow> ('p \<Rightarrow> 'z \<Rightarrow> instant \<Rightarrow> bool) \<Rightarrow> 'p cron_schedule \<Rightarrow> instant \<Rightarrow> bool" where
  "cron_matches cal matches s u \<longleftrightarrow>
     (case fixed (east_opt cal) (cs_offset s) of
        None \<Rightarrow> False
      | Some zone \<Rightarrow> matches (cs_primary s) zone u \<or>
          (case cs_alternate s of None \<Rightarrow> False | Some p \<Rightarrow> matches p zone u))"

lemma first_match_unique: "first_match m t u \<Longrightarrow> first_match m t v \<Longrightarrow> u = v"
  unfolding first_match_def by (meson linorder_neqE)

lemma first_match_iff: "first_match m t w \<Longrightarrow> Some w = Some u \<longleftrightarrow> first_match m t u"
  using first_match_unique by auto

lemma no_first_match: "\<forall>v. t < v \<longrightarrow> \<not> m v \<Longrightarrow> \<not> first_match m t u"
  by (auto simp: first_match_def)

definition earlier :: "instant option \<Rightarrow> instant option \<Rightarrow> instant option" where
  "earlier x y = (case (x, y) of
      (Some x, Some y) \<Rightarrow> Some (min x y) | (Some x, None) \<Rightarrow> Some x | (None, Some y) \<Rightarrow> Some y
    | (None, None) \<Rightarrow> None)"

lemma firing_either:
  assumes f: "firing f m" and g: "firing g n"
  shows "firing (\<lambda>t. earlier (f t) (g t)) (\<lambda>v. m v \<or> n v)"
proof
  fix t u
  let ?M = "\<lambda>v. m v \<or> n v"
  have none: "f t = None \<longleftrightarrow> (\<forall>v. t < v \<longrightarrow> \<not> m v)" "g t = None \<longleftrightarrow> (\<forall>v. t < v \<longrightarrow> \<not> n v)"
    using firing.next_None_iff [OF f] firing.next_None_iff [OF g] by auto
  have some: "\<And>x. f t = Some x \<Longrightarrow> first_match m t x" "\<And>y. g t = Some y \<Longrightarrow> first_match n t y"
    using firing.next_fire_iff [OF f] firing.next_fire_iff [OF g] by auto
  have first: "first_match ?M t w" if "earlier (f t) (g t) = Some w" for w
  proof (cases "f t"; cases "g t")
    fix x y assume xy: "f t = Some x" "g t = Some y"
    with that have w: "w = min x y" by (simp add: earlier_def)
    from some xy have "first_match m t x" "first_match n t y" by auto
    then show ?thesis unfolding w first_match_def min_def by auto
  next
    fix x assume x: "f t = Some x" "g t = None"
    with that have "w = x" by (simp add: earlier_def)
    with some(1) [OF x(1)] none(2) x(2) show ?thesis unfolding first_match_def by auto
  next
    fix y assume y: "f t = None" "g t = Some y"
    with that have "w = y" by (simp add: earlier_def)
    with some(2) [OF y(2)] none(1) y(1) show ?thesis unfolding first_match_def by auto
  next
    assume "f t = None" "g t = None"
    with that show ?thesis by (simp add: earlier_def)
  qed
  have "\<not> first_match ?M t u" if "earlier (f t) (g t) = None"
  proof -
    from that have "f t = None" "g t = None" by (auto simp: earlier_def split: option.splits)
    with none show ?thesis by (simp add: first_match_def)
  qed
  with first first_match_unique show "earlier (f t) (g t) = Some u \<longleftrightarrow> first_match ?M t u"
    by (cases "earlier (f t) (g t)") auto
qed

lemma firing_never: "firing (\<lambda>t. None) (\<lambda>v. False)"
  by unfold_locales (simp add: first_match_def)

lemma cron_firing:
  assumes "finds_first_match cal matches"
  shows "firing (cron_next_after cal s) (cron_matches cal matches s)"
proof (cases "fixed (east_opt cal) (cs_offset s)")
  case None
  then have "cron_next_after cal s = (\<lambda>t. None)" "cron_matches cal matches s = (\<lambda>v. False)"
    by (simp_all add: fun_eq_iff cron_next_after_def cron_matches_def)
  with firing_never show ?thesis by simp
next
  case (Some zone)
  have half: "firing (first_after cal p zone) (matches p zone)" for p
    using assms by unfold_locales (simp add: finds_first_match_def)
  show ?thesis
  proof (cases "cs_alternate s")
    case None
    then have "cron_next_after cal s = first_after cal (cs_primary s) zone"
      "cron_matches cal matches s = matches (cs_primary s) zone"
      using Some by (auto simp: fun_eq_iff cron_next_after_def cron_matches_def split: option.splits)
    with half show ?thesis by simp
  next
    case alt: (Some p)
    then have "cron_next_after cal s = (\<lambda>t. earlier (first_after cal (cs_primary s) zone t) (first_after cal p zone t))"
      "cron_matches cal matches s = (\<lambda>v. matches (cs_primary s) zone v \<or> matches p zone v)"
      using Some by (auto simp: fun_eq_iff cron_next_after_def cron_matches_def earlier_def split: option.splits)
    with firing_either [OF half half] show ?thesis by simp
  qed
qed

end
