(* ===== verification/Schedule.thy ===== *)
theory Schedule
  imports Cron
begin

text \<open>
  \<open>beez-schedule/src/instant.rs\<close> and \<open>schedule.rs\<close>: instants as text, and when a job runs.
\<close>

subsection \<open>Instants\<close>

definition parse_instant :: "('p, 'z, 'm) calendar_scheme \<Rightarrow> string \<Rightarrow> schedule_error + instant" where
  "parse_instant cal v =
     and_then (ok_or (InvalidInstant v) (parse_rfc3339 cal v)) (\<lambda>parsed.
       if parsed div 1000000000 < 0 then Inl (InvalidInstant v) else Inr parsed)"

definition format_instant :: "('p, 'z, 'm) calendar_scheme \<Rightarrow> instant \<Rightarrow> string" where
  "format_instant cal time = utc_text cal time"

lemma parse_instant_Inr_iff:
  "parse_instant cal v = Inr t \<longleftrightarrow> parse_rfc3339 cal v = Some t \<and> 0 \<le> t"
proof -
  have neg: "x div 1000000000 < 0 \<longleftrightarrow> x < 0" for x :: int
    using pos_imp_zdiv_neg_iff [of 1000000000 x] by simp
  show ?thesis unfolding parse_instant_def neg
    by (cases "parse_rfc3339 cal v") auto
qed

subsection \<open>Schedules\<close>

datatype 'p schedule = Cron "'p cron_schedule" | Once instant

primrec next_after :: "('p, 'z, 'm) calendar_scheme \<Rightarrow> 'p schedule \<Rightarrow> instant \<Rightarrow> instant option" where
  "next_after cal (Cron schedule) time = cron_next_after cal schedule time"
| "next_after cal (Once i) time = (if time < i then Some i else None)"

primrec is_recurring :: "'p schedule \<Rightarrow> bool" where
  "is_recurring (Cron schedule) = True"
| "is_recurring (Once i) = False"

primrec Schedule_text :: "('p, 'z, 'm) calendar_scheme \<Rightarrow> 'p schedule \<Rightarrow> string" where
  "Schedule_text cal (Cron schedule) = CronSchedule_text schedule"
| "Schedule_text cal (Once i) = format_instant cal i"

primrec Schedule_eq :: "'p schedule \<Rightarrow> 'p schedule \<Rightarrow> bool" where
  "Schedule_eq (Cron x) t = (case t of Cron y \<Rightarrow> cron_eq x y | Once j \<Rightarrow> False)"
| "Schedule_eq (Once i) t = (case t of Cron y \<Rightarrow> False | Once j \<Rightarrow> i = j)"

primrec schedule_matches ::
    "('p, 'z, 'm) calendar_scheme \<Rightarrow> ('p \<Rightarrow> 'z \<Rightarrow> instant \<Rightarrow> bool) \<Rightarrow> 'p schedule \<Rightarrow> instant \<Rightarrow> bool" where
  "schedule_matches cal matches (Cron s) u = cron_matches cal matches s u"
| "schedule_matches cal matches (Once i) u = (u = i)"

interpretation once: firing "next_after cal (Once i)" "\<lambda>u. u = i" for cal i
  by unfold_locales (auto simp: first_match_def)

lemma schedule_firing:
  assumes "finds_first_match cal matches"
  shows "firing (next_after cal s) (schedule_matches cal matches s)"
proof (cases s)
  case (Cron c)
  then have "next_after cal s = cron_next_after cal c"
    "schedule_matches cal matches s = cron_matches cal matches c"
    by (simp_all add: fun_eq_iff)
  with cron_firing [OF assms] show ?thesis by simp
next
  case (Once i)
  then have "next_after cal s = next_after cal (Once i)" "schedule_matches cal matches s = (\<lambda>u. u = i)"
    by (simp_all add: fun_eq_iff)
  with once.firing_axioms show ?thesis by simp
qed

lemma once_fires_once: "fires (next_after cal (Once i)) n t = (if t < i \<and> 0 < n then [i] else [])"
  by (cases n; cases "n - 1") auto

text \<open>C10. The fires of a schedule, each looked for after the one before, come strictly later and later and
  are exactly the instants it matches up to the last of them: of a crontab with both day fields
  restricted, the instants either day matches.
\<close>

theorem fires_are_matches:
  assumes "finds_first_match cal matches"
  shows "sorted_wrt (<) (t # fires (next_after cal s) n t) \<and>
    set (fires (next_after cal s) n t) =
      {v. t < v \<and> schedule_matches cal matches s v \<and> (\<exists>w\<in>set (fires (next_after cal s) n t). v \<le> w)}"
  using firing.fires_increase [OF schedule_firing [OF assms]]
    firing.fires_exact [OF schedule_firing [OF assms]] by blast

lemma demo_finds_first_match: "finds_first_match demo_calendar (\<lambda>p z t. 10 dvd t)"
  unfolding finds_first_match_def
proof (intro allI)
  fix p z and t u :: int
  let ?w = "10 * (t div 10) + 10"
  have f: "first_after demo_calendar p z t = Some ?w" by (simp add: demo_calendar_def)
  have gap: "\<not> (t < v \<and> v < ?w \<and> 10 dvd v)" for v by presburger
  have "t < ?w" "10 dvd ?w" by presburger+
  then have "first_match (\<lambda>t. 10 dvd t) t ?w" using gap unfolding first_match_def by blast
  then show "first_after demo_calendar p z t = Some u \<longleftrightarrow> first_match (\<lambda>t. 10 dvd t) t u"
    unfolding f by (rule first_match_iff)
qed

theorem fires_are_matches_witness:
  "sorted_wrt (<) (3 # fires (next_after demo_calendar (Once 7)) 2 3) \<and>
     fires (next_after demo_calendar (Once 7)) 2 3 = [7]"
  using fires_are_matches [OF demo_finds_first_match, of 3 "Once 7" 2]
  by (simp add: once_fires_once)

end
