(* ===== verification/Execution.thy ===== *)
theory Execution
  imports Workflow
begin

text \<open>
  \<open>WorkflowExecution\<close> of \<open>beez-core/src/workflow.rs\<close>: which tasks of a workflow may start, and what
  has become of each. A method that takes \<open>&mut self\<close> returns its result and the new execution.

  \<open>exec_step\<close> is one successful call of \<open>start\<close> or \<open>complete\<close>. The lemmas show that a task leaves
  \<open>Pending\<close> only after every dependency succeeded, that an outcome never changes, that a run has at
  most two steps per task, and that a run with pending tasks can go on unless a task failed.
\<close>

subsection \<open>The execution\<close>

datatype task_status = Pending | Running | Succeeded | Failed

record execution =
  ex_workflow :: workflow
  ex_statuses :: "task_status list"

definition Workflow_execution :: "workflow \<Rightarrow> execution" where
  "Workflow_execution w =
     \<lparr>ex_workflow = w, ex_statuses = replicate (length (tasks w)) Pending\<rparr>"

definition is_ready :: "execution \<Rightarrow> nat \<Rightarrow> bool" where
  "is_ready e i =
     (case task_at (ex_workflow e) i of
        None \<Rightarrow> False
      | Some t \<Rightarrow>
          get_at (ex_statuses e) i = Some Pending
          \<and> list_all (\<lambda>d. get_at (ex_statuses e) d = Some Succeeded) (t_dependencies t))"

definition ready :: "execution \<Rightarrow> nat list" where
  "ready e = filter (is_ready e) [0..<length (tasks (ex_workflow e))]"

definition start_task :: "execution \<Rightarrow> nat \<Rightarrow> task option \<times> execution" where
  "start_task e i =
     (if \<not> is_ready e i then (None, e)
      else if length (ex_statuses e) \<le> i then (None, e)
      else (task_at (ex_workflow e) i, e\<lparr>ex_statuses := (ex_statuses e)[i := Running]\<rparr>))"

definition complete_task :: "execution \<Rightarrow> nat \<Rightarrow> bool \<Rightarrow> bool \<times> execution" where
  "complete_task e i ok =
     (case get_at (ex_statuses e) i of
        None \<Rightarrow> (False, e)
      | Some s \<Rightarrow>
          if s \<noteq> Running then (False, e)
          else (True, e\<lparr>ex_statuses := (ex_statuses e)[i := (if ok then Succeeded else Failed)]\<rparr>))"

definition has_pending :: "execution \<Rightarrow> bool" where
  "has_pending e \<longleftrightarrow> Pending \<in> set (ex_statuses e)"

definition pending :: "execution \<Rightarrow> nat list" where
  "pending e = map fst (filter (\<lambda>(_, s). s = Pending) (enumerate 0 (ex_statuses e)))"

subsection \<open>Steps\<close>

inductive exec_step :: "execution \<Rightarrow> execution \<Rightarrow> bool" where
  started: "start_task e i = (Some t, e') \<Longrightarrow> exec_step e e'"
| completed: "complete_task e i ok = (True, e') \<Longrightarrow> exec_step e e'"

inductive_cases exec_stepE: "exec_step e e'"

abbreviation status :: "execution \<Rightarrow> nat \<Rightarrow> task_status" where
  "status e i \<equiv> ex_statuses e ! i"

abbreviation deps_of :: "execution \<Rightarrow> nat list list" where
  "deps_of e \<equiv> map t_dependencies (tasks (ex_workflow e))"

definition exec_inv :: "execution \<Rightarrow> bool" where
  "exec_inv e \<longleftrightarrow>
     workflow_ok (ex_workflow e)
     \<and> length (ex_statuses e) = length (tasks (ex_workflow e))
     \<and> (\<forall>i<length (ex_statuses e). status e i \<noteq> Pending \<longrightarrow>
          (\<forall>d\<in>set (t_dependencies (tasks (ex_workflow e) ! i)). status e d = Succeeded))"

lemma workflow_ok_dep:
  "workflow_ok w \<Longrightarrow> i < length (tasks w) \<Longrightarrow> d \<in> set (t_dependencies (tasks w ! i)) \<Longrightarrow>
     d < length (tasks w)"
  using nth_mem by (fastforce simp: workflow_ok_def)

lemma is_ready_iff:
  assumes "exec_inv e"
  shows "is_ready e i \<longleftrightarrow>
     i < length (tasks (ex_workflow e)) \<and> status e i = Pending
     \<and> (\<forall>d\<in>set (t_dependencies (tasks (ex_workflow e) ! i)). status e d = Succeeded)"
proof -
  have "workflow_ok (ex_workflow e)" "length (ex_statuses e) = length (tasks (ex_workflow e))"
    using assms by (simp_all add: exec_inv_def)
  then show ?thesis
    by (auto simp: is_ready_def task_at_def get_at_def list_all_iff dest: workflow_ok_dep
        split: option.splits)
qed

lemma start_task_iff:
  assumes "exec_inv e"
  shows "start_task e i = (Some t, e') \<longleftrightarrow>
     is_ready e i \<and> t = tasks (ex_workflow e) ! i
     \<and> e' = e\<lparr>ex_statuses := (ex_statuses e)[i := Running]\<rparr>"
proof -
  have "length (ex_statuses e) = length (tasks (ex_workflow e))"
    using assms by (simp add: exec_inv_def)
  then show ?thesis
    using is_ready_iff [OF assms, of i]
    by (auto simp: start_task_def task_at_def)
qed

lemma complete_task_iff:
  "complete_task e i ok = (True, e') \<longleftrightarrow>
     i < length (ex_statuses e) \<and> status e i = Running
     \<and> e' = e\<lparr>ex_statuses := (ex_statuses e)[i := (if ok then Succeeded else Failed)]\<rparr>"
  by (auto simp: complete_task_def get_at_def)

lemma Workflow_execution_inv: "workflow_ok w \<Longrightarrow> exec_inv (Workflow_execution w)"
  by (simp add: exec_inv_def Workflow_execution_def)

text \<open>What one step changes: one task moves on, with its dependencies succeeded.\<close>

lemma exec_step_change:
  assumes "exec_inv e" and "exec_step e e'"
  obtains i v where "i < length (ex_statuses e)"
    "e' = e\<lparr>ex_statuses := (ex_statuses e)[i := v]\<rparr>" "v \<noteq> Pending"
    "\<forall>d\<in>set (t_dependencies (tasks (ex_workflow e) ! i)). status e d = Succeeded"
    "status e i = Pending \<and> v = Running \<or> status e i = Running \<and> (v = Succeeded \<or> v = Failed)"
  using assms(2)
proof (cases rule: exec_step.cases)
  case (started i t)
  then have r: "is_ready e i" and e': "e' = e\<lparr>ex_statuses := (ex_statuses e)[i := Running]\<rparr>"
    by (simp_all add: start_task_iff [OF assms(1)])
  from r have "i < length (ex_statuses e)" "status e i = Pending"
    "\<forall>d\<in>set (t_dependencies (tasks (ex_workflow e) ! i)). status e d = Succeeded"
    using assms(1) by (simp_all add: is_ready_iff [OF assms(1)] exec_inv_def)
  then show thesis using e' that by blast
next
  case (completed i ok)
  then have i: "i < length (ex_statuses e)" "status e i = Running"
    and e': "e' = e\<lparr>ex_statuses := (ex_statuses e)[i := (if ok then Succeeded else Failed)]\<rparr>"
    by (simp_all add: complete_task_iff)
  moreover have "\<forall>d\<in>set (t_dependencies (tasks (ex_workflow e) ! i)). status e d = Succeeded"
    using assms(1) i by (simp add: exec_inv_def)
  ultimately show thesis using that [of i "if ok then Succeeded else Failed"] by auto
qed

definition remaining :: "execution \<Rightarrow> nat" where
  "remaining e =
     sum_list (map (\<lambda>s. case s of Pending \<Rightarrow> 2 | Running \<Rightarrow> 1 | _ \<Rightarrow> 0) (ex_statuses e))"

lemma sum_list_update_less:
  "i < length xs \<Longrightarrow> f v < f (xs ! i) \<Longrightarrow> sum_list (map f (xs[i := v])) < sum_list (map f (xs :: 'a list) :: nat list)"
proof (induction xs arbitrary: i)
  case (Cons x xs)
  then show ?case by (cases i) auto
qed simp

interpretation exec: bounded_system exec_step exec_inv remaining
proof unfold_locales
  fix e e' assume inv: "exec_inv e" and "exec_step e e'"
  then obtain i v where i: "i < length (ex_statuses e)"
    and e': "e' = e\<lparr>ex_statuses := (ex_statuses e)[i := v]\<rparr>" "v \<noteq> Pending"
    and deps: "\<forall>d\<in>set (t_dependencies (tasks (ex_workflow e) ! i)). status e d = Succeeded"
    and v: "status e i = Pending \<and> v = Running \<or> status e i = Running \<and> (v = Succeeded \<or> v = Failed)"
    by (rule exec_step_change)
  from v have not_done: "status e i \<noteq> Succeeded" by auto
  show "exec_inv e'"
    unfolding exec_inv_def e'(1)
  proof (simp, intro conjI allI impI ballI)
    show "workflow_ok (ex_workflow e)" "length (ex_statuses e) = length (tasks (ex_workflow e))"
      using inv by (simp_all add: exec_inv_def)
    fix j d assume j: "j < length (ex_statuses e)" "(ex_statuses e)[i := v] ! j \<noteq> Pending"
      and d: "d \<in> set (t_dependencies (tasks (ex_workflow e) ! j))"
    have "status e d = Succeeded"
      using j d deps inv by (cases "j = i") (auto simp: exec_inv_def)
    then show "(ex_statuses e)[i := v] ! d = Succeeded"
      using not_done by (cases "d = i") auto
  qed
  show "remaining e' < remaining e"
    unfolding remaining_def e'(1) using i v by (auto intro!: sum_list_update_less)
qed

subsection \<open>Progress\<close>

lemma pending_iff: "i \<in> set (pending e) \<longleftrightarrow> i < length (ex_statuses e) \<and> status e i = Pending"
  by (force simp: pending_def in_set_enumerate_eq image_iff)

lemma has_pending_iff: "has_pending e \<longleftrightarrow> pending e \<noteq> []"
proof -
  have "has_pending e \<longleftrightarrow> (\<exists>i. i \<in> set (pending e))"
    unfolding pending_iff has_pending_def by (auto simp: in_set_conv_nth)
  then show ?thesis by (cases "pending e") auto
qed

lemma finite_edges: "finite (edges deps)"
proof -
  have "edges deps \<subseteq> {..<length deps} \<times> {..<length deps}" by (auto simp: edges_def)
  then show ?thesis by (rule finite_subset) simp
qed

text \<open>A pending task waits for a ready task, a running one, or a failed one.\<close>

lemma pending_waits:
  assumes inv: "exec_inv e" and i: "i < length (ex_statuses e)" "status e i = Pending"
  shows "\<exists>d. (i, d) \<in> (edges (deps_of e))\<^sup>* \<and> (is_ready e d \<or> status e d = Running \<or> status e d = Failed)"
proof -
  have ok: "workflow_ok (ex_workflow e)" and len: "length (ex_statuses e) = length (tasks (ex_workflow e))"
    using inv by (simp_all add: exec_inv_def)
  then have "wf ((edges (deps_of e))\<inverse>)"
    by (intro finite_acyclic_wf_converse finite_edges) (simp add: workflow_ok_def)
  then show ?thesis using i
  proof (induction i rule: wf_induct_rule)
    case (less i)
    show ?case
    proof (cases "is_ready e i")
      case False
      then obtain d where d: "d \<in> set (t_dependencies (tasks (ex_workflow e) ! i))"
        "status e d \<noteq> Succeeded"
        using less(2,3) len by (auto simp: is_ready_iff [OF inv])
      then have dlt: "d < length (tasks (ex_workflow e))"
        using workflow_ok_dep [OF ok] less(2) len by simp
      then have edge: "(i, d) \<in> edges (deps_of e)" using d(1) less(2) len by (simp add: edges_def)
      show ?thesis
      proof (cases "status e d = Pending")
        case True
        then obtain d' where "(d, d') \<in> (edges (deps_of e))\<^sup>*"
          and "is_ready e d' \<or> status e d' = Running \<or> status e d' = Failed"
          using less(1) [of d] edge dlt len by auto
        with edge show ?thesis by (meson converse_rtrancl_into_rtrancl)
      next
        case False
        then have "status e d = Running \<or> status e d = Failed" using d(2) by (cases "status e d") auto
        with edge show ?thesis by blast
      qed
    qed blast
  qed
qed

lemma stuck_has_failure:
  assumes inv: "exec_inv e" and "i \<in> set (pending e)" and "ready e = []"
    and "Running \<notin> set (ex_statuses e)"
  shows "\<exists>d. (i, d) \<in> (edges (deps_of e))\<^sup>+ \<and> d < length (ex_statuses e) \<and> status e d = Failed"
proof -
  have i: "i < length (ex_statuses e)" "status e i = Pending" using assms(2) by (simp_all add: pending_iff)
  have len: "length (ex_statuses e) = length (tasks (ex_workflow e))" using inv by (simp add: exec_inv_def)
  obtain d where d: "(i, d) \<in> (edges (deps_of e))\<^sup>*"
    "is_ready e d \<or> status e d = Running \<or> status e d = Failed"
    using pending_waits [OF inv i] by blast
  have "\<not> is_ready e d"
    using assms(3) is_ready_iff [OF inv, of d] by (auto simp: ready_def filter_empty_conv)
  moreover have "d \<noteq> i \<Longrightarrow> (i, d) \<in> (edges (deps_of e))\<^sup>+" using d(1) by (simp add: rtrancl_eq_or_trancl)
  moreover have lt: "d < length (ex_statuses e)"
  proof (cases "d = i")
    case False
    with \<open>d \<noteq> i \<Longrightarrow> (i, d) \<in> (edges (deps_of e))\<^sup>+\<close> trancl_in_graph [of i d "deps_of e"] len
    show ?thesis by simp
  qed (use i in simp)
  ultimately have "status e d = Failed" using d(2) assms(4) nth_mem [OF lt] by metis
  moreover from this i have "d \<noteq> i" by auto
  ultimately show ?thesis using \<open>d \<noteq> i \<Longrightarrow> _\<close> lt by blast
qed

subsection \<open>Properties\<close>

text \<open>C3. In every execution reached from the start of a valid workflow, a task that is not pending
  has only dependencies that succeeded: no task starts early, and no success is taken back.\<close>

theorem no_task_starts_early:
  assumes "workflow_ok w" and "exec_step\<^sup>*\<^sup>* (Workflow_execution w) e"
    and "i < length (tasks w)" and "status e i \<noteq> Pending" and "d \<in> set (t_dependencies (tasks w ! i))"
  shows "status e d = Succeeded"
proof -
  have "exec_inv e"
    using exec.reachable_inv [OF assms(2) Workflow_execution_inv [OF assms(1)]] .
  moreover have "ex_workflow e = w"
    using assms(2)
    by (induction rule: rtranclp_induct)
      (auto simp: Workflow_execution_def start_task_def complete_task_def elim!: exec_stepE
        split: if_splits option.splits)
  ultimately show ?thesis using assms(3-5) by (simp add: exec_inv_def)
qed

definition demo_started :: execution where
  "demo_started = \<lparr>ex_workflow = demo_workflow, ex_statuses = [Succeeded, Running]\<rparr>"

lemma demo_run:
  "exec_step (Workflow_execution demo_workflow) \<lparr>ex_workflow = demo_workflow, ex_statuses = [Running, Pending]\<rparr>"
  "exec_step \<lparr>ex_workflow = demo_workflow, ex_statuses = [Running, Pending]\<rparr>
     \<lparr>ex_workflow = demo_workflow, ex_statuses = [Succeeded, Pending]\<rparr>"
  "exec_step \<lparr>ex_workflow = demo_workflow, ex_statuses = [Succeeded, Pending]\<rparr> demo_started"
  by (rule started [of _ 0 "tasks demo_workflow ! 0"],
      simp add: start_task_def is_ready_def task_at_def Workflow_execution_def demo_workflow_def,
      rule completed [of _ 0 True], simp add: complete_task_def,
      rule started [of _ 1 "tasks demo_workflow ! 1"],
      simp add: start_task_def is_ready_def task_at_def demo_started_def demo_workflow_def)

lemma demo_reaches: "exec_step\<^sup>*\<^sup>* (Workflow_execution demo_workflow) demo_started"
  using demo_run by (meson converse_rtranclp_into_rtranclp rtranclp.rtrancl_refl)

theorem no_task_starts_early_witness: "status demo_started 0 = Succeeded"
  by (rule no_task_starts_early [OF demo_workflow_ok demo_reaches, of 1])
    (simp_all add: demo_workflow_def demo_started_def)

text \<open>A run of \<open>start\<close> and \<open>complete\<close> calls that succeed has at most two per task.\<close>

theorem execution_bounded:
  assumes "workflow_ok w" and "(exec_step ^^ n) (Workflow_execution w) e"
  shows "n \<le> 2 * length (tasks w)"
proof -
  have "n \<le> remaining (Workflow_execution w)"
    using exec.run_length [OF assms(2) Workflow_execution_inv [OF assms(1)]] .
  then show ?thesis by (simp add: remaining_def Workflow_execution_def sum_list_replicate)
qed

theorem execution_bounded_witness: "1 \<le> 2 * length (tasks demo_workflow)"
proof (rule execution_bounded [OF demo_workflow_ok])
  show "(exec_step ^^ 1) (Workflow_execution demo_workflow)
      \<lparr>ex_workflow = demo_workflow, ex_statuses = [Running, Pending]\<rparr>"
    using demo_run(1) by (simp only: relpowp_1)
qed

text \<open>No deadlock: when a task is pending, no task runs and none is ready, a task it depends on,
  directly or through others, has failed.\<close>

theorem stuck_means_failed:
  assumes "workflow_ok w" and "exec_step\<^sup>*\<^sup>* (Workflow_execution w) e"
    and "i \<in> set (pending e)" and "ready e = []" and "Running \<notin> set (ex_statuses e)"
  shows "\<exists>d. (i, d) \<in> (edges (deps_of e))\<^sup>+ \<and> d < length (ex_statuses e) \<and> status e d = Failed"
  using exec.reachable_inv [OF assms(2) Workflow_execution_inv [OF assms(1)]] assms(3-5)
  by (rule stuck_has_failure)

definition demo_failed :: execution where
  "demo_failed = \<lparr>ex_workflow = demo_workflow, ex_statuses = [Failed, Pending]\<rparr>"

lemma demo_fails: "exec_step\<^sup>*\<^sup>* (Workflow_execution demo_workflow) demo_failed"
proof -
  have "exec_step \<lparr>ex_workflow = demo_workflow, ex_statuses = [Running, Pending]\<rparr> demo_failed"
    by (rule completed [of _ 0 False]) (simp add: complete_task_def demo_failed_def)
  with demo_run(1) show ?thesis by (meson converse_rtranclp_into_rtranclp rtranclp.rtrancl_refl)
qed

theorem stuck_means_failed_witness:
  "\<exists>d. (1, d) \<in> (edges (deps_of demo_failed))\<^sup>+ \<and> d < length (ex_statuses demo_failed)
     \<and> status demo_failed d = Failed"
  by (rule stuck_means_failed [OF demo_workflow_ok demo_fails])
    (code_simp, code_simp, code_simp)

end
