(* ===== verification/Process.thy ===== *)
theory Process
  imports Execution
begin

text \<open>
  \<open>beez-process\<close>: the arguments a harness or a command is started with, and the collection of the
  lines a child process writes.

  Spawning a child is the operating system's: a \<open>child\<close> is what \<open>Command::spawn\<close>, its two pipes and
  \<open>wait\<close> deliver, and \<open>spawn\<close> is a parameter. The two reader threads call the collecting closure one
  line at a time under a lock, in some interleaving of the two streams; \<open>relay\<close> takes that order of
  calls, and the lemmas hold for every interleaving.
\<close>

subsection \<open>I/O errors\<close>

text \<open>An \<open>io::Error\<close>: its kind, by the name \<open>{:?}\<close> prints, and its text.\<close>

datatype io_error = IoError (io_kind: string) (io_text: string)

definition io_other :: "string \<Rightarrow> io_error" where
  "io_other t = IoError ''Other'' t"

subsection \<open>Calls\<close>

record harness_call =
  hc_harness :: headless_harness
  hc_prompt :: string
  hc_model :: "string option"
  hc_effort :: "string option"

definition HarnessCall_new :: "headless_harness \<Rightarrow> string \<Rightarrow> harness_call" where
  "HarnessCall_new h p = \<lparr>hc_harness = h, hc_prompt = p, hc_model = None, hc_effort = None\<rparr>"

definition HarnessCall_options :: "harness_options \<Rightarrow> harness_call \<Rightarrow> harness_call" where
  "HarnessCall_options opts c =
     c\<lparr>hc_model := (case ho_model opts of Some m \<Rightarrow> Some m | None \<Rightarrow> hc_model c),
       hc_effort := (case ho_effort opts of Some e \<Rightarrow> Some e | None \<Rightarrow> hc_effort c)\<rparr>"

definition headless_argument :: "headless_harness \<Rightarrow> string" where
  "headless_argument h = (case h of headless_harness.Codex \<Rightarrow> ''exec'' | _ \<Rightarrow> ''--print'')"

definition effort_arguments :: "headless_harness \<Rightarrow> string \<Rightarrow> string list" where
  "effort_arguments h effort =
     (case h of
        headless_harness.Pi \<Rightarrow> [''--effort'', effort]
      | headless_harness.Claude \<Rightarrow> [''--effort'', effort]
      | headless_harness.Omp \<Rightarrow> [''--thinking'', effort]
      | headless_harness.Codex \<Rightarrow> [''-c'', ''model_reasoning_effort='' @ effort])"

definition HarnessCall_into_parts :: "harness_call \<Rightarrow> string \<times> string list" where
  "HarnessCall_into_parts c =
     (HeadlessHarness_name (hc_harness c),
      [headless_argument (hc_harness c)]
      @ (case hc_model c of Some m \<Rightarrow> [''--model'', m] | None \<Rightarrow> [])
      @ (case hc_effort c of Some e \<Rightarrow> effort_arguments (hc_harness c) e | None \<Rightarrow> [])
      @ (if prefix ''-'' (hc_prompt c) then [''--''] else [])
      @ [hc_prompt c])"

record process_call =
  pc_program :: string
  pc_arguments :: "string list"

datatype execution_request = HarnessExecution harness_call | CommandExecution process_call

primrec request_harness :: "execution_request \<Rightarrow> headless_harness option" where
  "request_harness (HarnessExecution c) = Some (hc_harness c)"
| "request_harness (CommandExecution c) = None"

primrec request_into_parts :: "execution_request \<Rightarrow> string \<times> string list" where
  "request_into_parts (HarnessExecution c) = HarnessCall_into_parts c"
| "request_into_parts (CommandExecution c) = (pc_program c, pc_arguments c)"

text \<open>The prompt is the last argument, and no flag of Beez's can be mistaken for it or it for a flag.\<close>

lemma prompt_last: "last (snd (HarnessCall_into_parts c)) = hc_prompt c"
  by (simp add: HarnessCall_into_parts_def)

lemma dashed_prompt_guarded:
  "prefix ''-'' (hc_prompt c) \<Longrightarrow>
     \<exists>flags. snd (HarnessCall_into_parts c) = flags @ [''--'', hc_prompt c]"
  by (auto simp: HarnessCall_into_parts_def)

subsection \<open>Lines\<close>

datatype output_stream = StdoutStream | StderrStream

record process_output =
  po_stdout :: string
  po_stderr :: string
  po_status :: "int option"

definition po_succeeded :: "process_output \<Rightarrow> bool" where
  "po_succeeded o' \<longleftrightarrow> po_status o' = Some 0"

definition newline :: char where
  "newline = CHR 0x0A"

text \<open>\<open>read_until(b'\n')\<close> on the bytes that are left: the line with its newline, and the rest.\<close>

definition read_until :: "string \<Rightarrow> string \<times> string" where
  "read_until s =
     (let (line, rest) = (takeWhile (\<lambda>c. c \<noteq> newline) s, dropWhile (\<lambda>c. c \<noteq> newline) s)
      in (line @ take 1 rest, drop 1 rest))"

lemma read_until_append: "fst (read_until s) @ snd (read_until s) = s"
  by (simp add: read_until_def Let_def)

lemma read_until_shorter: "s \<noteq> [] \<Longrightarrow> length (snd (read_until s)) < length s"
proof -
  assume s: "s \<noteq> []"
  have "length (fst (read_until s)) + length (snd (read_until s)) = length s"
    by (metis length_append read_until_append)
  moreover have "fst (read_until s) \<noteq> []"
    using s by (cases s) (auto simp: read_until_def)
  ultimately show ?thesis by (cases "fst (read_until s)") auto
qed

text \<open>
  The loop of \<open>forward\<close>. \<open>failed\<close> says that the pipe ends with a read error instead of its end: the
  unfinished line before the error is not handed on.
\<close>

function forward_lines :: "bool \<Rightarrow> string \<Rightarrow> string list" where
  "forward_lines failed s =
     (if s = [] then []
      else if failed \<and> newline \<notin> set s then []
      else fst (read_until s) # forward_lines failed (snd (read_until s)))"
  by pat_completeness auto
termination by (relation "measure (length \<circ> snd)") (auto simp: read_until_shorter)

declare forward_lines.simps [simp del]

lemma concat_forward_lines: "concat (forward_lines False s) = s"
proof (induction "length s" arbitrary: s rule: less_induct)
  case less
  show ?case
  proof (cases "s = []")
    case False
    have "concat (forward_lines False (snd (read_until s))) = snd (read_until s)"
      by (rule less) (rule read_until_shorter [OF False])
    then show ?thesis
      using False read_until_append [of s] by (simp add: forward_lines.simps [of False s])
  qed (simp add: forward_lines.simps)
qed

lemma forward_lines_whole:
  "x \<in> set (butlast (forward_lines failed s)) \<Longrightarrow> x \<noteq> [] \<and> last x = newline"
proof (induction "length s" arbitrary: s rule: less_induct)
  case less
  show ?case
  proof (cases "s = [] \<or> failed \<and> newline \<notin> set s")
    case True
    then have "forward_lines failed s = []" by (auto simp: forward_lines.simps [of failed s])
    with less.prems show ?thesis by simp
  next
    case False
    then have step: "forward_lines failed s = fst (read_until s) # forward_lines failed (snd (read_until s))"
      and s: "s \<noteq> []"
      by (auto simp: forward_lines.simps [of failed s])
    show ?thesis
    proof (cases "forward_lines failed (snd (read_until s)) = []")
      case True
      with less.prems show ?thesis by (simp add: step)
    next
      case more: False
      then have "snd (read_until s) \<noteq> []" by (auto simp: forward_lines.simps)
      then obtain c r where r: "dropWhile (\<lambda>c. c \<noteq> newline) s = c # r"
        by (cases "dropWhile (\<lambda>c. c \<noteq> newline) s") (auto simp: read_until_def)
      then have "c = newline" by (metis (mono_tags, lifting) dropWhile_eq_Cons_conv)
      with r have line: "fst (read_until s) \<noteq> [] \<and> last (fst (read_until s)) = newline"
        by (simp add: read_until_def Let_def)
      from less.prems more have "x = fst (read_until s)
          \<or> x \<in> set (butlast (forward_lines failed (snd (read_until s))))"
        by (auto simp: step)
      then show ?thesis
        using line less.hyps [OF read_until_shorter [OF s]] by auto
    qed
  qed
qed

subsection \<open>Collecting both streams\<close>

type_synonym line_call = "output_stream \<times> string"

definition collect :: "string \<times> string \<Rightarrow> line_call \<Rightarrow> string \<times> string" where
  "collect acc call =
     (case fst call of
        StdoutStream \<Rightarrow> (fst acc @ snd call, snd acc)
      | StderrStream \<Rightarrow> (fst acc, snd acc @ snd call))"

record child =
  ch_stdout :: string
  ch_stdout_failed :: bool
  ch_stderr :: string
  ch_stderr_failed :: bool
  ch_status :: "io_error + int option"

definition out_calls :: "child \<Rightarrow> line_call list" where
  "out_calls c = map (Pair StdoutStream) (forward_lines (ch_stdout_failed c) (ch_stdout c))"

definition err_calls :: "child \<Rightarrow> line_call list" where
  "err_calls c = map (Pair StderrStream) (forward_lines (ch_stderr_failed c) (ch_stderr c))"

text \<open>The result of \<open>relay\<close> for a child and the order in which its lines reached the closure.\<close>

definition relay :: "child \<Rightarrow> line_call list \<Rightarrow> io_error + process_output" where
  "relay c calls =
     and_then (ch_status c) (\<lambda>code.
       let (out, err) = foldl collect ([], []) calls
       in Inr \<lparr>po_stdout = out, po_stderr = err, po_status = code\<rparr>)"

definition sandbox_argument ::
  "sandbox_policy option \<Rightarrow> headless_harness option \<Rightarrow> string \<times> string list \<Rightarrow> string
   \<Rightarrow> (sandbox_policy \<Rightarrow> headless_harness option \<Rightarrow> string \<Rightarrow> string list \<Rightarrow> string \<Rightarrow> io_error + 'c)
   \<Rightarrow> (string \<Rightarrow> string list \<Rightarrow> string \<Rightarrow> 'c) \<Rightarrow> io_error + 'c" where
  "sandbox_argument sandbox harness parts cwd sandboxed_command plain_command =
     (case sandbox of
        Some policy \<Rightarrow> sandboxed_command policy harness (fst parts) (snd parts) cwd
      | None \<Rightarrow> Inr (plain_command (fst parts) (snd parts) cwd))"

text \<open>
  \<open>run_streaming\<close>: \<open>sandboxed_command\<close> is \<open>SandboxedCommand::new\<close>, \<open>plain_command\<close> is
  \<open>Command::new\<close> with its arguments and directory, and \<open>spawn\<close> runs a command to the end.
\<close>

definition run_streaming ::
  "(sandbox_policy \<Rightarrow> headless_harness option \<Rightarrow> string \<Rightarrow> string list \<Rightarrow> string \<Rightarrow> io_error + 'c)
   \<Rightarrow> (string \<Rightarrow> string list \<Rightarrow> string \<Rightarrow> 'c)
   \<Rightarrow> ('c \<Rightarrow> io_error + child \<times> line_call list)
   \<Rightarrow> string \<Rightarrow> execution_request \<Rightarrow> sandbox_policy option
   \<Rightarrow> line_call list \<times> (io_error + process_output)" where
  "run_streaming sandboxed_command plain_command spawn cwd request sandbox =
     (case and_then (sandbox_argument sandbox (request_harness request) (request_into_parts request)
                       cwd sandboxed_command plain_command) spawn of
        Inl e \<Rightarrow> ([], Inl e)
      | Inr (c, calls) \<Rightarrow> (calls, relay c calls))"

lemma foldl_collect_shuffle:
  "calls \<in> shuffles (map (Pair StdoutStream) xs) (map (Pair StderrStream) ys) \<Longrightarrow>
     foldl collect (out, err) calls = (out @ concat xs, err @ concat ys)"
proof (induction calls arbitrary: xs ys out err)
  case Nil
  then show ?case by (auto simp: Nil_in_shuffles)
next
  case (Cons c calls)
  from Cons.prems show ?case
    unfolding Cons_in_shuffles_iff
  proof (elim disjE conjE)
    assume "map (Pair StdoutStream) xs \<noteq> []" "hd (map (Pair StdoutStream) xs) = c"
      and rest: "calls \<in> shuffles (tl (map (Pair StdoutStream) xs)) (map (Pair StderrStream) ys)"
    then obtain x xs' where x: "xs = x # xs'" "c = (StdoutStream, x)" by (cases xs) auto
    with rest have "calls \<in> shuffles (map (Pair StdoutStream) xs') (map (Pair StderrStream) ys)" by simp
    from Cons.IH [OF this] x show ?thesis by (simp add: collect_def)
  next
    assume "map (Pair StderrStream) ys \<noteq> []" "hd (map (Pair StderrStream) ys) = c"
      and rest: "calls \<in> shuffles (map (Pair StdoutStream) xs) (tl (map (Pair StderrStream) ys))"
    then obtain y ys' where y: "ys = y # ys'" "c = (StderrStream, y)" by (cases ys) auto
    with rest have "calls \<in> shuffles (map (Pair StdoutStream) xs) (map (Pair StderrStream) ys')" by simp
    from Cons.IH [OF this] y show ?thesis by (simp add: collect_def)
  qed
qed

lemma relay_collects:
  assumes "calls \<in> shuffles (out_calls c) (err_calls c)" and "ch_status c = Inr code"
  shows "relay c calls = Inr
    \<lparr>po_stdout = concat (forward_lines (ch_stdout_failed c) (ch_stdout c)),
     po_stderr = concat (forward_lines (ch_stderr_failed c) (ch_stderr c)),
     po_status = code\<rparr>"
proof -
  have "foldl collect ([], []) calls =
      (concat (forward_lines (ch_stdout_failed c) (ch_stdout c)),
       concat (forward_lines (ch_stderr_failed c) (ch_stderr c)))"
    using foldl_collect_shuffle [of calls] assms(1) by (simp add: out_calls_def err_calls_def)
  then show ?thesis using assms(2) by (simp add: relay_def)
qed

subsection \<open>Properties\<close>

text \<open>However the lines of the two streams interleave, the collected output of a child whose pipes
  did not fail is byte for byte what the child wrote to each.\<close>

theorem relay_keeps_every_byte:
  assumes "calls \<in> shuffles (out_calls c) (err_calls c)" and "ch_status c = Inr code"
    and "\<not> ch_stdout_failed c" and "\<not> ch_stderr_failed c"
  shows "relay c calls = Inr \<lparr>po_stdout = ch_stdout c, po_stderr = ch_stderr c, po_status = code\<rparr>"
  using relay_collects [OF assms(1,2)] assms(3,4) by (simp add: concat_forward_lines)

theorem relay_keeps_every_byte_witness:
  "relay \<lparr>ch_stdout = ''a'' @ [newline] @ ''b'', ch_stdout_failed = False,
          ch_stderr = ''e'', ch_stderr_failed = False, ch_status = Inr (Some 3)\<rparr>
     [(StdoutStream, ''a'' @ [newline]), (StderrStream, ''e''), (StdoutStream, ''b'')]
   = Inr \<lparr>po_stdout = ''a'' @ [newline] @ ''b'', po_stderr = ''e'', po_status = Some 3\<rparr>"
  using relay_keeps_every_byte [of
      "[(StdoutStream, ''a'' @ [newline]), (StderrStream, ''e''), (StdoutStream, ''b'')]"
      "\<lparr>ch_stdout = ''a'' @ [newline] @ ''b'', ch_stdout_failed = False,
        ch_stderr = ''e'', ch_stderr_failed = False, ch_status = Inr (Some 3)\<rparr>" "Some 3"]
  by (simp add: out_calls_def err_calls_def forward_lines.simps read_until_def newline_def
      Cons_in_shuffles_iff)

end
