(* ===== verification/Manifest.thy ===== *)
theory Manifest
  imports Workflow Schedule Process
begin

text \<open>
  \<open>beez-manifest/src\<close>: from a manifest as it is written to a validated workflow, the sandbox of each
  task and the schedules.

  The YAML and JSON parsers are parameters: a parser turns the text of a manifest into a \<open>document\<close> or
  the text of an error. Reading a file is the parameter \<open>read_file\<close>.
\<close>

subsection \<open>The manifest as it is written\<close>

record manifest_network =
  mn_defaults :: "bool option"
  mn_groups :: "string list"
  mn_disable :: "string list"
  mn_allow :: "string list"
  mn_localhost :: "bool option"

record manifest_filesystem =
  mf_defaults :: "bool option"
  mf_read_deny :: "string list"
  mf_write_allow :: "string list"
  mf_write_deny :: "string list"

record manifest_executables =
  me_defaults :: "bool option"
  me_groups :: "string list"
  me_disable :: "string list"
  me_allow :: "string list"

record manifest_sandbox =
  ms_network :: "manifest_network option"
  ms_filesystem :: "manifest_filesystem option"
  ms_executables :: "manifest_executables option"

datatype sandbox_setting = Enabled bool | SandboxTable manifest_sandbox

datatype overlap = Skip | Queue | Parallel

definition Overlap_default :: overlap where
  "Overlap_default = Skip"

record schedule_fields =
  sf_name :: "string option"
  sf_cron :: "string option"
  sf_at :: "string option"
  sf_offset :: "string option"
  sf_on_overlap :: overlap
  sf_catch_up :: bool
  sf_enabled :: bool
  sf_allow_unsandboxed :: bool

datatype schedule_setting = One schedule_fields | Many "schedule_fields list"

record manifest_task =
  mt_id :: string
  mt_depends_on :: "string list"
  mt_harness :: "string option"
  mt_prompt :: "string option"
  mt_prompt_file :: "string option"
  mt_model :: "string option"
  mt_effort :: "string option"
  mt_command :: "string list option"
  mt_sandbox :: "sandbox_setting option"

record document =
  doc_schedule :: "schedule_setting option"
  doc_sandbox :: "manifest_sandbox option"
  doc_tasks :: "manifest_task list"

subsection \<open>Errors\<close>

datatype manifest_error =
    ManifestIo io_error
  | UnsupportedFormat string
  | InvalidManifest string
  | PromptFile string io_error

primrec ManifestError_text :: "manifest_error \<Rightarrow> string" where
  "ManifestError_text (ManifestIo e) = io_text e"
| "ManifestError_text (UnsupportedFormat path) =
     ''workflow file '' @ path @ '' must use a .yaml, .yml, or .json extension''"
| "ManifestError_text (InvalidManifest e) = e"
| "ManifestError_text (PromptFile path e) = ''cannot read prompt file '' @ path @ '': '' @ io_text e"

subsection \<open>Sandboxes\<close>

definition NetworkPolicy_try_from :: "manifest_network \<Rightarrow> string + network_policy" where
  "NetworkPolicy_try_from n =
     and_then (parse_all DomainGroup_from_str GroupError_text (mn_groups n)) (\<lambda>groups.
     and_then (parse_all DomainGroup_from_str GroupError_text (mn_disable n)) (\<lambda>disable.
     and_then (parse_all DomainRule_from_str DomainRuleError_text (mn_allow n)) (\<lambda>allow.
       Inr (NetworkPolicy_new (mn_defaults n) groups disable allow (mn_localhost n)))))"

definition FilesystemPolicy_try_from :: "manifest_filesystem \<Rightarrow> string + filesystem_policy" where
  "FilesystemPolicy_try_from f =
     and_then (parse_all SandboxPath_from_str SandboxPathError_text (mf_read_deny f)) (\<lambda>read_deny.
     and_then (parse_all SandboxPath_from_str SandboxPathError_text (mf_write_allow f)) (\<lambda>write_allow.
     and_then (parse_all SandboxPath_from_str SandboxPathError_text (mf_write_deny f)) (\<lambda>write_deny.
       Inr (FilesystemPolicy_new (mf_defaults f) read_deny write_allow write_deny))))"

definition ExecutablePolicy_try_from :: "manifest_executables \<Rightarrow> string + executable_policy" where
  "ExecutablePolicy_try_from e =
     and_then (parse_all ExecutableGroup_from_str GroupError_text (me_groups e)) (\<lambda>groups.
     and_then (parse_all ExecutableGroup_from_str GroupError_text (me_disable e)) (\<lambda>disable.
     and_then (parse_all SandboxPath_from_str SandboxPathError_text (me_allow e)) (\<lambda>allow.
       Inr (ExecutablePolicy_new (me_defaults e) groups disable allow))))"

text \<open>\<open>Option::map(f).transpose()\<close>.\<close>

definition transpose_map :: "('a \<Rightarrow> 'e + 'b) \<Rightarrow> 'a option \<Rightarrow> 'e + 'b option" where
  "transpose_map f v = (case v of None \<Rightarrow> Inr None | Some x \<Rightarrow> and_then (f x) (\<lambda>y. Inr (Some y)))"

definition apply_to :: "manifest_sandbox \<Rightarrow> sandbox_policy \<Rightarrow> string + sandbox_policy" where
  "apply_to s base =
     and_then (transpose_map NetworkPolicy_try_from (ms_network s)) (\<lambda>network.
     and_then (transpose_map FilesystemPolicy_try_from (ms_filesystem s)) (\<lambda>filesystem.
     and_then (transpose_map ExecutablePolicy_try_from (ms_executables s)) (\<lambda>executables.
       Inr (SandboxPolicy_merge base network filesystem executables))))"

definition SandboxPolicy_try_from :: "manifest_sandbox \<Rightarrow> string + sandbox_policy" where
  "SandboxPolicy_try_from s = apply_to s SandboxPolicy_default"

definition resolve_sandbox ::
    "sandbox_policy option \<Rightarrow> sandbox_setting option \<Rightarrow> string + sandbox_policy option" where
  "resolve_sandbox workflow_policy task_setting =
     (let base = (case workflow_policy of Some p \<Rightarrow> p | None \<Rightarrow> SandboxPolicy_default) in
      case task_setting of
        None \<Rightarrow> Inr (Some base)
      | Some (Enabled True) \<Rightarrow> Inr (Some base)
      | Some (Enabled False) \<Rightarrow> Inr None
      | Some (SandboxTable s) \<Rightarrow> and_then (apply_to s base) (\<lambda>p. Inr (Some p)))"

subsection \<open>Schedules\<close>

record 'p job_schedule =
  js_name :: "string option"
  js_schedule :: "'p schedule"
  js_on_overlap :: overlap
  js_catch_up :: bool
  js_enabled :: bool
  js_allow_unsandboxed :: bool

definition JobSchedule_try_from ::
    "('p, 'z, 'm) calendar_scheme \<Rightarrow> schedule_fields \<Rightarrow> string + 'p job_schedule" where
  "JobSchedule_try_from cal fs =
     and_then (map_err ScheduleError_text (transpose_map UtcOffset_from_str (sf_offset fs))) (\<lambda>offset.
     and_then
       (case (sf_cron fs, sf_at fs) of
          (Some _, Some _) \<Rightarrow> Inl ''schedule must define either cron or at, not both''
        | (None, None) \<Rightarrow> Inl ''schedule must define either cron or at''
        | (Some cron, None) \<Rightarrow>
            and_then (map_err ScheduleError_text
                (CronSchedule_new cal cron (case offset of Some x \<Rightarrow> x | None \<Rightarrow> UTC)))
              (\<lambda>c. Inr (Cron c))
        | (None, Some at) \<Rightarrow>
            if offset \<noteq> None then Inl ''at already names its own offset, so offset must be absent''
            else and_then (map_err ScheduleError_text (parse_instant cal at)) (\<lambda>i. Inr (Once i)))
       (\<lambda>schedule.
          Inr \<lparr>js_name = sf_name fs, js_schedule = schedule, js_on_overlap = sf_on_overlap fs,
               js_catch_up = sf_catch_up fs, js_enabled = sf_enabled fs,
               js_allow_unsandboxed = sf_allow_unsandboxed fs\<rparr>))"

text \<open>\<open>seen\<close> is the set that \<open>BTreeSet::insert\<close> fills while the names are searched.\<close>

fun first_repeated :: "string set \<Rightarrow> string list \<Rightarrow> string option" where
  "first_repeated seen [] = None"
| "first_repeated seen (n # ns) =
     (if n \<in> seen then Some n else first_repeated (insert n seen) ns)"

definition repeated_name :: "'p job_schedule list \<Rightarrow> string option" where
  "repeated_name schedules = first_repeated {} (List.map_filter js_name schedules)"

definition resolve_schedules ::
    "('p, 'z, 'm) calendar_scheme \<Rightarrow> schedule_setting option \<Rightarrow> string + 'p job_schedule list" where
  "resolve_schedules cal setting =
     (case setting of
        None \<Rightarrow> Inr []
      | Some setting \<Rightarrow>
          and_then (traverse (JobSchedule_try_from cal)
              (case setting of One fs \<Rightarrow> [fs] | Many fs \<Rightarrow> fs)) (\<lambda>schedules.
            if 1 < length schedules \<and> list_ex (\<lambda>s. js_name s = None) schedules
            then Inl ''a manifest with more than one schedule must name each of them''
            else case repeated_name schedules of
                   Some name \<Rightarrow> Inl (''schedule name '' @ name @ '' is used twice'')
                 | None \<Rightarrow> Inr schedules))"

subsection \<open>Tasks\<close>

definition read_prompt_file ::
    "(string \<Rightarrow> io_error + string) \<Rightarrow> string \<Rightarrow> manifest_task \<Rightarrow> manifest_error + manifest_task" where
  "read_prompt_file read_file directory task =
     (case mt_prompt_file task of
        None \<Rightarrow> Inr task
      | Some name \<Rightarrow>
          if mt_prompt task \<noteq> None
          then Inl (InvalidManifest ''task must define either prompt or prompt_file, not both'')
          else let path = path_join directory name in
               and_then (map_err (PromptFile path) (read_file path)) (\<lambda>prompt.
                 Inr (task\<lparr>mt_prompt_file := None, mt_prompt := Some prompt\<rparr>)))"

definition request_of :: "manifest_task \<Rightarrow> string + task_request" where
  "request_of task =
     (let options = \<lparr>ho_model = mt_model task, ho_effort = mt_effort task\<rparr> in
      case (mt_harness task, mt_prompt task, mt_command task) of
        (Some harness, Some prompt, None) \<Rightarrow>
          and_then (map_err HeadlessHarnessError_text (HeadlessHarness_from_str harness)) (\<lambda>harness.
            Inr (HarnessRequest harness prompt options))
      | (None, None, Some command) \<Rightarrow>
          if \<not> HarnessOptions_is_empty options then Inl ''model and effort require a harness task''
          else (case command of
                  [] \<Rightarrow> Inl ''command must contain a program''
                | program # arguments \<Rightarrow> Inr (CommandRequest program arguments))
      | _ \<Rightarrow> Inl ''task must define either harness with prompt or prompt_file, or command'')"

definition into_definition :: "sandbox_policy option \<Rightarrow> manifest_task \<Rightarrow> string + task_definition" where
  "into_definition workflow_policy task =
     and_then (resolve_sandbox workflow_policy (mt_sandbox task)) (\<lambda>sandbox.
     and_then (map_err TaskIdError_text (TaskId_from_str (mt_id task))) (\<lambda>i.
     and_then (parse_all TaskId_from_str TaskIdError_text (mt_depends_on task)) (\<lambda>depends_on.
     and_then (request_of task) (\<lambda>request.
       Inr (sandboxed sandbox (TaskDefinition_new i depends_on request))))))"

subsection \<open>Loading\<close>

record 'p manifest =
  mft_workflow :: workflow
  mft_schedules :: "'p job_schedule list"

record loader =
  read_file :: "string \<Rightarrow> io_error + string"
  parse_yaml :: "string \<Rightarrow> string + document"
  parse_json :: "string \<Rightarrow> string + document"

definition parse_document :: "('m) loader_scheme \<Rightarrow> string \<Rightarrow> string \<Rightarrow> manifest_error + document" where
  "parse_document env path source =
     (case path_extension path of
        Some extension \<Rightarrow>
          if extension \<in> {''yaml'', ''yml''} then map_err InvalidManifest (parse_yaml env source)
          else if extension = ''json'' then map_err InvalidManifest (parse_json env source)
          else Inl (UnsupportedFormat path)
      | None \<Rightarrow> Inl (UnsupportedFormat path))"

definition read_definition ::
    "('m) loader_scheme \<Rightarrow> string \<Rightarrow> sandbox_policy option \<Rightarrow> manifest_task
     \<Rightarrow> manifest_error + task_definition" where
  "read_definition env directory sandbox task =
     and_then (read_prompt_file (read_file env) directory task) (\<lambda>task.
       map_err InvalidManifest (into_definition sandbox task))"

definition load ::
    "('p, 'z, 'm) calendar_scheme \<Rightarrow> 'n loader_scheme \<Rightarrow> string \<Rightarrow> manifest_error + 'p manifest" where
  "load cal env path =
     and_then (map_err ManifestIo (read_file env path)) (\<lambda>source.
     and_then (parse_document env path source) (\<lambda>document.
     and_then (map_err InvalidManifest (resolve_schedules cal (doc_schedule document))) (\<lambda>schedules.
     and_then (map_err InvalidManifest (transpose_map SandboxPolicy_try_from (doc_sandbox document))) (\<lambda>sandbox.
       let directory = (case parent path of Some p \<Rightarrow> p | None \<Rightarrow> []) in
       and_then (traverse (read_definition env directory sandbox) (doc_tasks document)) (\<lambda>definitions.
       and_then (map_err (\<lambda>e. InvalidManifest (WorkflowError_text e)) (Workflow_try_from definitions)) (\<lambda>w.
         Inr \<lparr>mft_workflow = w, mft_schedules = schedules\<rparr>))))))"


subsection \<open>Schedules are told apart by name\<close>

lemma first_repeated_None_iff:
  "first_repeated seen ns = None \<longleftrightarrow> distinct ns \<and> set ns \<inter> seen = {}"
  by (induction seen ns rule: first_repeated.induct) auto

lemma first_repeated_SomeD: "first_repeated seen ns = Some n \<Longrightarrow> n \<in> set ns"
  by (induction seen ns rule: first_repeated.induct) (auto split: if_splits)

text \<open>The schedules of a manifest are accepted exactly when each can be read, each is named when
  there are several, and no two have the same name; they keep their order.\<close>

theorem schedules_told_apart:
  "resolve_schedules cal (Some (Many fs)) = Inr js \<longleftrightarrow>
     list_all2 (\<lambda>f j. JobSchedule_try_from cal f = Inr j) fs js \<and>
     (length js \<le> 1 \<or> list_all (\<lambda>j. js_name j \<noteq> None) js) \<and>
     distinct (List.map_filter js_name js)"
proof -
  let ?repeated = "first_repeated {} (List.map_filter js_name js)"
  have unnamed: "list_ex (\<lambda>j. js_name j = None) js \<longleftrightarrow> \<not> list_all (\<lambda>j. js_name j \<noteq> None) js"
    by (auto simp: list_ex_iff list_all_iff)
  have several: "1 < length js \<longleftrightarrow> \<not> length js \<le> 1" by auto
  have "resolve_schedules cal (Some (Many fs)) = Inr js \<longleftrightarrow>
      traverse (JobSchedule_try_from cal) fs = Inr js \<and>
      \<not> (1 < length js \<and> list_ex (\<lambda>j. js_name j = None) js) \<and> ?repeated = None"
    by (cases "traverse (JobSchedule_try_from cal) fs"; cases ?repeated)
      (auto simp: resolve_schedules_def repeated_name_def split: option.splits)
  then show ?thesis
    unfolding unnamed several traverse_Inr_iff first_repeated_None_iff by simp
qed

subsection \<open>Sandboxes\<close>

lemma apply_to_merges:
  "apply_to s base = Inr p \<Longrightarrow> \<exists>n f e. p = SandboxPolicy_merge base n f e"
  by (auto simp: apply_to_def and_then_Inr_iff)

lemma resolve_sandbox_None_iff:
  "resolve_sandbox w s = Inr None \<longleftrightarrow> s = Some (Enabled False)"
  by (cases s; cases "the s")
    (auto simp: resolve_sandbox_def Let_def and_then_Inr_iff split: bool.splits)

lemma resolve_sandbox_merges:
  assumes "resolve_sandbox (Some w) s = Inr (Some p)"
  shows "\<exists>n f e. p = SandboxPolicy_merge w n f e"
proof (cases s)
  case None
  with assms have "p = SandboxPolicy_merge w None None None" by (simp add: resolve_sandbox_def)
  then show ?thesis by blast
next
  case (Some t)
  then show ?thesis
  proof (cases t)
    case (Enabled b)
    with assms Some have "p = SandboxPolicy_merge w None None None"
      by (cases b) (simp_all add: resolve_sandbox_def)
    then show ?thesis by blast
  next
    case (SandboxTable u)
    with assms Some show ?thesis
      by (auto simp: resolve_sandbox_def and_then_Inr_iff dest!: apply_to_merges)
  qed
qed

text \<open>A task's own sandbox table adds to the workflow's and takes nothing away: the hosts, paths and
  programs the workflow names stay, so a path it denies is denied to every sandboxed task.\<close>

theorem task_keeps_workflow_sandbox:
  assumes "resolve_sandbox (Some w) s = Inr (Some p)"
  shows "named_hosts (sp_network w) \<subseteq> named_hosts (sp_network p) \<and>
    set (fp_read_deny (sp_filesystem w)) \<subseteq> set (read_deny (sp_filesystem p)) \<and>
    set (fp_write_deny (sp_filesystem w)) \<subseteq> set (write_deny (sp_filesystem p)) \<and>
    set (fp_write_allow (sp_filesystem w)) \<subseteq> set (write_allow (sp_filesystem p) h) \<and>
    (\<forall>b. sp_executables w = Some b \<longrightarrow>
      (\<exists>b'. sp_executables p = Some b' \<and> named_programs b \<subseteq> named_programs b'))"
proof -
  obtain n f e where p: "p = SandboxPolicy_merge w n f e"
    using resolve_sandbox_merges [OF assms] by blast
  note keeps = SandboxPolicy_merge_keeps [where p = w and n = n and f = f and e = e, folded p]
  have in_rules: "x \<in> set (fp_read_deny q) \<Longrightarrow> DenyRead x \<in> named_paths q"
    "x \<in> set (fp_write_deny q) \<Longrightarrow> DenyWrite x \<in> named_paths q"
    "x \<in> set (fp_write_allow q) \<Longrightarrow> AllowWrite x \<in> named_paths q" for x q
    by (auto simp: named_paths_def)
  show ?thesis
  proof (intro conjI)
    show "set (fp_read_deny (sp_filesystem w)) \<subseteq> set (read_deny (sp_filesystem p))"
      using keeps(2) in_rules(1) named_paths_apply(1) by blast
    show "set (fp_write_deny (sp_filesystem w)) \<subseteq> set (write_deny (sp_filesystem p))"
      using keeps(2) in_rules(2) named_paths_apply(3) by blast
    show "set (fp_write_allow (sp_filesystem w)) \<subseteq> set (write_allow (sp_filesystem p) h)"
      using keeps(2) in_rules(3) named_paths_apply(2) by blast
  qed (use keeps(1,3) in auto)
qed

theorem task_keeps_workflow_sandbox_witness:
  "SandboxPath ''secrets'' \<in> set (read_deny (sp_filesystem
     (SandboxPolicy_default\<lparr>sp_filesystem := FilesystemPolicy_default\<lparr>fp_read_deny := [SandboxPath ''secrets'']\<rparr>\<rparr>)))"
proof -
  let ?w = "SandboxPolicy_default
    \<lparr>sp_filesystem := FilesystemPolicy_default\<lparr>fp_read_deny := [SandboxPath ''secrets'']\<rparr>\<rparr>"
  have "resolve_sandbox (Some ?w) (Some (Enabled True)) = Inr (Some ?w)"
    by (simp add: resolve_sandbox_def)
  from task_keeps_workflow_sandbox [OF this, of None] show ?thesis by simp
qed

subsection \<open>A loaded manifest\<close>

lemma TaskId_map_err: "map_err TaskIdError_text (TaskId_from_str v) = Inr i \<longleftrightarrow> id_text i = v \<and> task_id_valid i"
  by (simp add: map_err_Inr_iff TaskId_from_str_iff)

lemma parse_task_ids:
  "parse_all TaskId_from_str TaskIdError_text vs = Inr is \<Longrightarrow>
     map id_text is = vs \<and> list_all task_id_valid is"
  unfolding parse_all_def traverse_Inr_iff TaskId_map_err
  by (induction rule: list_all2_induct) auto

text \<open>What a task of the document becomes.\<close>

definition declared :: "manifest_task \<Rightarrow> task_definition \<Rightarrow> bool" where
  "declared t d \<longleftrightarrow>
     id_text (td_id d) = mt_id t \<and> task_id_valid (td_id d) \<and>
     map id_text (td_depends_on d) = mt_depends_on t \<and>
     (td_sandbox d = None \<longleftrightarrow> mt_sandbox t = Some (Enabled False))"

lemma read_prompt_file_keeps:
  "read_prompt_file rd directory t = Inr t' \<Longrightarrow>
     mt_id t' = mt_id t \<and> mt_depends_on t' = mt_depends_on t \<and> mt_sandbox t' = mt_sandbox t"
  by (auto simp: read_prompt_file_def Let_def and_then_Inr_iff split: option.splits if_splits)

lemma read_definition_declared:
  assumes "read_definition env directory w t = Inr d" shows "declared t d"
proof -
  obtain t' where t': "read_prompt_file (read_file env) directory t = Inr t'"
    and d: "into_definition w t' = Inr d"
    using assms by (auto simp: read_definition_def and_then_Inr_iff map_err_Inr_iff)
  from d obtain sb i deps request where sb: "resolve_sandbox w (mt_sandbox t') = Inr sb"
    and i: "id_text i = mt_id t'" "task_id_valid i"
    and deps: "parse_all TaskId_from_str TaskIdError_text (mt_depends_on t') = Inr deps"
    and d': "d = sandboxed sb (TaskDefinition_new i deps request)"
    by (auto simp: into_definition_def and_then_Inr_iff TaskId_map_err)
  show ?thesis
    using read_prompt_file_keeps [OF t'] i parse_task_ids [OF deps] sb
      resolve_sandbox_None_iff [of w "mt_sandbox t'"]
    by (auto simp: declared_def d' sandboxed_def TaskDefinition_new_def)
qed

lemma load_parts:
  assumes "load cal env path = Inr m"
  obtains source doc w defs where
    "read_file env path = Inr source" "parse_document env path source = Inr doc"
    "resolve_schedules cal (doc_schedule doc) = Inr (mft_schedules m)"
    "transpose_map SandboxPolicy_try_from (doc_sandbox doc) = Inr w"
    "list_all2 declared (doc_tasks doc) defs"
    "Workflow_try_from defs = Inr (mft_workflow m)"
proof -
  obtain source doc w defs where
    parts: "read_file env path = Inr source" "parse_document env path source = Inr doc"
    "resolve_schedules cal (doc_schedule doc) = Inr (mft_schedules m)"
    "transpose_map SandboxPolicy_try_from (doc_sandbox doc) = Inr w"
    "Workflow_try_from defs = Inr (mft_workflow m)"
    and defs: "traverse (read_definition env (case parent path of Some p \<Rightarrow> p | None \<Rightarrow> []) w) (doc_tasks doc) = Inr defs"
    using assms by (auto simp: load_def Let_def and_then_Inr_iff map_err_Inr_iff)
  from defs have "list_all2 declared (doc_tasks doc) defs"
    unfolding traverse_Inr_iff by (rule list_all2_mono) (rule read_definition_declared)
  then show thesis by (rule that [OF parts(1-4) _ parts(5)])
qed

lemma load_declares:
  assumes "load cal env path = Inr m"
  shows "workflow_ok (mft_workflow m) \<and>
    (\<exists>source doc. read_file env path = Inr source \<and> parse_document env path source = Inr doc \<and>
      list_all2 (\<lambda>t k. id_text (t_id k) = mt_id t \<and>
          (t_sandbox k = None \<longleftrightarrow> mt_sandbox t = Some (Enabled False)))
        (doc_tasks doc) (tasks (mft_workflow m)))"
proof -
  obtain source doc w defs where parts: "read_file env path = Inr source"
    "parse_document env path source = Inr doc"
    and declared: "list_all2 declared (doc_tasks doc) defs"
    and built: "Workflow_try_from defs = Inr (mft_workflow m)"
    using load_parts [OF assms] by metis
  have rep: "represents defs (mft_workflow m)" and ok: "workflow_ok (mft_workflow m)"
    using Workflow_try_from_builds [OF built] represents_workflow_ok by auto
  have len: "length (tasks (mft_workflow m)) = length defs"
    using rep by (simp add: represents_def)
  have "t_sandbox (tasks (mft_workflow m) ! i) = td_sandbox (defs ! i) \<and>
      t_id (tasks (mft_workflow m) ! i) = td_id (defs ! i)" if "i < length defs" for i
    using rep that by (simp add: represents_def)
  then have "list_all2 (\<lambda>t k. id_text (t_id k) = mt_id t \<and>
          (t_sandbox k = None \<longleftrightarrow> mt_sandbox t = Some (Enabled False)))
        (doc_tasks doc) (tasks (mft_workflow m))"
    using declared len by (auto simp: list_all2_conv_all_nth declared_def)
  with parts ok show ?thesis by blast
qed


text \<open>C11. A manifest that loads gives a valid workflow that holds the tasks of the document in order,
  under their IDs, and a task has no sandbox exactly when it says \<open>sandbox: false\<close>.\<close>

theorem load_gives_declared_tasks:
  assumes "load cal env path = Inr m"
  shows "workflow_ok (mft_workflow m) \<and>
    (\<exists>source doc. read_file env path = Inr source \<and> parse_document env path source = Inr doc \<and>
      list_all2 (\<lambda>t k. id_text (t_id k) = mt_id t \<and>
          (t_sandbox k = None \<longleftrightarrow> mt_sandbox t = Some (Enabled False)))
        (doc_tasks doc) (tasks (mft_workflow m)))"
  by (rule load_declares [OF assms])

definition demo_loader :: loader where
  "demo_loader = \<lparr>read_file = Inr, parse_yaml = (\<lambda>_. Inr
     \<lparr>doc_schedule = None, doc_sandbox = None,
      doc_tasks = [\<lparr>mt_id = ''a'', mt_depends_on = [], mt_harness = None, mt_prompt = None,
        mt_prompt_file = None, mt_model = None, mt_effort = None, mt_command = Some [''ls''],
        mt_sandbox = Some (Enabled False)\<rparr>]\<rparr>), parse_json = Inl\<rparr>"

lemma demo_load:
  "load demo_calendar demo_loader ''f.yaml'' = Inr
     \<lparr>mft_workflow = \<lparr>tasks = [\<lparr>t_id = TaskId ''a'', t_dependencies = [], t_reads = [],
        t_request = CommandRequest ''ls'' [], t_sandbox = None\<rparr>]\<rparr>, mft_schedules = []\<rparr>"
  by code_simp

theorem load_gives_declared_tasks_witness:
  "workflow_ok \<lparr>tasks = [\<lparr>t_id = TaskId ''a'', t_dependencies = [], t_reads = [],
     t_request = CommandRequest ''ls'' [], t_sandbox = None\<rparr>]\<rparr>"
  using load_gives_declared_tasks [OF demo_load] by simp

end
