(* ===== verification/Store.thy ===== *)
theory Store
  imports Schedule Process
begin

text \<open>
  \<open>beez-daemon/src/paths.rs\<close> and \<open>store.rs\<close>: where the daemon keeps its files, the list of watched
  manifests and the state of each job, and how a file is read and replaced.

  The locale \<open>keyed_store\<close> is the contract of the two stores. Paths are compared as Rust compares them,
  by their components.
\<close>

subsection \<open>Where the files are\<close>

definition DIRECTORY :: string where "DIRECTORY = ''daemon''"

definition SOCKET :: string where "SOCKET = ''daemon.sock''"

definition RECORD :: string where "RECORD = ''daemon.json''"

definition LOG :: string where "LOG = ''daemon.log''"

definition MANIFESTS :: string where "MANIFESTS = ''manifests.json''"

definition STATE :: string where "STATE = ''state.json''"

definition SOCKET_LIMIT :: nat where "SOCKET_LIMIT = 100"

text \<open>FNV-1a on 64 bits, and the format \<open>{:016x}\<close>.\<close>

definition fingerprint :: "string \<Rightarrow> 64 word" where
  "fingerprint path =
     foldl (\<lambda>hash b. (xor hash (word_of_nat (byte b))) * 0x100000001b3) 0xcbf29ce484222325 path"

fun hex_digits :: "nat \<Rightarrow> nat \<Rightarrow> string" where
  "hex_digits 0 n = []"
| "hex_digits (Suc w) n = hex_digits w (n div 16) @ [hex_digit (n mod 16)]"

definition socket_path :: "string \<Rightarrow> string \<Rightarrow> string" where
  "socket_path temp_dir directory =
     (let inside = path_join directory SOCKET in
      if length inside \<le> SOCKET_LIMIT then inside
      else path_join temp_dir (''beez-'' @ hex_digits 16 (unat (fingerprint directory)) @ ''.sock''))"

record daemon_paths =
  dp_root :: string
  dp_socket :: string

definition DaemonPaths_new :: "string \<Rightarrow> string \<Rightarrow> daemon_paths" where
  "DaemonPaths_new temp_dir root =
     \<lparr>dp_root = root, dp_socket = socket_path temp_dir (path_join root DIRECTORY)\<rparr>"

definition DaemonPaths_user :: "string \<Rightarrow> string option \<Rightarrow> io_error + daemon_paths" where
  "DaemonPaths_user temp_dir home_dir =
     and_then (ok_or (io_other ''the daemon needs the home directory'') home_dir) (\<lambda>home.
       Inr (DaemonPaths_new temp_dir (path_join home ''.beez'')))"

definition dp_directory :: "daemon_paths \<Rightarrow> string" where
  "dp_directory p = path_join (dp_root p) DIRECTORY"

definition dp_record :: "daemon_paths \<Rightarrow> string" where
  "dp_record p = path_join (dp_directory p) RECORD"

definition dp_log :: "daemon_paths \<Rightarrow> string" where
  "dp_log p = path_join (dp_directory p) LOG"

definition dp_manifests :: "daemon_paths \<Rightarrow> string" where
  "dp_manifests p = path_join (dp_directory p) MANIFESTS"

definition dp_state :: "daemon_paths \<Rightarrow> string" where
  "dp_state p = path_join (dp_directory p) STATE"

lemma length_hex_digits [simp]: "length (hex_digits w n) = w"
  by (induction w arbitrary: n) simp_all

lemma length_path_join: "length (path_join base p) \<le> length base + 1 + length p"
  by (simp add: path_join_def)

text \<open>The socket path never exceeds what a Unix socket can hold, as long as the temporary directory
  is at most 73 bytes long: a root that is too deep falls back to a name of fixed length.\<close>

theorem socket_path_fits:
  assumes "length temp_dir \<le> 73"
  shows "length (dp_socket (DaemonPaths_new temp_dir root)) \<le> 100"
proof -
  have "length (path_join temp_dir (''beez-'' @ hex_digits 16 n @ ''.sock'')) \<le> 100" for n
    using assms length_path_join [of temp_dir "''beez-'' @ hex_digits 16 n @ ''.sock''"] by simp
  then show ?thesis by (simp add: DaemonPaths_new_def socket_path_def Let_def SOCKET_LIMIT_def)
qed

theorem socket_path_fits_witness:
  "length (dp_socket (DaemonPaths_new ''/tmp'' (replicate 200 CHR ''a''))) \<le> 100"
  by (rule socket_path_fits) simp

subsection \<open>The two stores\<close>

locale keyed_store =
  fixes same :: "'k \<Rightarrow> 'k \<Rightarrow> bool"
    and look :: "'s \<Rightarrow> 'k \<Rightarrow> 'v option"
    and put :: "'s \<Rightarrow> 'k \<Rightarrow> 'v \<Rightarrow> 's"
    and keep :: "('k \<Rightarrow> bool) \<Rightarrow> 's \<Rightarrow> 's"
  assumes same_refl: "same k k"
    and look_put: "look (put s k v) k' = (if same k k' then Some v else look s k')"
    and look_keep: "(\<And>a b. same a b \<Longrightarrow> P a = P b) \<Longrightarrow>
      look (keep P s) k = (if P k then look s k else None)"
begin

lemma look_put_same: "look (put s k v) k = Some v"
  by (simp add: look_put same_refl)

lemma look_put_put: "look (put (put s k v) k w) k' = look (put s k w) k'"
  by (simp add: look_put)

lemma look_kept: "(\<And>a b. same a b \<Longrightarrow> P a = P b) \<Longrightarrow> P k \<Longrightarrow> look (keep P s) k = look s k"
  by (simp add: look_keep)

lemma look_dropped: "(\<And>a b. same a b \<Longrightarrow> P a = P b) \<Longrightarrow> \<not> P k \<Longrightarrow> look (keep P s) k = None"
  by (simp add: look_keep)

end

definition SCHEMA :: nat where "SCHEMA = 1"

record watched =
  w_path :: string
  w_working_directory :: string

record registry =
  rg_schema :: nat
  rg_manifests :: "watched list"

definition Registry_default :: registry where
  "Registry_default = \<lparr>rg_schema = SCHEMA, rg_manifests = []\<rparr>"

definition watches :: "registry \<Rightarrow> string \<Rightarrow> bool" where
  "watches r path = list_ex (\<lambda>w. path_eq (w_path w) path) (rg_manifests r)"

definition retain_paths :: "(string \<Rightarrow> bool) \<Rightarrow> registry \<Rightarrow> registry" where
  "retain_paths keep r = r\<lparr>rg_manifests := filter (\<lambda>w. keep (w_path w)) (rg_manifests r)\<rparr>"

definition Registry_add :: "registry \<Rightarrow> watched \<Rightarrow> registry \<times> bool" where
  "Registry_add r w =
     (let added = \<not> watches r (w_path w);
          r = retain_paths (\<lambda>p. \<not> path_eq p (w_path w)) r in
      (r\<lparr>rg_manifests := rg_manifests r @ [w]\<rparr>, added))"

definition Registry_remove :: "registry \<Rightarrow> string \<Rightarrow> registry \<times> bool" where
  "Registry_remove r path =
     (let before = length (rg_manifests r);
          r = retain_paths (\<lambda>p. \<not> path_eq p path) r in
      (r, before \<noteq> length (rg_manifests r)))"

record job_state =
  st_paused :: bool
  st_last_fire :: "instant option"
  st_last_run :: "string option"
  st_last_status :: "int option"

definition JobState_default :: job_state where
  "JobState_default =
     \<lparr>st_paused = False, st_last_fire = None, st_last_run = None, st_last_status = None\<rparr>"

record states =
  ss_schema :: nat
  ss_jobs :: "string \<Rightarrow> job_state option"

definition States_default :: states where
  "States_default = \<lparr>ss_schema = SCHEMA, ss_jobs = (\<lambda>_. None)\<rparr>"

definition States_get :: "states \<Rightarrow> string \<Rightarrow> job_state" where
  "States_get s job = (case ss_jobs s job of Some st \<Rightarrow> st | None \<Rightarrow> JobState_default)"

definition States_set :: "states \<Rightarrow> string \<Rightarrow> job_state \<Rightarrow> states" where
  "States_set s job st = s\<lparr>ss_jobs := (ss_jobs s)(job := Some st)\<rparr>"

definition keep_only :: "states \<Rightarrow> string list \<Rightarrow> states" where
  "keep_only s jobs = s\<lparr>ss_jobs := (\<lambda>i. if list_ex (\<lambda>job. job = i) jobs then ss_jobs s i else None)\<rparr>"

definition directory_of :: "registry \<Rightarrow> string \<Rightarrow> string option" where
  "directory_of r path =
     map_option w_working_directory (find (\<lambda>w. path_eq (w_path w) path) (rg_manifests r))"

lemma path_eq_equiv:
  "path_eq p p" "path_eq p q \<Longrightarrow> path_eq q p" "path_eq p q \<Longrightarrow> path_eq q r \<Longrightarrow> path_eq p r"
  by (simp_all add: path_eq_def)

lemma find_filter_other:
  "(\<And>x. p x \<Longrightarrow> q x) \<Longrightarrow> find p (filter q xs) = find p xs"
  by (induction xs) auto

lemma directory_of_retain:
  assumes "\<And>a b. path_eq a b \<Longrightarrow> P a = P b"
  shows "directory_of (retain_paths P r) k = (if P k then directory_of r k else None)"
proof (cases "P k")
  case True
  then have "find (\<lambda>w. path_eq (w_path w) k) (filter (\<lambda>w. P (w_path w)) (rg_manifests r)) =
      find (\<lambda>w. path_eq (w_path w) k) (rg_manifests r)"
    using assms by (intro find_filter_other) metis
  with True show ?thesis by (simp add: directory_of_def retain_paths_def)
next
  case False
  then have "find (\<lambda>w. path_eq (w_path w) k) (filter (\<lambda>w. P (w_path w)) (rg_manifests r)) = None"
    using assms by (auto simp: find_None_iff)
  with False show ?thesis by (simp add: directory_of_def retain_paths_def)
qed

interpretation registries: keyed_store path_eq directory_of
  "\<lambda>r k v. fst (Registry_add r \<lparr>w_path = k, w_working_directory = v\<rparr>)" retain_paths
proof unfold_locales
  fix r k v k'
  have "directory_of (retain_paths (\<lambda>p. \<not> path_eq p k) r) k' = (if \<not> path_eq k' k then directory_of r k' else None)"
    by (rule directory_of_retain) (auto simp: path_eq_def)
  then show "directory_of (fst (Registry_add r \<lparr>w_path = k, w_working_directory = v\<rparr>)) k' =
      (if path_eq k k' then Some v else directory_of r k')"
    by (auto simp: Registry_add_def Let_def directory_of_def find_append path_eq_def split: option.splits)
next
  fix P :: "string \<Rightarrow> bool" and r k assume "\<And>a b. path_eq a b \<Longrightarrow> P a = P b"
  then show "directory_of (retain_paths P r) k = (if P k then directory_of r k else None)"
    by (rule directory_of_retain)
qed (rule path_eq_equiv(1))

interpretation job_states: keyed_store "(=)" ss_jobs States_set
  "\<lambda>P s. s\<lparr>ss_jobs := (\<lambda>i. if P i then ss_jobs s i else None)\<rparr>"
  by unfold_locales (simp_all add: States_set_def)

lemma keep_only_jobs: "ss_jobs (keep_only s jobs) i = (if i \<in> set jobs then ss_jobs s i else None)"
  by (auto simp: keep_only_def list_ex_iff)

lemma States_get_set: "States_get (States_set s i st) j = (if i = j then st else States_get s j)"
  by (simp add: States_get_def States_set_def)

lemma watches_iff: "watches r p \<longleftrightarrow> directory_of r p \<noteq> None"
  by (auto simp: watches_def directory_of_def find_None_iff list_ex_iff)

text \<open>Adding a manifest leaves it watched once with the new directory, and removing it leaves it
  unwatched; both report whether it was watched before, and no other manifest changes.\<close>

theorem registry_add_remove:
  "directory_of (fst (Registry_add r w)) p =
     (if path_eq (w_path w) p then Some (w_working_directory w) else directory_of r p) \<and>
   snd (Registry_add r w) = (\<not> watches r (w_path w)) \<and>
   directory_of (fst (Registry_remove r q)) p = (if path_eq p q then None else directory_of r p) \<and>
   snd (Registry_remove r q) = watches r q"
proof (intro conjI)
  show "directory_of (fst (Registry_add r w)) p =
     (if path_eq (w_path w) p then Some (w_working_directory w) else directory_of r p)"
    using registries.look_put [of r "w_path w" "w_working_directory w" p] by (cases w) simp
  show "snd (Registry_add r w) = (\<not> watches r (w_path w))"
    by (simp add: Registry_add_def Let_def)
  have "directory_of (retain_paths (\<lambda>p. \<not> path_eq p q) r) p = (if \<not> path_eq p q then directory_of r p else None)"
    by (rule directory_of_retain) (auto simp: path_eq_def)
  then show "directory_of (fst (Registry_remove r q)) p = (if path_eq p q then None else directory_of r p)"
    by (simp add: Registry_remove_def Let_def)
  show "snd (Registry_remove r q) = watches r q"
  proof (cases "watches r q")
    case True
    then obtain w where "w \<in> set (rg_manifests r)" "path_eq (w_path w) q"
      by (auto simp: watches_def list_ex_iff)
    then have "length (filter (\<lambda>w. \<not> path_eq (w_path w) q) (rg_manifests r)) < length (rg_manifests r)"
      by (intro length_filter_less) auto
    with True show ?thesis by (simp add: Registry_remove_def Let_def retain_paths_def)
  next
    case False
    then have "filter (\<lambda>w. \<not> path_eq (w_path w) q) (rg_manifests r) = rg_manifests r"
      by (auto simp: watches_def list_ex_iff filter_id_conv)
    with False show ?thesis by (simp add: Registry_remove_def Let_def retain_paths_def)
  qed
qed


subsection \<open>The files\<close>

text \<open>\<open>load_json\<close>: a missing file is an empty store. The JSON parser is a parameter.\<close>

definition load_json :: "(string \<Rightarrow> string + 'a) \<Rightarrow> 'a \<Rightarrow> io_error + string \<Rightarrow> io_error + 'a" where
  "load_json parse missing source =
     (case source of
        Inr source \<Rightarrow> map_err io_other (parse source)
      | Inl e \<Rightarrow> if io_kind e = ''NotFound'' then Inr missing else Inl e)"

definition load_all ::
    "(string \<Rightarrow> string + registry) \<Rightarrow> (string \<Rightarrow> string + states) \<Rightarrow> (string \<Rightarrow> io_error + string)
     \<Rightarrow> daemon_paths \<Rightarrow> io_error + registry \<times> states" where
  "load_all parse_registry parse_states read_file dp =
     and_then (load_json parse_registry Registry_default (read_file (dp_manifests dp))) (\<lambda>registry.
     and_then (load_json parse_states States_default (read_file (dp_state dp))) (\<lambda>states.
       Inr (registry, states)))"

text \<open>
  \<open>save_json\<close> as the calls it makes on a file system of whole files: the text goes to a file beside
  the target, which then takes the place of the target. A stop of the daemon leaves a prefix of the
  calls done, and \<open>written\<close> is how much of one write reached the file.
\<close>

datatype file_call = CreateFile string | AppendTo string string | SyncFile string | Rename string string

primrec apply_call :: "file_call \<Rightarrow> (string \<Rightarrow> string option) \<Rightarrow> string \<Rightarrow> string option" where
  "apply_call (CreateFile p) fs = fs(p := Some [])"
| "apply_call (AppendTo p t) fs = fs(p := map_option (\<lambda>old. old @ t) (fs p))"
| "apply_call (SyncFile p) fs = fs"
| "apply_call (Rename p q) fs = fs(q := fs p, p := None)"

definition file_stem :: "string \<Rightarrow> string option" where
  "file_stem p =
     (case file_name p of
        None \<Rightarrow> None
      | Some name \<Rightarrow>
          (case rsplit_once CHR ''.'' name of
             None \<Rightarrow> Some name
           | Some (stem, extension) \<Rightarrow> Some (if stem = [] then name else stem)))"

text \<open>\<open>Path::with_extension\<close>, for an extension that is not empty.\<close>

definition with_extension :: "string \<Rightarrow> string \<Rightarrow> string" where
  "with_extension p extension =
     (case (parent p, file_stem p) of
        (Some directory, Some stem) \<Rightarrow> path_join directory (stem @ ''.'' @ extension)
      | _ \<Rightarrow> p)"

definition save_json :: "string \<Rightarrow> string \<Rightarrow> file_call list" where
  "save_json path body =
     (let temporary = with_extension path ''writing'' in
      [CreateFile temporary, AppendTo temporary body, AppendTo temporary [newline], SyncFile temporary,
       Rename temporary path])"

definition torn :: "file_call list \<Rightarrow> nat \<Rightarrow> nat \<Rightarrow> file_call list" where
  "torn calls n written =
     take n calls @ (case drop n calls of AppendTo p t # _ \<Rightarrow> [AppendTo p (take written t)] | _ \<Rightarrow> [])"

definition run_calls :: "file_call list \<Rightarrow> (string \<Rightarrow> string option) \<Rightarrow> string \<Rightarrow> string option" where
  "run_calls calls fs = fold apply_call calls fs"

text \<open>C12. Wherever a save stops, the file holds what it held before or all of the new text, never half a
  file; and a save that completes leaves all of it.\<close>

theorem save_is_atomic:
  assumes "with_extension path ''writing'' \<noteq> path"
  shows "run_calls (torn (save_json path body) n written) fs path \<in> {fs path, Some (body @ [newline])} \<and>
    run_calls (save_json path body) fs path = Some (body @ [newline])"
proof -
  consider "n = 0" | "n = 1" | "n = 2" | "n = 3" | "n = 4" | "5 \<le> n" by linarith
  then show ?thesis
    by cases (use assms in \<open>simp_all add: torn_def run_calls_def save_json_def Let_def numeral_eq_Suc\<close>)
qed

theorem save_is_atomic_witness:
  "run_calls (torn (save_json ''/r/state.json'' ''new'') 1 2) (\<lambda>_. Some ''old'') ''/r/state.json''
     \<in> {Some ''old'', Some (''new'' @ [newline])}"
proof -
  have "with_extension ''/r/state.json'' ''writing'' \<noteq> ''/r/state.json''" by code_simp
  from save_is_atomic [OF this, of "''new''" 1 2 "\<lambda>_. Some ''old''"] show ?thesis by simp
qed

subsection \<open>Instants in the state file\<close>

text \<open>
  The last fire of a job is written by \<open>format_instant\<close> and read by \<open>parse_instant\<close>; the text has whole
  seconds.
\<close>

definition write_instant :: "('p, 'z, 'm) calendar_scheme \<Rightarrow> instant option \<Rightarrow> string option" where
  "write_instant cal time = map_option (format_instant cal) time"

definition read_instant ::
    "('p, 'z, 'm) calendar_scheme \<Rightarrow> string option \<Rightarrow> string + instant option" where
  "read_instant cal source =
     (case source of
        None \<Rightarrow> Inr None
      | Some source \<Rightarrow> and_then (map_err ScheduleError_text (parse_instant cal source)) (\<lambda>t. Inr (Some t)))"

text \<open>The documented behaviour of the two formats: to the second, and read back.\<close>

definition reads_seconds :: "('p, 'z, 'm) calendar_scheme \<Rightarrow> bool" where
  "reads_seconds cal \<longleftrightarrow>
     (\<forall>t. 0 \<le> t \<longrightarrow> parse_rfc3339 cal (utc_text cal t) = Some (t div 1000000000 * 1000000000))"

lemma reread_instant:
  assumes "reads_seconds cal" and "0 \<le> t"
  shows "read_instant cal (write_instant cal (Some t)) = Inr (Some (t div 1000000000 * 1000000000))"
  using assms by (simp add: read_instant_def write_instant_def format_instant_def reads_seconds_def
      parse_instant_def pos_imp_zdiv_nonneg_iff not_less)

text \<open>A whole second is read back from the state file as it was, and a fraction of a second is lost,
  so a one-time schedule at a fraction of a second fires again after a restart: the instant comes
  after the last fire that the file holds.\<close>

theorem restart_forgets_fraction:
  assumes "reads_seconds cal" and "0 \<le> t"
  shows "\<exists>last. read_instant cal (write_instant cal (Some t)) = Inr (Some last) \<and>
    (last = t \<longleftrightarrow> 1000000000 dvd t) \<and>
    next_after cal (Once t) last = (if 1000000000 dvd t then None else Some t)"
proof -
  let ?last = "t div 1000000000 * 1000000000"
  have le: "?last \<le> t" by presburger
  have "?last = t \<longleftrightarrow> 1000000000 dvd t" by (metis dvd_div_mult_self dvd_triv_right)
  then have "?last < t \<longleftrightarrow> \<not> 1000000000 dvd t" using le by linarith
  then show ?thesis using reread_instant [OF assms] \<open>?last = t \<longleftrightarrow> _\<close> by simp
qed

definition plain_calendar :: "(string, unit) calendar" where
  "plain_calendar = demo_calendar
     \<lparr>utc_text := (\<lambda>t. dec (nat (t div 1000000000))),
      parse_rfc3339 := (\<lambda>s. Some (int (undec s) * 1000000000))\<rparr>"

lemma plain_reads_seconds: "reads_seconds plain_calendar"
  by (simp add: reads_seconds_def plain_calendar_def pos_imp_zdiv_nonneg_iff)

theorem restart_forgets_fraction_witness:
  "next_after plain_calendar (Once 1500000000) 1000000000 = Some 1500000000 \<and>
   read_instant plain_calendar (write_instant plain_calendar (Some 1500000000)) = Inr (Some 1000000000)"
  using restart_forgets_fraction [OF plain_reads_seconds, of 1500000000]
    reread_instant [OF plain_reads_seconds, of 1500000000] by simp

end
