(* ===== verification/Job.thy ===== *)
theory Job
  imports Manifest Store
begin

text \<open>
  \<open>beez-daemon/src/job.rs\<close>, \<open>message.rs\<close> and the data of \<open>control.rs\<close>: the jobs the daemon fires,
  built from the manifests it watches, and what a command says and is answered.

  What lies outside the daemon at one moment is the record \<open>outside\<close>: the calendar, the files a
  manifest is loaded from, when each file last changed, what the two stores of the daemon read and
  whether they can be written, and what a sweep of the runs returns.
\<close>

record ('p, 'z) outside =
  o_calendar :: "('p, 'z) calendar"
  o_loader :: loader
  o_modified :: "string \<Rightarrow> instant option"
  o_registry :: "io_error + registry"
  o_save_registry :: "io_error + unit"
  o_save_states :: "io_error + unit"
  o_sweep :: "io_error + nat"

definition load_manifest :: "('p, 'z, 'm) outside_scheme \<Rightarrow> string \<Rightarrow> manifest_error + 'p manifest" where
  "load_manifest out path = load (o_calendar out) (o_loader out) path"

subsection \<open>What a command answers\<close>

definition not_watched :: "string \<Rightarrow> string" where
  "not_watched m = m @ '' is not watched''"

definition watching :: "string \<Rightarrow> bool \<Rightarrow> string" where
  "watching m added = (if added then ''watching'' else ''read again'') @ '' '' @ m"

definition stopped_watching :: "string \<Rightarrow> string" where
  "stopped_watching m = ''stopped watching '' @ m"

definition held :: "string \<Rightarrow> bool \<Rightarrow> string" where
  "held job paused = (if paused then ''paused'' else ''resumed'') @ '' '' @ job"

definition taken_id :: "string \<Rightarrow> string" where
  "taken_id job = ''job '' @ job @ '' already comes from another manifest''"

definition unknown_job :: "string \<Rightarrow> string" where
  "unknown_job job = ''no job named '' @ job"

definition already_running :: "string \<Rightarrow> string" where
  "already_running root = ''a daemon already runs for '' @ root"

definition unwritable_registry :: "io_error \<Rightarrow> string" where
  "unwritable_registry e = ''cannot write the manifest list: '' @ io_text e"

datatype request =
    StatusRequest
  | Add string string
  | Remove string
  | Pause string
  | Resume string
  | Trigger string
  | Reload
  | Stop

record job_report =
  jr_id :: string
  jr_manifest :: string
  jr_schedule :: "string option"
  jr_condition :: string
  jr_next_fire :: "string option"
  jr_last_fire :: "string option"
  jr_last_run :: "string option"
  jr_last_status :: "int option"
  jr_error :: "string option"

datatype response =
    StatusResponse nat string nat "job_report list"
  | Done string
  | Refused string

subsection \<open>Jobs\<close>

record 'p job =
  j_id :: string
  j_manifest :: string
  j_working_directory :: string
  j_schedule :: "'p job_schedule option"
  j_error :: "string option"
  j_next_fire :: "instant option"
  j_running :: bool
  j_queued :: bool
  j_state :: job_state

definition Job_new ::
    "string \<Rightarrow> watched \<Rightarrow> 'p job_schedule option \<Rightarrow> string option \<Rightarrow> states \<Rightarrow> 'p job" where
  "Job_new i w schedule e s =
     \<lparr>j_id = i, j_manifest = w_path w, j_working_directory = w_working_directory w,
      j_schedule = schedule, j_error = e, j_next_fire = None, j_running = False, j_queued = False,
      j_state = States_get s i\<rparr>"

definition enabled :: "'p job \<Rightarrow> bool" where
  "enabled job = (case j_schedule job of Some s \<Rightarrow> js_enabled s | None \<Rightarrow> False)"

definition job_ready :: "'p job \<Rightarrow> bool" where
  "job_ready job \<longleftrightarrow> j_error job = None \<and> enabled job \<and> \<not> st_paused (j_state job)"

definition condition :: "'p job \<Rightarrow> string" where
  "condition job =
     (if j_error job \<noteq> None then ''broken''
      else if j_running job then ''running''
      else if st_paused (j_state job) then ''paused''
      else if \<not> enabled job then ''disabled''
      else if j_next_fire job = None then ''done''
      else if j_queued job then ''queued''
      else ''waiting'')"

definition Job_report :: "('p, 'z, 'm) calendar_scheme \<Rightarrow> 'p job \<Rightarrow> job_report" where
  "Job_report cal job =
     \<lparr>jr_id = j_id job, jr_manifest = j_manifest job,
      jr_schedule = map_option (\<lambda>s. Schedule_text cal (js_schedule s)) (j_schedule job),
      jr_condition = condition job,
      jr_next_fire = map_option (format_instant cal) (j_next_fire job),
      jr_last_fire = map_option (format_instant cal) (st_last_fire (j_state job)),
      jr_last_run = st_last_run (j_state job),
      jr_last_status = st_last_status (j_state job),
      jr_error = j_error job\<rparr>"

record watched_manifest =
  wm_watched :: watched
  wm_modified :: "instant option"

definition stem :: "string \<Rightarrow> string" where
  "stem path = (case file_stem path of None \<Rightarrow> ''workflow'' | Some s \<Rightarrow> utf8_lossy s)"

definition every_task_sandboxed :: "'p manifest \<Rightarrow> bool" where
  "every_task_sandboxed m = list_all (\<lambda>t. t_sandbox t \<noteq> None) (tasks (mft_workflow m))"

definition broken :: "string \<Rightarrow> watched \<Rightarrow> states \<Rightarrow> string \<Rightarrow> 'p job" where
  "broken name w s e = Job_new name w None (Some e) s"

definition UNSANDBOXED :: string where
  "UNSANDBOXED =
     ''every task must set a sandbox, or the schedule must set allow_unsandboxed: true''"

definition job_of_schedule :: "watched \<Rightarrow> states \<Rightarrow> bool \<Rightarrow> 'p job_schedule \<Rightarrow> 'p job" where
  "job_of_schedule w s all_sandboxed schedule =
     (let i = (case js_name schedule of
                 Some name \<Rightarrow> stem (w_path w) @ '':'' @ name
               | None \<Rightarrow> stem (w_path w));
          e = (if \<not> all_sandboxed \<and> \<not> js_allow_unsandboxed schedule then Some UNSANDBOXED else None) in
      Job_new i w (Some schedule) e s)"

definition jobs_of :: "('p, 'z, 'm) outside_scheme \<Rightarrow> watched \<Rightarrow> states \<Rightarrow> 'p job list" where
  "jobs_of out w s =
     (case load_manifest out (w_path w) of
        Inl e \<Rightarrow> [broken (stem (w_path w)) w s (ManifestError_text e)]
      | Inr m \<Rightarrow>
          if mft_schedules m = [] then
            [broken (stem (w_path w)) w s ''manifest has no schedule section'']
          else map (job_of_schedule w s (every_task_sandboxed m)) (mft_schedules m))"

definition job_ids :: "'p job list \<Rightarrow> string list" where
  "job_ids jobs = map j_id jobs"

definition ids_of :: "('p, 'z, 'm) outside_scheme \<Rightarrow> watched \<Rightarrow> states \<Rightarrow> string list" where
  "ids_of out w s = job_ids (jobs_of out w s)"

definition build ::
    "('p, 'z, 'm) outside_scheme \<Rightarrow> registry \<Rightarrow> states \<Rightarrow> watched_manifest list \<times> 'p job list" where
  "build out r s =
     (map (\<lambda>w. \<lparr>wm_watched = w, wm_modified = o_modified out (w_path w)\<rparr>) (rg_manifests r),
      concat (map (\<lambda>w. jobs_of out w s) (rg_manifests r)))"

definition job_manifest_error :: "'p job list \<Rightarrow> string option" where
  "job_manifest_error jobs =
     Option.bind (find (\<lambda>job. j_schedule job = None) jobs) j_error"

definition admit :: "'p job list \<Rightarrow> string list \<Rightarrow> string + string list" where
  "admit jobs others =
     (case job_manifest_error jobs of
        Some e \<Rightarrow> Inl e
      | None \<Rightarrow>
          (case find (\<lambda>i. i \<in> set (job_ids jobs)) others of
             Some taken \<Rightarrow> Inl (taken_id taken)
           | None \<Rightarrow> Inr (job_ids jobs)))"

lemma Job_new_fields [simp]:
  "j_id (Job_new i w sch e s) = i" "j_manifest (Job_new i w sch e s) = w_path w"
  "j_working_directory (Job_new i w sch e s) = w_working_directory w"
  "j_schedule (Job_new i w sch e s) = sch" "j_error (Job_new i w sch e s) = e"
  "j_next_fire (Job_new i w sch e s) = None" "j_running (Job_new i w sch e s) = False"
  "j_queued (Job_new i w sch e s) = False" "j_state (Job_new i w sch e s) = States_get s i"
  by (simp_all add: Job_new_def)

lemma jobs_of_fresh:
  "j \<in> set (jobs_of out w s) \<Longrightarrow>
     j_manifest j = w_path w \<and> \<not> j_running j \<and> \<not> j_queued j \<and> j_next_fire j = None \<and>
     j_state j = States_get s (j_id j)"
  by (auto simp: jobs_of_def broken_def job_of_schedule_def Let_def split: sum.splits if_splits)

lemma jobs_of_not_Nil [simp]: "jobs_of out w s \<noteq> []"
  by (auto simp: jobs_of_def split: sum.splits)

lemma schedule_names_distinct:
  assumes "resolve_schedules cal setting = Inr js"
  shows "distinct (map js_name js)"
proof -
  have names: "distinct (List.map_filter js_name js)"
    and several: "length js \<le> 1 \<or> list_all (\<lambda>j. js_name j \<noteq> None) js"
    using assms
    by (auto simp: resolve_schedules_def and_then_Inr_iff repeated_name_def first_repeated_None_iff
        list_ex_iff list_all_iff split: option.splits if_splits)
  show ?thesis
  proof (cases "length js \<le> 1")
    case True
    then show ?thesis by (cases js) auto
  next
    case False
    with several have "\<forall>j\<in>set js. js_name j \<noteq> None" by (simp add: list_all_iff)
    then have "map js_name js = map Some (List.map_filter js_name js)"
      by (induction js) (auto simp: List.map_filter_simps)
    then show ?thesis using names by (simp add: distinct_map)
  qed
qed

lemma ids_of_schedules:
  "job_ids (map (job_of_schedule w s b) js) =
     map (\<lambda>n. case n of Some name \<Rightarrow> stem (w_path w) @ '':'' @ name | None \<Rightarrow> stem (w_path w))
       (map js_name js)"
  by (auto simp: job_ids_def job_of_schedule_def Let_def split: option.splits)

text \<open>The jobs of one manifest have distinct IDs.\<close>

theorem jobs_of_distinct: "distinct (job_ids (jobs_of out w s))"
proof (cases "load_manifest out (w_path w)")
  case (Inl e)
  then show ?thesis by (simp add: jobs_of_def job_ids_def)
next
  case (Inr m)
  then have "load (o_calendar out) (o_loader out) (w_path w) = Inr m" by (simp add: load_manifest_def)
  then have names: "distinct (map js_name (mft_schedules m))"
    by (rule load_parts) (rule schedule_names_distinct)
  let ?name = "\<lambda>n. case n of Some name \<Rightarrow> stem (w_path w) @ '':'' @ name | None \<Rightarrow> stem (w_path w)"
  have "inj_on ?name A" for A
    by (auto simp: inj_on_def split: option.splits)
  then have "distinct (map ?name xs)" if "distinct xs" for xs
    using that by (simp add: distinct_map)
  from this [OF names] have "distinct (map ?name (map js_name (mft_schedules m)))" .
  then have "distinct (job_ids (map (job_of_schedule w s b) (mft_schedules m)))" for b
    by (simp only: ids_of_schedules)
  then show ?thesis using Inr by (cases "mft_schedules m = []") (simp add: jobs_of_def job_ids_def, simp add: jobs_of_def)
qed

lemma admit_Inr_iff:
  "admit jobs others = Inr names \<longleftrightarrow>
     job_manifest_error jobs = None \<and> (\<forall>i\<in>set others. i \<notin> set (job_ids jobs)) \<and> names = job_ids jobs"
  by (auto simp: admit_def find_None_iff find_Some_iff split: option.splits)

text \<open>A job that may run comes from a manifest that loaded, and either its schedule allows tasks
  without a sandbox or the manifest says \<open>sandbox: false\<close> for none of its tasks.\<close>

theorem ready_job_is_sandboxed:
  assumes "j \<in> set (jobs_of out w s)" and "j_error j = None"
  shows "\<exists>m schedule source doc. load_manifest out (w_path w) = Inr m \<and>
    schedule \<in> set (mft_schedules m) \<and> j_schedule j = Some schedule \<and>
    read_file (o_loader out) (w_path w) = Inr source \<and>
    parse_document (o_loader out) (w_path w) source = Inr doc \<and>
    (js_allow_unsandboxed schedule \<or> Some (Enabled False) \<notin> set (map mt_sandbox (doc_tasks doc)))"
proof -
  obtain m schedule where m: "load_manifest out (w_path w) = Inr m" "schedule \<in> set (mft_schedules m)"
      "j_schedule j = Some schedule" "js_allow_unsandboxed schedule \<or> every_task_sandboxed m"
    using assms
    by (auto simp: jobs_of_def broken_def job_of_schedule_def Let_def split: sum.splits if_splits)
  from m(1) have "load (o_calendar out) (o_loader out) (w_path w) = Inr m" by (simp add: load_manifest_def)
  from load_declares [OF this] obtain source doc where
    doc: "read_file (o_loader out) (w_path w) = Inr source"
      "parse_document (o_loader out) (w_path w) source = Inr doc"
    and rel: "list_all2 (\<lambda>t k. id_text (t_id k) = mt_id t \<and>
          (t_sandbox k = None \<longleftrightarrow> mt_sandbox t = Some (Enabled False)))
        (doc_tasks doc) (tasks (mft_workflow m))"
    by blast
  have "Some (Enabled False) \<notin> set (map mt_sandbox (doc_tasks doc))" if "every_task_sandboxed m"
    using that list_all2_inE [OF rel] by (fastforce simp: every_task_sandboxed_def list_all_iff)
  with m doc show ?thesis by blast
qed


definition demo_fields :: schedule_fields where
  "demo_fields = \<lparr>sf_name = None, sf_cron = Some ''0 3 * * *'', sf_at = None, sf_offset = None,
     sf_on_overlap = Skip, sf_catch_up = False, sf_enabled = True, sf_allow_unsandboxed = False\<rparr>"

definition demo_task :: manifest_task where
  "demo_task = \<lparr>mt_id = ''a'', mt_depends_on = [], mt_harness = None, mt_prompt = None,
     mt_prompt_file = None, mt_model = None, mt_effort = None, mt_command = Some [''ls''],
     mt_sandbox = None\<rparr>"

definition demo_outside :: "(string, unit) outside" where
  "demo_outside =
     \<lparr>o_calendar = demo_calendar,
      o_loader = \<lparr>read_file = Inr, parse_yaml = (\<lambda>_. Inr
        \<lparr>doc_schedule = Some (One demo_fields), doc_sandbox = None, doc_tasks = [demo_task]\<rparr>),
        parse_json = Inl\<rparr>,
      o_modified = (\<lambda>_. Some 1), o_registry = Inr Registry_default, o_save_registry = Inr (),
      o_save_states = Inr (), o_sweep = Inr 0\<rparr>"

definition demo_watched :: watched where
  "demo_watched = \<lparr>w_path = ''/f.yaml'', w_working_directory = ''/''\<rparr>"

definition demo_job :: "string job" where
  "demo_job =
     \<lparr>j_id = ''f'', j_manifest = ''/f.yaml'', j_working_directory = ''/'',
      j_schedule = Some \<lparr>js_name = None, js_schedule = Cron \<lparr>cs_text = ''0 3 * * *'', cs_offset = UTC,
          cs_primary = ''0 0 3 * * *'', cs_alternate = None\<rparr>,
        js_on_overlap = Skip, js_catch_up = False, js_enabled = True, js_allow_unsandboxed = False\<rparr>,
      j_error = None, j_next_fire = None, j_running = False, j_queued = False,
      j_state = JobState_default\<rparr>"

lemma demo_jobs_of: "jobs_of demo_outside demo_watched States_default = [demo_job]"
  by code_simp

theorem ready_job_is_sandboxed_witness:
  "\<exists>schedule source doc. schedule \<in> set [the (j_schedule demo_job)] \<and>
     parse_document (o_loader demo_outside) (w_path demo_watched) source = Inr doc \<and>
     (js_allow_unsandboxed schedule \<or> Some (Enabled False) \<notin> set (map mt_sandbox (doc_tasks doc)))"
proof -
  have "demo_job \<in> set (jobs_of demo_outside demo_watched States_default)" "j_error demo_job = None"
    by (simp_all add: demo_jobs_of demo_job_def)
  from ready_job_is_sandboxed [OF this] show ?thesis by (auto simp: demo_job_def)
qed

end
