(* ===== verification/Daemon.thy ===== *)
theory Daemon
  imports Job
begin

text \<open>
  \<open>beez-daemon/src/daemon.rs\<close> and \<open>apply.rs\<close>: the daemon as a state and its handlers. One thread holds
  every decision, so a handler is a function from state to state. The state also holds the effects of
  that thread: \<open>d_threads\<close>, the run threads that were started and have not reported their end, and
  \<open>d_log\<close>, the lines of \<open>report::line\<close> without their time.

  A handler is given what it reads outside the daemon, the record \<open>outside\<close>, and the time it reads.
\<close>

record job_run =
  run_id :: string
  run_manifest :: string
  run_working_directory :: string
  run_log_directory :: string
  run_fire :: instant

record run_outcome =
  ro_directory :: "string option"
  ro_status :: "int option"
  ro_summary :: string
  ro_error :: "string option"

datatype event = Command request | FinishedRun string run_outcome | Signal

datatype action = StartAction | QueueAction string | SkipAction

datatype planned = CatchUp instant | Missed instant

record 'p daemon =
  d_paths :: daemon_paths
  d_registry :: registry
  d_states :: states
  d_manifests :: "watched_manifest list"
  d_jobs :: "'p job list"
  d_running :: nat
  d_limit :: nat
  d_keep :: nat
  d_started :: instant
  d_stopping :: bool
  d_exiting :: bool
  d_threads :: "job_run list"
  d_log :: "(string \<times> string) list"

definition DEFAULT_RUN_LIMIT :: nat where "DEFAULT_RUN_LIMIT = 2"

definition DEFAULT_KEPT_RUNS :: nat where "DEFAULT_KEPT_RUNS = 200"

definition MAX_SLEEP :: int where "MAX_SLEEP = 60 * 1000000000"

definition report :: "string \<Rightarrow> string \<Rightarrow> 'p daemon \<Rightarrow> 'p daemon" where
  "report verb message d = d\<lparr>d_log := d_log d @ [(verb, message)]\<rparr>"

definition update_job :: "nat \<Rightarrow> ('p job \<Rightarrow> 'p job) \<Rightarrow> 'p daemon \<Rightarrow> 'p daemon" where
  "update_job i f d =
     (case get_at (d_jobs d) i of None \<Rightarrow> d | Some job \<Rightarrow> d\<lparr>d_jobs := (d_jobs d)[i := f job]\<rparr>)"

definition find_job :: "string \<Rightarrow> 'p daemon \<Rightarrow> nat option" where
  "find_job i d = find_position (\<lambda>job. j_id job = i) (d_jobs d)"

subsection \<open>State\<close>

definition write_states :: "('p, 'z, 'm) outside_scheme \<Rightarrow> 'p daemon \<Rightarrow> 'p daemon" where
  "write_states out d =
     (case o_save_states out of
        Inl e \<Rightarrow> report ''Warning'' (''cannot write the state: '' @ io_text e) d
      | Inr _ \<Rightarrow> d)"

definition save_state :: "('p, 'z, 'm) outside_scheme \<Rightarrow> nat \<Rightarrow> 'p daemon \<Rightarrow> 'p daemon" where
  "save_state out i d =
     (case get_at (d_jobs d) i of
        None \<Rightarrow> d
      | Some job \<Rightarrow>
          write_states out (d\<lparr>d_states := States_set (d_states d) (j_id job) (j_state job)\<rparr>))"

definition prune_states :: "('p, 'z, 'm) outside_scheme \<Rightarrow> 'p daemon \<Rightarrow> 'p daemon" where
  "prune_states out d =
     write_states out (d\<lparr>d_states := keep_only (d_states d) (map j_id (d_jobs d))\<rparr>)"

definition sweep :: "('p, 'z, 'm) outside_scheme \<Rightarrow> 'p daemon \<Rightarrow> 'p daemon" where
  "sweep out d =
     (case o_sweep out of
        Inr removed \<Rightarrow>
          if removed = 0 then d
          else report ''Swept'' (''removed '' @ dec removed @ '' old runs'') d
      | Inl e \<Rightarrow> report ''Warning'' (''cannot sweep the runs: '' @ io_text e) d)"

subsection \<open>Planning\<close>

definition plan :: "('p, 'z, 'm) calendar_scheme \<Rightarrow> 'p job \<Rightarrow> instant \<Rightarrow> bool \<Rightarrow> 'p job \<times> planned option" where
  "plan cal job now allow_catch_up =
     (let job = job\<lparr>j_next_fire := None\<rparr> in
      if \<not> job_ready job then (job, None)
      else case j_schedule job of
             None \<Rightarrow> (job, None)
           | Some s \<Rightarrow>
               let base = (case st_last_fire (j_state job) of
                             Some t \<Rightarrow> t
                           | None \<Rightarrow> if is_recurring (js_schedule s) then now else 0) in
               case next_after cal (js_schedule s) base of
                 None \<Rightarrow> (job, None)
               | Some next_fire \<Rightarrow>
                   if now < next_fire then (job\<lparr>j_next_fire := Some next_fire\<rparr>, None)
                   else if allow_catch_up \<and> js_catch_up s then
                     (job\<lparr>j_next_fire := Some now\<rparr>, Some (CatchUp next_fire))
                   else (job\<lparr>j_next_fire := next_after cal (js_schedule s) now\<rparr>, Some (Missed next_fire)))"

definition plan_job ::
    "('p, 'z, 'm) outside_scheme \<Rightarrow> nat \<Rightarrow> instant \<Rightarrow> bool \<Rightarrow> 'p daemon \<Rightarrow> 'p daemon" where
  "plan_job out i now allow_catch_up d =
     (case get_at (d_jobs d) i of
        None \<Rightarrow> d
      | Some job \<Rightarrow>
          let (planned, found) = plan (o_calendar out) job now allow_catch_up;
              d = d\<lparr>d_jobs := (d_jobs d)[i := planned]\<rparr>;
              name = j_id job in
          (case found of
             Some (CatchUp missed) \<Rightarrow>
               report ''Catch-up'' (name @ '' missed '' @ format_instant (o_calendar out) missed
                 @ '', running it now'') d
           | Some (Missed missed) \<Rightarrow>
               report ''Missed'' (name @ '' missed '' @ format_instant (o_calendar out) missed) d
           | None \<Rightarrow> d))"

definition plan_all ::
    "('p, 'z, 'm) outside_scheme \<Rightarrow> instant \<Rightarrow> bool \<Rightarrow> 'p daemon \<Rightarrow> 'p daemon" where
  "plan_all out now allow_catch_up d =
     foldl (\<lambda>d i. plan_job out i now allow_catch_up d) d [0..<length (d_jobs d)]"

definition Daemon_open ::
    "('p, 'z, 'm) outside_scheme \<Rightarrow> daemon_paths \<Rightarrow> nat \<Rightarrow> nat \<Rightarrow> instant \<Rightarrow> instant
     \<Rightarrow> registry \<Rightarrow> states \<Rightarrow> 'p daemon" where
  "Daemon_open out dp limit keep started now registry states =
     (let (manifests, jobs) = build out registry states in
      plan_all out now True
        \<lparr>d_paths = dp, d_registry = registry, d_states = states, d_manifests = manifests,
         d_jobs = jobs, d_running = 0, d_limit = limit, d_keep = keep, d_started = started,
         d_stopping = False, d_exiting = False, d_threads = [], d_log = []\<rparr>)"

text \<open>The limit of \<open>run\<close>, which allows at least one run.\<close>

definition run_limit :: "nat \<Rightarrow> nat" where
  "run_limit limit = max limit 1"

definition reports ::
    "('p, 'z, 'm) outside_scheme \<Rightarrow> instant \<Rightarrow> registry \<Rightarrow> states \<Rightarrow> job_report list" where
  "reports out now registry states =
     map (\<lambda>job. Job_report (o_calendar out) (fst (plan (o_calendar out) job now False)))
       (snd (build out registry states))"

subsection \<open>Firing\<close>

definition start :: "('p, 'z, 'm) outside_scheme \<Rightarrow> nat \<Rightarrow> instant \<Rightarrow> 'p daemon \<Rightarrow> 'p daemon" where
  "start out i fire_time d =
     (case get_at (d_jobs d) i of
        None \<Rightarrow> d
      | Some job \<Rightarrow>
          let run = \<lparr>run_id = j_id job, run_manifest = j_manifest job,
                     run_working_directory = j_working_directory job,
                     run_log_directory = dp_root (d_paths d), run_fire = fire_time\<rparr>;
              d = d\<lparr>d_jobs := (d_jobs d)[i := job\<lparr>j_running := True, j_queued := False\<rparr>],
                    d_running := d_running d + 1\<rparr>;
              d = report ''Firing'' (run_id run @ '' scheduled for ''
                    @ format_instant (o_calendar out) fire_time) d in
          d\<lparr>d_threads := d_threads d @ [run]\<rparr>)"

definition action_for :: "'p daemon \<Rightarrow> 'p job \<Rightarrow> action" where
  "action_for d job =
     (if d_limit d \<le> d_running d then QueueAction ''the daemon is at its run limit''
      else if \<not> j_running job then StartAction
      else case (case j_schedule job of Some s \<Rightarrow> js_on_overlap s | None \<Rightarrow> Skip) of
             Skip \<Rightarrow> SkipAction
           | Queue \<Rightarrow> QueueAction ''its last run has not ended''
           | Parallel \<Rightarrow> StartAction)"

definition queue_fire :: "nat \<Rightarrow> string \<Rightarrow> 'p daemon \<Rightarrow> 'p daemon" where
  "queue_fire i reason d =
     (case get_at (d_jobs d) i of
        None \<Rightarrow> d
      | Some job \<Rightarrow>
          if j_queued job then report ''Dropped'' (j_id job @ '', a fire is already waiting'') d
          else report ''Queued'' (j_id job @ '', '' @ reason)
                 (d\<lparr>d_jobs := (d_jobs d)[i := job\<lparr>j_queued := True\<rparr>]\<rparr>))"

definition fire_effect ::
    "('p, 'z, 'm) outside_scheme \<Rightarrow> nat \<Rightarrow> string \<Rightarrow> instant \<Rightarrow> action \<Rightarrow> 'p daemon \<Rightarrow> 'p daemon" where
  "fire_effect out i name fire_time what d =
     (case what of
        StartAction \<Rightarrow> start out i fire_time d
      | QueueAction reason \<Rightarrow> queue_fire i reason d
      | SkipAction \<Rightarrow> report ''Skipped'' (name @ '' scheduled for ''
          @ format_instant (o_calendar out) fire_time @ '', its last run has not ended'') d)"

definition set_last_fire :: "instant \<Rightarrow> 'p job \<Rightarrow> 'p job" where
  "set_last_fire t job = job\<lparr>j_state := (j_state job)\<lparr>st_last_fire := Some t\<rparr>\<rparr>"

definition fire :: "('p, 'z, 'm) outside_scheme \<Rightarrow> nat \<Rightarrow> instant \<Rightarrow> 'p daemon \<Rightarrow> 'p daemon" where
  "fire out i now d =
     (case get_at (d_jobs d) i of
        None \<Rightarrow> d
      | Some job \<Rightarrow>
          let fire_time = (case j_next_fire job of Some t \<Rightarrow> t | None \<Rightarrow> now);
              what = action_for d job;
              d = update_job i (set_last_fire fire_time) d;
              d = fire_effect out i (j_id job) fire_time what d;
              d = save_state out i d in
          plan_job out i now False d)"

definition due :: "instant \<Rightarrow> 'p job \<Rightarrow> bool" where
  "due now job \<longleftrightarrow> job_ready job \<and> (case j_next_fire job of Some t \<Rightarrow> t \<le> now | None \<Rightarrow> False)"

definition fire_due :: "('p, 'z, 'm) outside_scheme \<Rightarrow> instant \<Rightarrow> 'p daemon \<Rightarrow> 'p daemon" where
  "fire_due out now d =
     (if d_stopping d then d
      else foldl (\<lambda>d i. fire out i now d) d
             (filter (\<lambda>i. due now (d_jobs d ! i)) [0..<length (d_jobs d)]))"

subsection \<open>Waiting fires\<close>

definition startable :: "'p job \<Rightarrow> bool" where
  "startable job \<longleftrightarrow> j_queued job \<and> job_ready job \<and> \<not> j_running job"

lemma start_running [simp]:
  "d_running (start out i t d) = (if i < length (d_jobs d) then d_running d + 1 else d_running d)"
  "d_limit (start out i t d) = d_limit d"
  by (simp_all add: start_def report_def Let_def get_at_def)

function start_waiting ::
    "('p, 'z, 'm) outside_scheme \<Rightarrow> instant \<Rightarrow> 'p daemon \<Rightarrow> 'p daemon" where
  "start_waiting out now d =
     (if d_running d < d_limit d then
        (case find_position startable (d_jobs d) of
           None \<Rightarrow> d
         | Some i \<Rightarrow>
             start_waiting out now
               (start out i (case st_last_fire (j_state (d_jobs d ! i)) of Some t \<Rightarrow> t | None \<Rightarrow> now) d))
      else d)"
  by pat_completeness auto
termination
  by (relation "measure (\<lambda>(out, now, d). d_limit d - d_running d)")
    (auto simp: find_position_Some_iff)

declare start_waiting.simps [simp del]

definition start_queued ::
    "('p, 'z, 'm) outside_scheme \<Rightarrow> instant \<Rightarrow> 'p daemon \<Rightarrow> 'p daemon" where
  "start_queued out now d = (if d_stopping d then d else start_waiting out now d)"

definition finished_message :: "string \<Rightarrow> run_outcome \<Rightarrow> 'p daemon \<Rightarrow> 'p daemon" where
  "finished_message name outcome d =
     (case ro_error outcome of
        Some e \<Rightarrow> report ''Failed'' (name @ '': '' @ e) d
      | None \<Rightarrow>
          if ro_status outcome = Some 0 then report ''Finished'' (name @ '': '' @ ro_summary outcome) d
          else report ''Failed'' (name @ '': '' @ ro_summary outcome @ '' (''
                 @ (case ro_status outcome of
                      Some c \<Rightarrow> if c = 0 then ''ok'' else ''exit '' @ (if c < 0 then ''-'' else []) @ dec (nat \<bar>c\<bar>)
                    | None \<Rightarrow> ''signalled'') @ '')'') d)"

definition end_run :: "run_outcome \<Rightarrow> 'p job \<Rightarrow> 'p job" where
  "end_run outcome job = job\<lparr>j_running := False,
     j_state := (j_state job)\<lparr>st_last_run := ro_directory outcome, st_last_status := ro_status outcome\<rparr>\<rparr>"

definition finished ::
    "('p, 'z, 'm) outside_scheme \<Rightarrow> string \<Rightarrow> run_outcome \<Rightarrow> instant \<Rightarrow> 'p daemon \<Rightarrow> 'p daemon" where
  "finished out name outcome now d =
     (let d = d\<lparr>d_running := d_running d - 1\<rparr>;
          d = finished_message name outcome d;
          d = (case find_job name d of
                 None \<Rightarrow> d
               | Some i \<Rightarrow> save_state out i (update_job i (end_run outcome) d));
          d = sweep out d in
      start_queued out now d)"

subsection \<open>Reading manifests\<close>

definition job_schedule_eq :: "'p job_schedule \<Rightarrow> 'p job_schedule \<Rightarrow> bool" where
  "job_schedule_eq x y \<longleftrightarrow>
     js_name x = js_name y \<and> Schedule_eq (js_schedule x) (js_schedule y) \<and>
     js_on_overlap x = js_on_overlap y \<and> js_catch_up x = js_catch_up y \<and>
     js_enabled x = js_enabled y \<and> js_allow_unsandboxed x = js_allow_unsandboxed y"

fun same_schedule :: "'p job_schedule option \<Rightarrow> 'p job_schedule option \<Rightarrow> bool" where
  "same_schedule None None = True"
| "same_schedule (Some x) (Some y) = job_schedule_eq x y"
| "same_schedule _ _ = False"

definition carry :: "'p job list \<Rightarrow> 'p job \<Rightarrow> 'p job" where
  "carry jobs job =
     (case find (\<lambda>old. j_id old = j_id job) jobs of
        None \<Rightarrow> job
      | Some old \<Rightarrow>
          let job = job\<lparr>j_running := j_running old, j_queued := j_queued old\<rparr> in
          if same_schedule (j_schedule old) (j_schedule job)
          then job\<lparr>j_next_fire := j_next_fire old\<rparr> else job)"

definition remember_modified ::
    "('p, 'z, 'm) outside_scheme \<Rightarrow> watched \<Rightarrow> 'p daemon \<Rightarrow> 'p daemon" where
  "remember_modified out w d =
     (let entry = \<lparr>wm_watched = w, wm_modified = o_modified out (w_path w)\<rparr> in
      case find_position (\<lambda>e. path_eq (w_path (wm_watched e)) (w_path w)) (d_manifests d) of
        Some i \<Rightarrow> d\<lparr>d_manifests := (d_manifests d)[i := entry]\<rparr>
      | None \<Rightarrow> d\<lparr>d_manifests := d_manifests d @ [entry]\<rparr>)"

definition plan_fresh ::
    "('p, 'z, 'm) outside_scheme \<Rightarrow> instant \<Rightarrow> nat \<Rightarrow> 'p daemon \<Rightarrow> 'p daemon" where
  "plan_fresh out now i d =
     (case get_at (d_jobs d) i of
        Some job \<Rightarrow> if j_next_fire job = None then plan_job out i now False d else d
      | None \<Rightarrow> d)"

definition report_broken :: "string \<Rightarrow> 'p daemon \<Rightarrow> 'p daemon" where
  "report_broken path d =
     foldl (\<lambda>d job. case j_error job of Some e \<Rightarrow> report ''Broken'' (j_id job @ '': '' @ e) d | None \<Rightarrow> d)
       d (filter (\<lambda>job. path_eq (j_manifest job) path) (d_jobs d))"

definition install ::
    "('p, 'z, 'm) outside_scheme \<Rightarrow> watched \<Rightarrow> 'p job list \<Rightarrow> instant \<Rightarrow> 'p daemon \<Rightarrow> 'p daemon" where
  "install out w fresh now d =
     (let carried = map (carry (d_jobs d)) fresh;
          others = filter (\<lambda>job. \<not> path_eq (j_manifest job) (w_path w)) (d_jobs d);
          jobs = others @ carried;
          d = foldl (\<lambda>d i. plan_fresh out now i d) (d\<lparr>d_jobs := jobs\<rparr>) [length others..<length jobs] in
      report_broken (w_path w) (remember_modified out w d))"

definition reload_manifest ::
    "('p, 'z, 'm) outside_scheme \<Rightarrow> watched \<Rightarrow> instant \<Rightarrow> 'p daemon \<Rightarrow> 'p daemon" where
  "reload_manifest out w now d = install out w (jobs_of out w (d_states d)) now d"

definition rescan :: "('p, 'z, 'm) outside_scheme \<Rightarrow> instant \<Rightarrow> 'p daemon \<Rightarrow> 'p daemon" where
  "rescan out now d =
     foldl (\<lambda>d w. reload_manifest out w now (report ''Reload'' (w_path w @ '' changed'') d)) d
       (map wm_watched
         (filter (\<lambda>e. o_modified out (w_path (wm_watched e)) \<noteq> wm_modified e) (d_manifests d)))"

definition retain_manifests :: "(string \<Rightarrow> bool) \<Rightarrow> 'p daemon \<Rightarrow> 'p daemon" where
  "retain_manifests keep d =
     d\<lparr>d_jobs := filter (\<lambda>job. keep (j_manifest job)) (d_jobs d),
       d_manifests := filter (\<lambda>e. keep (w_path (wm_watched e))) (d_manifests d)\<rparr>"

definition reload_all ::
    "('p, 'z, 'm) outside_scheme \<Rightarrow> instant \<Rightarrow> 'p daemon \<Rightarrow> 'p daemon \<times> nat" where
  "reload_all out now d =
     (let d = (case o_registry out of
                 Inr r \<Rightarrow> d\<lparr>d_registry := r\<rparr>
               | Inl e \<Rightarrow> report ''Warning'' (''cannot read the manifest list: '' @ io_text e) d);
          entries = rg_manifests (d_registry d);
          d = retain_manifests (\<lambda>path. list_ex (\<lambda>e. path_eq (w_path e) path) entries) d in
      (foldl (\<lambda>d w. reload_manifest out w now d) d entries, length entries))"

subsection \<open>Commands\<close>

definition apply_watch ::
    "('p, 'z, 'm) outside_scheme \<Rightarrow> registry \<Rightarrow> watched \<Rightarrow> registry \<times> (io_error + string)" where
  "apply_watch out r w =
     (let (r, added) = Registry_add r w in
      (r, and_then (o_save_registry out) (\<lambda>_. Inr (watching (w_path w) added))))"

definition apply_unwatch ::
    "('p, 'z, 'm) outside_scheme \<Rightarrow> registry \<Rightarrow> string \<Rightarrow> registry \<times> (io_error + response)" where
  "apply_unwatch out r m =
     (let (r, removed) = Registry_remove r m in
      if \<not> removed then (r, Inr (Refused (not_watched m)))
      else (r, and_then (o_save_registry out) (\<lambda>_. Inr (Done (stopped_watching m)))))"

definition waiting_message :: "nat \<Rightarrow> string" where
  "waiting_message count =
     (if count = 0 then ''stopping''
      else if count = 1 then ''stopping after 1 running run ends''
      else ''stopping after '' @ dec count @ '' running runs end'')"

definition begin_stopping :: "'p daemon \<Rightarrow> 'p daemon \<times> string" where
  "begin_stopping d =
     (let message = waiting_message (d_running d) in
      (report ''Daemon'' message (d\<lparr>d_stopping := True\<rparr>), message))"

definition signal :: "'p daemon \<Rightarrow> 'p daemon" where
  "signal d =
     (if d_stopping d then report ''Daemon'' ''exiting now, leaving its runs behind'' (d\<lparr>d_exiting := True\<rparr>)
      else fst (begin_stopping d))"

definition add_manifest ::
    "('p, 'z, 'm) outside_scheme \<Rightarrow> string \<Rightarrow> string \<Rightarrow> instant \<Rightarrow> 'p daemon \<Rightarrow> 'p daemon \<times> response" where
  "add_manifest out m working_directory now d =
     (let w = \<lparr>w_path = m, w_working_directory = working_directory\<rparr>;
          jobs = jobs_of out w (d_states d);
          others = map j_id (filter (\<lambda>other. \<not> path_eq (j_manifest other) m) (d_jobs d)) in
      case admit jobs others of
        Inl e \<Rightarrow> (d, Refused e)
      | Inr names \<Rightarrow>
          let names = join '', '' names;
              (r, saved) = apply_watch out (d_registry d) w;
              d = d\<lparr>d_registry := r\<rparr> in
          (case saved of
             Inl e \<Rightarrow> (d, Refused (unwritable_registry e))
           | Inr answer \<Rightarrow>
               (report ''Watching'' (m @ '' as '' @ names) (install out w jobs now d),
                Done (answer @ '' as '' @ names))))"

definition remove_manifest ::
    "('p, 'z, 'm) outside_scheme \<Rightarrow> string \<Rightarrow> 'p daemon \<Rightarrow> 'p daemon \<times> response" where
  "remove_manifest out m d =
     (let (r, removed) = apply_unwatch out (d_registry d) m;
          d = d\<lparr>d_registry := r\<rparr> in
      case removed of
        Inl e \<Rightarrow> (d, Refused (unwritable_registry e))
      | Inr (Done answer) \<Rightarrow>
          (report ''Watching'' (''dropped '' @ m)
             (prune_states out (retain_manifests (\<lambda>path. \<not> path_eq path m) d)), Done answer)
      | Inr answer \<Rightarrow> (d, answer))"

definition hold ::
    "('p, 'z, 'm) outside_scheme \<Rightarrow> string \<Rightarrow> bool \<Rightarrow> instant \<Rightarrow> 'p daemon \<Rightarrow> 'p daemon \<times> response" where
  "hold out name paused now d =
     (case find_job name d of
        None \<Rightarrow> (d, Refused (unknown_job name))
      | Some i \<Rightarrow>
          let d = update_job i (\<lambda>job. job\<lparr>j_state := (j_state job)\<lparr>st_paused := paused\<rparr>\<rparr>) d;
              d = save_state out i d;
              d = plan_job out i now False d in
          (report ''Job'' (held name paused) d, Done (held name paused)))"

definition trigger ::
    "('p, 'z, 'm) outside_scheme \<Rightarrow> string \<Rightarrow> instant \<Rightarrow> 'p daemon \<Rightarrow> 'p daemon \<times> response" where
  "trigger out name now d =
     (case find_job name d of
        None \<Rightarrow> (d, Refused (unknown_job name))
      | Some i \<Rightarrow>
          (case j_error (d_jobs d ! i) of
             Some e \<Rightarrow> (d, Refused (name @ '' cannot run: '' @ e))
           | None \<Rightarrow>
               if j_running (d_jobs d ! i) then (d, Refused (name @ '' is already running''))
               else if d_limit d \<le> d_running d then
                 (d, Refused (''the daemon already runs '' @ dec (d_limit d) @ '' workflows''))
               else (start out i now d, Done (''running '' @ name @ '' now''))))"

definition command ::
    "('p, 'z, 'm) outside_scheme \<Rightarrow> nat \<Rightarrow> request \<Rightarrow> instant \<Rightarrow> 'p daemon \<Rightarrow> 'p daemon \<times> response" where
  "command out pid req now d =
     (case req of
        StatusRequest \<Rightarrow>
          (d, StatusResponse pid (format_instant (o_calendar out) (d_started d)) (d_running d)
                (map (Job_report (o_calendar out)) (d_jobs d)))
      | Add m working_directory \<Rightarrow> add_manifest out m working_directory now d
      | Remove m \<Rightarrow> remove_manifest out m d
      | Pause job \<Rightarrow> hold out job True now d
      | Resume job \<Rightarrow> hold out job False now d
      | Trigger job \<Rightarrow> trigger out job now d
      | Reload \<Rightarrow>
          let (d, count) = reload_all out now d in
          (d, Done (''read '' @ dec count @ '' manifests again''))
      | Stop \<Rightarrow> let (d, message) = begin_stopping d in (d, Done message))"

definition handle ::
    "('p, 'z, 'm) outside_scheme \<Rightarrow> nat \<Rightarrow> event \<Rightarrow> instant \<Rightarrow> 'p daemon \<Rightarrow> 'p daemon" where
  "handle out pid e now d =
     (case e of
        Command req \<Rightarrow> fst (command out pid req now d)
      | FinishedRun name outcome \<Rightarrow> finished out name outcome now d
      | Signal \<Rightarrow> signal d)"

subsection \<open>The loop\<close>

definition stopped :: "'p daemon \<Rightarrow> bool" where
  "stopped d \<longleftrightarrow> d_exiting d \<or> d_stopping d \<and> d_running d = 0"

definition serve_pass :: "('p, 'z, 'm) outside_scheme \<Rightarrow> instant \<Rightarrow> 'p daemon \<Rightarrow> 'p daemon" where
  "serve_pass out now d = fire_due out now (rescan out now d)"

definition sleep_time :: "instant \<Rightarrow> 'p daemon \<Rightarrow> int" where
  "sleep_time now d =
     fold min (map (\<lambda>t. t - now) (filter (\<lambda>t. now \<le> t)
       (List.map_filter j_next_fire (filter job_ready (d_jobs d))))) MAX_SLEEP"

text \<open>
  \<open>bind\<close>: the result of the first attempt, whether a daemon answers on the socket, and the results of
  removing the file and of the second attempt.
\<close>

definition bind_socket ::
    "io_error + 'l \<Rightarrow> bool \<Rightarrow> io_error + unit \<Rightarrow> io_error + 'l \<Rightarrow> daemon_paths \<Rightarrow> io_error + 'l" where
  "bind_socket first answers removed second dp =
     (case first of
        Inr listener \<Rightarrow> Inr listener
      | Inl e \<Rightarrow>
          if io_kind e = ''AddrInUse'' then
            if answers then Inl (IoError ''AddrInUse'' (already_running (dp_root dp)))
            else and_then removed (\<lambda>_. second)
          else Inl e)"

end
