(* ===== verification/Daemon_Safety.thy ===== *)
theory Daemon_Safety
  imports Daemon
begin

text \<open>
  What the handlers of the daemon keep true: the number of runs it counts is the number of threads it
  started that have not ended, and never exceeds its limit; and a daemon that is stopping starts nothing
  but what a trigger asks for.

  \<open>quiet\<close> relates two states with the same runs, \<open>starts\<close> two states where runs were started within
  the limit. Both are preorders, and each handler is shown to be one or the other once.
\<close>

subsection \<open>Handlers that start nothing\<close>

definition quiet :: "'p daemon \<Rightarrow> 'p daemon \<Rightarrow> bool" where
  "quiet d d' \<longleftrightarrow>
     d_running d' = d_running d \<and> d_limit d' = d_limit d \<and> d_threads d' = d_threads d \<and>
     d_stopping d' = d_stopping d \<and> d_exiting d' = d_exiting d"

named_theorems quiet_intros "handlers that start no run"

lemma quiet_refl [simp, quiet_intros]: "quiet d d"
  by (simp add: quiet_def)

lemma quiet_trans [trans]: "quiet d e \<Longrightarrow> quiet e f \<Longrightarrow> quiet d f"
  by (simp add: quiet_def)

lemma quiet_foldl:
  "(\<And>d x. x \<in> set xs \<Longrightarrow> quiet d (f d x)) \<Longrightarrow> quiet d (foldl f d xs)"
proof (induction xs arbitrary: d)
  case (Cons x xs)
  then have "quiet d (f d x)" "quiet (f d x) (foldl f (f d x) xs)" by auto
  then show ?case by (auto intro: quiet_trans)
qed simp

lemma quiet_report [simp, quiet_intros]: "quiet d (report v m d)"
  by (simp add: quiet_def report_def)

lemma quiet_then_report: "quiet d e \<Longrightarrow> quiet d (report v m e)"
  by (auto intro: quiet_trans)

lemma quiet_update_job [simp, quiet_intros]: "quiet d (update_job i f d)"
  by (simp add: quiet_def update_job_def split: option.splits)

lemma quiet_jobs [simp, quiet_intros]: "quiet d (d\<lparr>d_jobs := js\<rparr>)"
  and quiet_states [simp, quiet_intros]: "quiet d (d\<lparr>d_states := s\<rparr>)"
  and quiet_manifests [simp, quiet_intros]: "quiet d (d\<lparr>d_manifests := ms\<rparr>)"
  and quiet_registry [simp, quiet_intros]: "quiet d (d\<lparr>d_registry := r\<rparr>)"
  by (simp_all add: quiet_def)

lemma quiet_write_states [simp, quiet_intros]: "quiet d (write_states out d)"
  by (simp add: write_states_def split: sum.splits)

lemma quiet_save_state [simp, quiet_intros]: "quiet d (save_state out i d)"
proof (cases "get_at (d_jobs d) i")
  case (Some job)
  show ?thesis unfolding save_state_def Some option.case
    by (rule quiet_trans [OF quiet_states quiet_write_states])
qed (simp add: save_state_def get_at_def)

lemma quiet_prune_states [simp, quiet_intros]: "quiet d (prune_states out d)"
  unfolding prune_states_def by (rule quiet_trans [OF quiet_states quiet_write_states])

lemma quiet_sweep [simp, quiet_intros]: "quiet d (sweep out d)"
  by (simp add: sweep_def split: sum.splits)

lemma quiet_plan_job [simp, quiet_intros]: "quiet d (plan_job out i now allow d)"
  by (auto simp: plan_job_def Let_def intro: quiet_then_report split: option.splits prod.splits planned.splits)

lemma quiet_queue_fire [simp, quiet_intros]: "quiet d (queue_fire i reason d)"
  by (auto simp: queue_fire_def intro: quiet_then_report split: option.splits)

lemma quiet_finished_message [simp, quiet_intros]: "quiet d (finished_message name outcome d)"
  by (simp add: finished_message_def split: option.splits)

lemma quiet_remember_modified [simp, quiet_intros]: "quiet d (remember_modified out w d)"
  by (simp add: remember_modified_def Let_def split: option.splits)

lemma quiet_report_broken [simp, quiet_intros]: "quiet d (report_broken path d)"
  unfolding report_broken_def by (rule quiet_foldl) (simp split: option.splits)

lemma quiet_plan_fresh [simp, quiet_intros]: "quiet d (plan_fresh out now i d)"
  by (simp add: plan_fresh_def split: option.splits)

lemma quiet_install [simp, quiet_intros]: "quiet d (install out w fresh now d)"
proof -
  let ?o = "filter (\<lambda>job. \<not> path_eq (j_manifest job) (w_path w)) (d_jobs d)"
  let ?j = "?o @ map (carry (d_jobs d)) fresh"
  let ?d = "foldl (\<lambda>d i. plan_fresh out now i d) (d\<lparr>d_jobs := ?j\<rparr>) [length ?o..<length ?j]"
  have "quiet (d\<lparr>d_jobs := ?j\<rparr>) ?d" by (rule quiet_foldl) simp
  with quiet_jobs have "quiet d ?d" by (rule quiet_trans)
  also have "quiet ?d (remember_modified out w ?d)" by simp
  also have "quiet \<dots> (report_broken (w_path w) (remember_modified out w ?d))" by simp
  finally show ?thesis by (simp only: install_def Let_def)
qed

lemma quiet_reload_manifest [simp, quiet_intros]: "quiet d (reload_manifest out w now d)"
  by (simp add: reload_manifest_def)

lemma quiet_rescan [simp, quiet_intros]: "quiet d (rescan out now d)"
  unfolding rescan_def by (rule quiet_foldl) (blast intro: quiet_trans quiet_report quiet_reload_manifest)

lemma quiet_retain_manifests [simp, quiet_intros]: "quiet d (retain_manifests keep d)"
  by (simp add: quiet_def retain_manifests_def)

lemma quiet_reload_all [simp, quiet_intros]: "quiet d (fst (reload_all out now d))"
proof -
  let ?d = "case o_registry out of Inr r \<Rightarrow> d\<lparr>d_registry := r\<rparr>
     | Inl e \<Rightarrow> report ''Warning'' (''cannot read the manifest list: '' @ io_text e) d"
  let ?r = "retain_manifests (\<lambda>path. list_ex (\<lambda>e. path_eq (w_path e) path) (rg_manifests (d_registry ?d))) ?d"
  have "quiet d ?d" by (simp split: sum.splits)
  also have "quiet ?d ?r" by simp
  also have "quiet ?r (foldl (\<lambda>d w. reload_manifest out w now d) ?r (rg_manifests (d_registry ?d)))"
    by (rule quiet_foldl) simp
  finally show ?thesis by (simp add: reload_all_def Let_def)
qed

lemma quiet_hold [simp, quiet_intros]: "quiet d (fst (hold out name paused now d))"
proof (cases "find_job name d")
  case (Some i)
  let ?d1 = "update_job i (\<lambda>job. job\<lparr>j_state := (j_state job)\<lparr>st_paused := paused\<rparr>\<rparr>) d"
  have "quiet d ?d1" by simp
  also have "quiet ?d1 (save_state out i ?d1)" by simp
  also have "quiet \<dots> (plan_job out i now False (save_state out i ?d1))" by simp
  finally show ?thesis using Some by (simp add: hold_def Let_def quiet_then_report)
qed (simp add: hold_def)

lemma quiet_installed: "quiet d (report v msg (install out w js now (d\<lparr>d_registry := r\<rparr>)))"
  by (rule quiet_trans [OF quiet_registry quiet_trans [OF quiet_install quiet_report]])

lemma quiet_add_manifest [simp, quiet_intros]: "quiet d (fst (add_manifest out m wd now d))"
  by (auto simp: add_manifest_def Let_def quiet_installed split: sum.splits prod.splits)

lemma quiet_dropped:
  "quiet d (report v msg (prune_states out (retain_manifests k (d\<lparr>d_registry := r\<rparr>))))"
  by (rule quiet_trans [OF quiet_registry quiet_trans [OF quiet_retain_manifests
        quiet_trans [OF quiet_prune_states quiet_report]]])

lemma quiet_remove_manifest [simp, quiet_intros]: "quiet d (fst (remove_manifest out m d))"
  by (auto simp: remove_manifest_def Let_def quiet_dropped split: sum.splits prod.splits response.splits)

subsection \<open>Handlers that start runs within the limit\<close>

definition starts :: "'p daemon \<Rightarrow> 'p daemon \<Rightarrow> bool" where
  "starts d d' \<longleftrightarrow>
     d_limit d' = d_limit d \<and> d_stopping d' = d_stopping d \<and> d_exiting d' = d_exiting d \<and>
     (\<exists>rs. d_threads d' = d_threads d @ rs \<and> d_running d' = d_running d + length rs \<and>
       (rs = [] \<or> d_running d' \<le> d_limit d))"

lemma starts_quiet: "quiet d d' \<Longrightarrow> starts d d'"
  by (auto simp: quiet_def starts_def)

lemma starts_trans [trans]:
  assumes "starts d e" and "starts e f" shows "starts d f"
proof -
  obtain rs where rs: "d_threads e = d_threads d @ rs" "d_running e = d_running d + length rs"
    "rs = [] \<or> d_running e \<le> d_limit d"
    using assms(1) by (auto simp: starts_def)
  obtain ss where ss: "d_threads f = d_threads e @ ss" "d_running f = d_running e + length ss"
    "ss = [] \<or> d_running f \<le> d_limit e"
    using assms(2) by (auto simp: starts_def)
  have same: "d_limit f = d_limit d" "d_limit e = d_limit d" "d_stopping f = d_stopping d"
      "d_exiting f = d_exiting d"
    using assms by (auto simp: starts_def)
  have "d_threads f = d_threads d @ (rs @ ss)" "d_running f = d_running d + length (rs @ ss)"
    "rs @ ss = [] \<or> d_running f \<le> d_limit d"
    using rs ss same by auto
  with same show ?thesis unfolding starts_def by blast
qed

lemma starts_quiet_then: "quiet d e \<Longrightarrow> starts e f \<Longrightarrow> starts d f"
  by (blast intro: starts_trans starts_quiet)

lemma starts_then_quiet: "starts d e \<Longrightarrow> quiet e f \<Longrightarrow> starts d f"
  by (blast intro: starts_trans starts_quiet)

lemma starts_foldl:
  "(\<And>d x. x \<in> set xs \<Longrightarrow> starts d (f d x)) \<Longrightarrow> starts d (foldl f d xs)"
proof (induction xs arbitrary: d)
  case Nil
  then show ?case by (simp add: starts_quiet)
next
  case (Cons x xs)
  then have "starts d (f d x)" "starts (f d x) (foldl f (f d x) xs)" by auto
  then show ?case by (auto intro: starts_trans)
qed

lemma start_fields:
  assumes "get_at (d_jobs d) i = Some job"
  shows "d_threads (start out i t d) = d_threads d @
      [\<lparr>run_id = j_id job, run_manifest = j_manifest job,
        run_working_directory = j_working_directory job, run_log_directory = dp_root (d_paths d),
        run_fire = t\<rparr>]"
    and "d_jobs (start out i t d) = (d_jobs d)[i := job\<lparr>j_running := True, j_queued := False\<rparr>]"
    and "d_running (start out i t d) = d_running d + 1"
    and "d_stopping (start out i t d) = d_stopping d"
    and "d_exiting (start out i t d) = d_exiting d"
  using assms by (simp_all add: start_def report_def Let_def)

lemma start_absent: "get_at (d_jobs d) i = None \<Longrightarrow> start out i t d = d"
  by (simp add: start_def get_at_def)

lemma starts_start: "d_running d < d_limit d \<Longrightarrow> starts d (start out i t d)"
proof (cases "get_at (d_jobs d) i")
  case None
  then show ?thesis by (simp add: start_absent starts_quiet)
next
  case (Some job)
  assume room: "d_running d < d_limit d"
  have limit: "d_limit (start out i t d) = d_limit d" by simp
  show ?thesis
    using room start_fields [OF Some, of out t] limit unfolding starts_def by auto
qed

lemma action_start_room: "action_for d job = StartAction \<Longrightarrow> d_running d < d_limit d"
  by (auto simp: action_for_def split: if_splits)

lemma starts_fire_effect:
  assumes "what = StartAction \<Longrightarrow> d_running d < d_limit d"
  shows "starts d (fire_effect out i name t what d)"
  using assms starts_start [of d out i t]
  by (cases what) (auto simp: fire_effect_def intro: starts_quiet)

lemma starts_fire [simp]: "starts d (fire out i now d)"
proof (cases "get_at (d_jobs d) i")
  case (Some job)
  let ?t = "case j_next_fire job of Some t \<Rightarrow> t | None \<Rightarrow> now"
  let ?d1 = "update_job i (set_last_fire ?t) d"
  let ?d2 = "fire_effect out i (j_id job) ?t (action_for d job) ?d1"
  have q: "quiet d ?d1" by simp
  have "starts ?d1 ?d2"
    using q action_start_room [of d job] by (intro starts_fire_effect) (simp add: quiet_def)
  with q have "starts d ?d2" by (rule starts_quiet_then)
  moreover have "quiet ?d2 (plan_job out i now False (save_state out i ?d2))"
    by (blast intro: quiet_trans quiet_save_state quiet_plan_job)
  ultimately show ?thesis
    using Some starts_then_quiet by (simp add: fire_def Let_def del: get_at_Some_iff)
qed (simp add: fire_def starts_quiet get_at_def)

lemma starts_fire_due [simp]: "starts d (fire_due out now d)"
  unfolding fire_due_def by (auto intro: starts_foldl starts_quiet)

lemma starts_start_waiting: "starts d (start_waiting out now d)"
proof (induction out now d rule: start_waiting.induct)
  case (1 out now d)
  show ?case
  proof (cases "d_running d < d_limit d \<and> (\<exists>i. find_position startable (d_jobs d) = Some i)")
    case True
    then obtain i where i: "find_position startable (d_jobs d) = Some i" by blast
    let ?t = "case st_last_fire (j_state (d_jobs d ! i)) of Some t \<Rightarrow> t | None \<Rightarrow> now"
    have "starts d (start out i ?t d)" using True by (intro starts_start) simp
    also have "starts \<dots> (start_waiting out now (start out i ?t d))" using 1 True i by blast
    finally show ?thesis using True i by (simp add: start_waiting.simps [of out now d])
  next
    case False
    then have "start_waiting out now d = d"
      by (cases "find_position startable (d_jobs d)")
        (simp_all add: start_waiting.simps [of out now d] del: find_position_None_iff)
    then show ?thesis by (simp add: starts_quiet)
  qed
qed

lemma starts_start_queued [simp]: "starts d (start_queued out now d)"
  by (simp add: start_queued_def starts_start_waiting starts_quiet)

lemma starts_trigger [simp]: "starts d (fst (trigger out name now d))"
  by (auto simp: trigger_def intro: starts_start starts_quiet split: option.splits)

lemma starts_serve_pass [simp]: "starts d (serve_pass out now d)"
  unfolding serve_pass_def by (rule starts_quiet_then [OF quiet_rescan starts_fire_due])

subsection \<open>The limit\<close>

definition counts_runs :: "'p daemon \<Rightarrow> bool" where
  "counts_runs d \<longleftrightarrow> d_running d = length (d_threads d) \<and> d_running d \<le> d_limit d"

lemma starts_counts_runs: "starts d d' \<Longrightarrow> counts_runs d \<Longrightarrow> counts_runs d'"
  by (auto simp: starts_def counts_runs_def)

lemma quiet_counts_runs: "quiet d d' \<Longrightarrow> counts_runs d \<Longrightarrow> counts_runs d'"
  by (auto simp: quiet_def counts_runs_def)

text \<open>The end of run number \<open>k\<close>: its thread is gone and its message is handled.\<close>

definition end_thread :: "nat \<Rightarrow> 'p daemon \<Rightarrow> 'p daemon" where
  "end_thread k d = d\<lparr>d_threads := take k (d_threads d) @ drop (Suc k) (d_threads d)\<rparr>"

definition finish_thread ::
    "('p, 'z, 'm) outside_scheme \<Rightarrow> nat \<Rightarrow> run_outcome \<Rightarrow> instant \<Rightarrow> 'p daemon \<Rightarrow> 'p daemon" where
  "finish_thread out k outcome now d =
     finished out (run_id (d_threads d ! k)) outcome now (end_thread k d)"

text \<open>
  \<open>finished\<close> before it starts what waits: the count is lowered, the job is marked and its state saved.
\<close>

definition finish_records ::
    "('p, 'z, 'm) outside_scheme \<Rightarrow> string \<Rightarrow> run_outcome \<Rightarrow> 'p daemon \<Rightarrow> 'p daemon" where
  "finish_records out name outcome d =
     (let d = finished_message name outcome (d\<lparr>d_running := d_running d - 1\<rparr>) in
      sweep out (case find_job name d of
                   None \<Rightarrow> d
                 | Some i \<Rightarrow> save_state out i (update_job i (end_run outcome) d)))"

lemma finished_eq: "finished out name outcome now d = start_queued out now (finish_records out name outcome d)"
  by (simp add: finished_def finish_records_def Let_def)

lemma quiet_finish_records: "quiet (d\<lparr>d_running := d_running d - 1\<rparr>) (finish_records out name outcome d)"
proof -
  let ?d = "finished_message name outcome (d\<lparr>d_running := d_running d - 1\<rparr>)"
  have "quiet ?d (case find_job name ?d of None \<Rightarrow> ?d | Some i \<Rightarrow> save_state out i (update_job i (end_run outcome) ?d))"
    by (cases "find_job name ?d") (simp_all add: quiet_trans [OF quiet_update_job quiet_save_state] del: One_nat_def)
  then show ?thesis
    unfolding finish_records_def Let_def
    by (blast intro: quiet_trans quiet_sweep quiet_finished_message)
qed

lemma finish_thread_counts_runs:
  assumes "counts_runs d" and "k < length (d_threads d)"
  shows "counts_runs (finish_thread out k outcome now d)"
proof -
  let ?d = "(end_thread k d)\<lparr>d_running := d_running (end_thread k d) - 1\<rparr>"
  have "counts_runs ?d" using assms by (auto simp: counts_runs_def end_thread_def)
  then have "counts_runs (finish_records out (run_id (d_threads d ! k)) outcome (end_thread k d))"
    using quiet_finish_records quiet_counts_runs by blast
  then show ?thesis
    unfolding finish_thread_def finished_eq by (rule starts_counts_runs [OF starts_start_queued])
qed

lemma command_starts: "req \<noteq> Stop \<Longrightarrow> starts d (fst (command out pid req now d))"
  by (cases req) (simp_all add: command_def starts_quiet Let_def split: prod.splits,
      metis fst_conv quiet_reload_all starts_quiet)

lemma stopping_counts_runs:
  "counts_runs d \<Longrightarrow> counts_runs (fst (begin_stopping d))"
  "counts_runs d \<Longrightarrow> counts_runs (signal d)"
  by (simp_all add: counts_runs_def begin_stopping_def signal_def Let_def report_def)

lemma command_counts_runs: "counts_runs d \<Longrightarrow> counts_runs (fst (command out pid req now d))"
proof (cases "req = Stop")
  case True
  assume "counts_runs d"
  from stopping_counts_runs(1) [OF this] True show ?thesis
    by (cases "begin_stopping d") (simp add: command_def)
next
  case False
  assume "counts_runs d"
  with False show ?thesis by (blast intro: starts_counts_runs command_starts)
qed

text \<open>
  One turn of \<open>serve\<close> in the worlds of \<open>W\<close>: unless the daemon is stopped, a pass over the manifests and the due fires, and
  then at most one event. A run ends only if it was started and has not ended.
\<close>

inductive turn :: "('p, 'z) outside set \<Rightarrow> 'p daemon \<Rightarrow> 'p daemon \<Rightarrow> bool" for W where
  timeout: "\<not> stopped d \<Longrightarrow> out \<in> W \<Longrightarrow> turn W d (serve_pass out now d)"
| command: "\<not> stopped d \<Longrightarrow> out \<in> W \<Longrightarrow> later \<in> W \<Longrightarrow>
    turn W d (handle later pid (Command req) then_now (serve_pass out now d))"
| signal: "\<not> stopped d \<Longrightarrow> out \<in> W \<Longrightarrow> later \<in> W \<Longrightarrow>
    turn W d (handle later pid Signal then_now (serve_pass out now d))"
| run_ends: "\<not> stopped d \<Longrightarrow> out \<in> W \<Longrightarrow> later \<in> W \<Longrightarrow>
    k < length (d_threads (serve_pass out now d)) \<Longrightarrow>
    turn W d (finish_thread later k outcome then_now (serve_pass out now d))"

lemma serve_pass_counts_runs: "counts_runs d \<Longrightarrow> counts_runs (serve_pass out now d)"
  by (rule starts_counts_runs [OF starts_serve_pass])

lemma turn_counts_runs: "turn W d d' \<Longrightarrow> counts_runs d \<Longrightarrow> counts_runs d'"
  by (induction rule: turn.induct)
    (auto simp: handle_def intro!: command_counts_runs stopping_counts_runs finish_thread_counts_runs
      serve_pass_counts_runs)

lemma begin_stopping_limit: "d_limit (fst (begin_stopping d)) = d_limit d" "d_limit (signal d) = d_limit d"
  by (simp_all add: begin_stopping_def signal_def report_def Let_def)

lemma starts_limit: "starts d d' \<Longrightarrow> d_limit d' = d_limit d"
  by (simp add: starts_def)

lemma command_limit: "d_limit (fst (command out pid req now d)) = d_limit d"
proof (cases "req = Stop")
  case True
  then show ?thesis
    using begin_stopping_limit(1) [of d] by (cases "begin_stopping d") (simp add: command_def)
next
  case False
  then show ?thesis by (intro starts_limit command_starts)
qed

lemma finish_thread_limit: "d_limit (finish_thread out k outcome now d) = d_limit d"
proof -
  have "d_limit (finish_records out n outcome e) = d_limit e" for n e
    using quiet_finish_records [of e out n outcome] by (simp add: quiet_def)
  then show ?thesis
    by (simp add: finish_thread_def finished_eq end_thread_def starts_limit [OF starts_start_queued])
qed

lemma turn_limit: "turn W d d' \<Longrightarrow> d_limit d' = d_limit d"
  by (induction rule: turn.induct)
    (simp_all add: handle_def command_limit begin_stopping_limit finish_thread_limit
      starts_limit [OF starts_serve_pass])

interpretation turns: stepping "turn W" "\<lambda>d. counts_runs d \<and> d_limit d = limit" for W limit
  by unfold_locales (auto dest: turn_counts_runs turn_limit)

lemma Daemon_open_fields:
  "d_running (Daemon_open out dp limit keep started now r s) = 0 \<and>
   d_limit (Daemon_open out dp limit keep started now r s) = limit \<and>
   d_threads (Daemon_open out dp limit keep started now r s) = [] \<and>
   \<not> d_stopping (Daemon_open out dp limit keep started now r s) \<and>
   \<not> d_exiting (Daemon_open out dp limit keep started now r s)"
proof -
  let ?d = "\<lparr>d_paths = dp, d_registry = r, d_states = s, d_manifests = fst (build out r s),
         d_jobs = snd (build out r s), d_running = 0, d_limit = limit, d_keep = keep, d_started = started,
         d_stopping = False, d_exiting = False, d_threads = [], d_log = []\<rparr>"
  have "quiet ?d (plan_all out now True ?d)" unfolding plan_all_def by (rule quiet_foldl) simp
  moreover have "Daemon_open out dp limit keep started now r s = plan_all out now True ?d"
    by (simp add: Daemon_open_def Let_def split: prod.splits)
  ultimately show ?thesis by (simp add: quiet_def)
qed



text \<open>C14. In every state the daemon reaches, whatever the manifests, commands, signals and ends of runs,
  the runs that are going are exactly as many as it counts, and never more than the limit, which is at
  least one.\<close>

theorem never_over_limit:
  assumes "(turn W)\<^sup>*\<^sup>* (Daemon_open out dp (run_limit limit) keep started now r s) d"
  shows "length (d_threads d) = d_running d \<and> d_running d \<le> max limit 1"
proof -
  have "counts_runs (Daemon_open out dp (run_limit limit) keep started now r s) \<and>
      d_limit (Daemon_open out dp (run_limit limit) keep started now r s) = run_limit limit"
    by (simp add: counts_runs_def Daemon_open_fields)
  from turns.reachable_inv [OF assms this] show ?thesis by (simp add: counts_runs_def run_limit_def)
qed

definition demo_registry :: registry where
  "demo_registry = \<lparr>rg_schema = 1, rg_manifests = [demo_watched]\<rparr>"

definition demo_daemon :: "string daemon" where
  "demo_daemon = Daemon_open demo_outside \<lparr>dp_root = ''/r'', dp_socket = ''/r/s''\<rparr> (run_limit 0) 0 0 0
     demo_registry States_default"

lemma demo_daemon_running: "\<not> stopped demo_daemon"
  by (simp add: demo_daemon_def stopped_def Daemon_open_fields)

lemma demo_turn: "(turn (UNIV :: (string, unit) outside set))\<^sup>*\<^sup>* demo_daemon (serve_pass demo_outside 12 demo_daemon)"
proof -
  have "turn (UNIV :: (string, unit) outside set) demo_daemon (serve_pass demo_outside 12 demo_daemon)"
    by (rule turn.timeout) (simp_all add: demo_daemon_running)
  then show ?thesis by blast
qed

theorem never_over_limit_witness: "d_running (serve_pass demo_outside 12 demo_daemon) \<le> 1"
  using never_over_limit [OF demo_turn [unfolded demo_daemon_def]] by (simp add: demo_daemon_def)

subsection \<open>Stopping\<close>

lemma begin_stopping_threads [simp]:
  "d_threads (fst (begin_stopping d)) = d_threads d" "d_threads (signal d) = d_threads d"
  by (simp_all add: begin_stopping_def signal_def report_def Let_def)

lemma quiet_threads: "quiet d d' \<Longrightarrow> d_threads d' = d_threads d"
  by (simp add: quiet_def)

lemma quiet_command:
  assumes "\<forall>name. req \<noteq> Trigger name"
  shows "d_threads (fst (command out pid req now d)) = d_threads d"
proof (cases req)
  case Reload
  then show ?thesis using quiet_reload_all [of d out now]
    by (simp add: command_def quiet_def split: prod.splits) (metis fst_conv)
next
  case Stop
  then show ?thesis using begin_stopping_threads(1) [of d]
    by (cases "begin_stopping d") (simp add: command_def)
qed (use assms in \<open>simp_all add: command_def quiet_threads [OF quiet_add_manifest]
    quiet_threads [OF quiet_remove_manifest] quiet_threads [OF quiet_hold]\<close>)

text \<open>Once the daemon is stopping, a pass starts no run, the end of a run starts no run, and no command
  but \<open>trigger\<close> starts one.\<close>

theorem stopping_starts_nothing:
  assumes "d_stopping d" and "\<forall>job. req \<noteq> Trigger job"
  shows "d_threads (serve_pass out now d) = d_threads d \<and>
    d_threads (finished out name outcome now d) = d_threads d \<and>
    d_threads (handle out pid (Command req) now d) = d_threads d \<and>
    d_threads (handle out pid Signal now d) = d_threads d"
proof (intro conjI)
  have "quiet d (rescan out now d)" by simp
  with assms(1) show "d_threads (serve_pass out now d) = d_threads d"
    by (simp add: serve_pass_def fire_due_def quiet_def)
  have "quiet (d\<lparr>d_running := d_running d - 1\<rparr>) (finish_records out name outcome d)"
    by (rule quiet_finish_records)
  with assms(1) show "d_threads (finished out name outcome now d) = d_threads d"
    by (simp add: finished_eq start_queued_def quiet_def)
  show "d_threads (handle out pid (Command req) now d) = d_threads d"
    using quiet_command [OF assms(2)] by (simp add: handle_def)
qed (simp add: handle_def)

theorem stopping_starts_nothing_witness:
  "d_threads (serve_pass demo_outside 20 (demo_daemon\<lparr>d_stopping := True\<rparr>)) = []"
proof -
  have "d_threads demo_daemon = []" by (simp add: demo_daemon_def Daemon_open_fields)
  then show ?thesis
    using stopping_starts_nothing [where d = "demo_daemon\<lparr>d_stopping := True\<rparr>" and req = StatusRequest
        and out = demo_outside and now = 20] by simp
qed

text \<open>A trigger does not look at whether the daemon is stopping: it starts the run all the same.\<close>

theorem trigger_ignores_stopping:
  "d_threads (fst (trigger out name now (d\<lparr>d_stopping := True\<rparr>))) =
   d_threads (fst (trigger out name now (d\<lparr>d_stopping := False\<rparr>))) \<and>
   snd (trigger out name now (d\<lparr>d_stopping := True\<rparr>)) =
   snd (trigger out name now (d\<lparr>d_stopping := False\<rparr>))"
proof (cases "find_position (\<lambda>job. j_id job = name) (d_jobs d)")
  case (Some i)
  then show ?thesis
    by (cases "j_error (d_jobs d ! i)")
      (simp_all add: trigger_def start_def find_job_def report_def Let_def split: option.splits)
qed (simp_all add: trigger_def find_job_def del: find_position_None_iff)

end
