(* ===== verification/Client.thy ===== *)
theory Client
  imports Daemon
begin

text \<open>
  \<open>beez-daemon/src/client.rs\<close> and \<open>start.rs\<close>: a command given from the outside. It goes to the daemon
  when one answers, and otherwise to the files. \<open>daemon_files\<close> are the two files as reading gives them;
  a command returns them as it leaves them. What lies outside is the record \<open>client_world\<close>: the answers
  of the daemon, the resolution of paths and the creation of the daemon's directory.
\<close>

record daemon_files =
  df_registry :: "io_error + registry"
  df_states :: "io_error + states"

record ('p, 'z) client_world = "('p, 'z) outside" +
  cw_running :: bool
  cw_send :: "request \<Rightarrow> io_error + response"
  cw_canonicalize :: "string \<Rightarrow> io_error + string"
  cw_create :: "io_error + unit"

datatype daemon_status = RunningStatus response | StoppedStatus "job_report list"

type_synonym 'a command_result = "(io_error + 'a) \<times> daemon_files"

definition load_files :: "daemon_files \<Rightarrow> io_error + registry \<times> states" where
  "load_files files =
     and_then (df_registry files) (\<lambda>registry.
     and_then (df_states files) (\<lambda>states. Inr (registry, states)))"

definition client_status ::
    "('p, 'z, 'm) client_world_scheme \<Rightarrow> instant \<Rightarrow> daemon_files \<Rightarrow> io_error + daemon_status" where
  "client_status cw now files =
     (if cw_running cw then and_then (cw_send cw StatusRequest) (\<lambda>r. Inr (RunningStatus r))
      else and_then (load_files files) (\<lambda>(registry, states).
             Inr (StoppedStatus (reports cw now registry states))))"

definition needs_daemon :: response where
  "needs_daemon = Refused ''the daemon is not running''"

definition client_remove ::
    "('p, 'z, 'm) client_world_scheme \<Rightarrow> string \<Rightarrow> daemon_files \<Rightarrow> response command_result" where
  "client_remove cw m files =
     (case df_registry files of
        Inl e \<Rightarrow> (Inl e, files)
      | Inr r \<Rightarrow>
          let canonical = (case cw_canonicalize cw m of Inr c \<Rightarrow> c | Inl _ \<Rightarrow> m);
              path = (if watches r canonical then canonical else m);
              (r, answer) = apply_unwatch cw r path in
          (answer, (case answer of Inr (Done _) \<Rightarrow> files\<lparr>df_registry := Inr r\<rparr> | _ \<Rightarrow> files)))"

definition client_hold ::
    "('p, 'z, 'm) client_world_scheme \<Rightarrow> string \<Rightarrow> bool \<Rightarrow> daemon_files \<Rightarrow> response command_result" where
  "client_hold cw i paused files =
     (case load_files files of
        Inl e \<Rightarrow> (Inl e, files)
      | Inr (r, s) \<Rightarrow>
          if \<not> list_ex (\<lambda>job. j_id job = i) (snd (build cw r s)) then (Inr (Refused (unknown_job i)), files)
          else
            let state = (States_get s i)\<lparr>st_paused := paused\<rparr>;
                s = States_set s i state in
            (case and_then (cw_create cw) (\<lambda>_. o_save_states cw) of
               Inl e \<Rightarrow> (Inl e, files)
             | Inr _ \<Rightarrow> (Inr (Done (held i paused)), files\<lparr>df_states := Inr s\<rparr>)))"

definition client_command ::
    "('p, 'z, 'm) client_world_scheme \<Rightarrow> request \<Rightarrow> daemon_files \<Rightarrow> response command_result" where
  "client_command cw req files =
     (if cw_running cw then (cw_send cw req, files)
      else case req of
             Remove m \<Rightarrow> client_remove cw m files
           | Pause job \<Rightarrow> client_hold cw job True files
           | Resume job \<Rightarrow> client_hold cw job False files
           | _ \<Rightarrow> (Inr needs_daemon, files))"

definition write_registry ::
    "('p, 'z, 'm) client_world_scheme \<Rightarrow> registry \<Rightarrow> watched \<Rightarrow> daemon_files \<Rightarrow> response command_result" where
  "write_registry cw r w files =
     (case cw_create cw of
        Inl e \<Rightarrow> (Inl e, files)
      | Inr _ \<Rightarrow>
          (case apply_watch cw r w of
             (r, Inl e) \<Rightarrow> (Inl e, files)
           | (r, Inr message) \<Rightarrow>
               (Inr (Done (message @ '', and the daemon reads it when it starts'')),
                files\<lparr>df_registry := Inr r\<rparr>)))"

definition client_add ::
    "('p, 'z, 'm) client_world_scheme \<Rightarrow> string \<Rightarrow> daemon_files \<Rightarrow> response command_result" where
  "client_add cw m files =
     (case cw_canonicalize cw m of
        Inl e \<Rightarrow> (Inl e, files)
      | Inr path \<Rightarrow>
          (case parent path of
             None \<Rightarrow> (Inr (Refused (path @ '' has no directory'')), files)
           | Some working_directory \<Rightarrow>
               if cw_running cw then (cw_send cw (Add path working_directory), files)
               else
                 let w = \<lparr>w_path = path, w_working_directory = working_directory\<rparr> in
                 (case load_files files of
                    Inl e \<Rightarrow> (Inl e, files)
                  | Inr (r, s) \<Rightarrow>
                      let jobs = jobs_of cw w s;
                          others = concat (map (\<lambda>other. ids_of cw other s)
                            (filter (\<lambda>other. \<not> path_eq (w_path other) (w_path w)) (rg_manifests r))) in
                      (case admit jobs others of
                         Inl e \<Rightarrow> (Inr (Refused e), files)
                       | Inr _ \<Rightarrow> write_registry cw r w files))))"

subsection \<open>Starting the daemon\<close>

definition ATTEMPTS :: nat where "ATTEMPTS = 50"

text \<open>
  \<open>opened\<close> is the result of opening the log and \<open>spawned\<close> the pid of the child; \<open>answers n\<close> tells whether
  a daemon answers on the \<open>n\<close>-th look, the look before the spawn apart.
\<close>

definition start_daemon ::
    "('p, 'z, 'm) client_world_scheme \<Rightarrow> io_error + unit \<Rightarrow> io_error + nat \<Rightarrow> (nat \<Rightarrow> bool)
     \<Rightarrow> daemon_paths \<Rightarrow> io_error + response" where
  "start_daemon cw opened spawned answers dp =
     (if cw_running cw then Inr (Refused (already_running (dp_root dp)))
      else and_then (cw_create cw) (\<lambda>_. and_then opened (\<lambda>_. and_then spawned (\<lambda>pid.
             if list_ex answers [0..<ATTEMPTS] then
               Inr (Done (''daemon started, pid '' @ dec pid @ '', writing to '' @ dp_log dp))
             else Inr (Refused (''the daemon did not answer on '' @ dp_socket dp @ '', see '' @ dp_log dp))))))"

subsection \<open>A command on the files and on the daemon\<close>

text \<open>The jobs a daemon opens with hold the states of the files.\<close>

definition opened_on :: "('p, 'z, 'm) outside_scheme \<Rightarrow> daemon_files \<Rightarrow> 'p daemon \<Rightarrow> bool" where
  "opened_on out files d \<longleftrightarrow>
     df_registry files = Inr (d_registry d) \<and> df_states files = Inr (d_states d) \<and>
     d_jobs d = snd (build out (d_registry d) (d_states d))"

lemma build_states: "job \<in> set (snd (build out r s)) \<Longrightarrow> j_state job = States_get s (j_id job)"
  by (auto simp: build_def jobs_of_fresh)

lemma plan_job_states [simp]: "d_states (plan_job out i now b d) = d_states d"
  by (auto simp: plan_job_def report_def Let_def split: option.splits prod.splits planned.splits)

lemma write_states_states [simp]: "d_states (write_states out d) = d_states d"
  by (simp add: write_states_def report_def split: sum.split)

text \<open>Pausing or resuming a job writes the same states and gives the same answer whether the daemon
  runs or the command goes to its files.\<close>

theorem client_hold_as_daemon:
  assumes "opened_on cw files d" and "cw_create cw = Inr ()" and "o_save_states cw = Inr ()"
  shows "case hold cw i paused now d of (d', answer) \<Rightarrow>
    client_hold cw i paused files = (Inr answer, files\<lparr>df_states := Inr (d_states d')\<rparr>)"
proof (cases "find_job i d")
  case None
  then have "\<not> list_ex (\<lambda>job. j_id job = i) (d_jobs d)" by (simp add: find_job_def list_ex_iff)
  with None assms(1) show ?thesis
    by (simp add: hold_def client_hold_def load_files_def opened_on_def)
next
  case (Some k)
  then have k: "k < length (d_jobs d)" "j_id (d_jobs d ! k) = i"
    using find_position_SomeD by (fastforce simp: find_job_def)+
  then have "j_state (d_jobs d ! k) = States_get (d_states d) i"
    using build_states [of "d_jobs d ! k" cw "d_registry d" "d_states d"] assms(1)
    by (auto simp: opened_on_def)
  moreover have "list_ex (\<lambda>job. j_id job = i) (d_jobs d)" using k by (auto simp: list_ex_iff)
  ultimately show ?thesis using assms k Some
    by (simp add: hold_def client_hold_def load_files_def opened_on_def update_job_def save_state_def
        report_def Let_def)
qed

definition demo_client :: "(string, unit) client_world" where
  "demo_client = outside.extend demo_outside
     (client_world.fields False (\<lambda>_. Inr needs_daemon) Inr (Inr ()))"

definition demo_registry :: registry where
  "demo_registry = fst (Registry_add Registry_default demo_watched)"

definition demo_opened :: "string daemon" where
  "demo_opened =
     \<lparr>d_paths = DaemonPaths_new ''/tmp'' ''/.beez'', d_registry = demo_registry, d_states = States_default,
      d_manifests = [], d_jobs = [demo_job], d_running = 0, d_limit = 2, d_keep = 0, d_started = 0,
      d_stopping = False, d_exiting = False, d_threads = [], d_log = []\<rparr>"

lemma demo_opened_on:
  "opened_on demo_client \<lparr>df_registry = Inr demo_registry, df_states = Inr States_default\<rparr> demo_opened"
proof -
  have "jobs_of demo_client demo_watched States_default = jobs_of demo_outside demo_watched States_default"
    by (simp add: jobs_of_def load_manifest_def demo_client_def outside.defs client_world.defs demo_outside_def)
  then have "jobs_of demo_client demo_watched States_default = [demo_job]" by (simp only: demo_jobs_of)
  moreover have "rg_manifests demo_registry = [demo_watched]" by code_simp
  ultimately show ?thesis by (simp add: opened_on_def demo_opened_def build_def)
qed

theorem client_hold_as_daemon_witness:
  "\<exists>s. client_hold demo_client ''f'' True \<lparr>df_registry = Inr demo_registry, df_states = Inr States_default\<rparr>
     = (Inr (Done (held ''f'' True)), \<lparr>df_registry = Inr demo_registry, df_states = Inr s\<rparr>)"
proof -
  have ok: "cw_create demo_client = Inr ()" "o_save_states demo_client = Inr ()" by code_simp+
  have "snd (hold demo_client ''f'' True 0 demo_opened) = Done (held ''f'' True)"
    by (simp add: hold_def find_job_def demo_opened_def demo_job_def Let_def)
  then show ?thesis
    using client_hold_as_daemon [OF demo_opened_on ok, of "''f''" True 0]
    by (cases "hold demo_client ''f'' True 0 demo_opened") auto
qed

subsection \<open>Removing a manifest\<close>

lemma Registry_remove_watched:
  "snd (Registry_remove r p) \<longleftrightarrow> watches r p" "\<not> watches (fst (Registry_remove r p)) p"
  "\<not> watches r p \<Longrightarrow> fst (Registry_remove r p) = r"
proof -
  have keep: "filter (\<lambda>w. \<not> path_eq (w_path w) p) ws = ws \<longleftrightarrow> \<not> list_ex (\<lambda>w. path_eq (w_path w) p) ws" for ws
    by (auto simp: filter_id_conv list_ex_iff)
  have same: "length ws = length (filter (\<lambda>w. \<not> path_eq (w_path w) p) ws)
      \<longleftrightarrow> filter (\<lambda>w. \<not> path_eq (w_path w) p) ws = ws" for ws
    by (metis filter_True length_filter_less nat_neq_iff)
  show "snd (Registry_remove r p) \<longleftrightarrow> watches r p"
    unfolding Registry_remove_def retain_paths_def watches_def Let_def snd_conv
    using same [of "rg_manifests r"] keep [of "rg_manifests r"] by simp
  show "\<not> watches (fst (Registry_remove r p)) p"
    by (auto simp: Registry_remove_def retain_paths_def watches_def list_ex_iff)
  show "\<not> watches r p \<Longrightarrow> fst (Registry_remove r p) = r"
    by (simp add: Registry_remove_def retain_paths_def watches_def flip: keep)
qed

text \<open>C36. A manifest named by a path that is not the full one is removed from the files when no daemon runs,
  while a daemon that runs refuses the same command, since it compares the path as typed.\<close>

theorem remove_by_other_path:
  assumes "df_registry files = Inr (d_registry d)" and "cw_canonicalize cw m = Inr path"
    and "watches (d_registry d) path" and "\<not> watches (d_registry d) m" and "o_save_registry cw = Inr ()"
  shows "remove_manifest cw m d = (d, Refused (not_watched m))
    \<and> (\<exists>r. client_remove cw m files = (Inr (Done (stopped_watching path)), files\<lparr>df_registry := Inr r\<rparr>)
         \<and> \<not> watches r path)"
proof -
  obtain r removed where gone: "Registry_remove (d_registry d) path = (r, removed)" by fastforce
  then have "removed" and "\<not> watches r path"
    using Registry_remove_watched(1,2) [of "d_registry d" path] assms(3) by auto
  moreover obtain r' where "Registry_remove (d_registry d) m = (r', False)" and "r' = d_registry d"
    using Registry_remove_watched(1,3) [of "d_registry d" m] assms(4) by (metis prod.collapse)
  moreover have "client_remove cw m files =
      (Inr (Done (stopped_watching path)), files\<lparr>df_registry := Inr r\<rparr>)" if removed
    using assms gone that by (simp add: client_remove_def apply_unwatch_def)
  ultimately show ?thesis by (auto simp: remove_manifest_def apply_unwatch_def)
qed

theorem remove_by_other_path_witness:
  "snd (remove_manifest (demo_client\<lparr>cw_canonicalize := (\<lambda>_. Inr ''/f.yaml'')\<rparr>) ''f.yaml'' demo_opened)
     = Refused (not_watched ''f.yaml'')"
proof -
  have watched: "watches (d_registry demo_opened) ''/f.yaml''" "\<not> watches (d_registry demo_opened) ''f.yaml''"
    unfolding demo_opened_def daemon.simps by code_simp+
  have "o_save_registry (demo_client\<lparr>cw_canonicalize := (\<lambda>_. Inr ''/f.yaml'')\<rparr>) = Inr ()"
    by (simp add: demo_client_def client_world.defs outside.defs demo_outside_def)
  then show ?thesis
    using remove_by_other_path [of "\<lparr>df_registry = Inr (d_registry demo_opened), df_states = Inr States_default\<rparr>"
        demo_opened "demo_client\<lparr>cw_canonicalize := (\<lambda>_. Inr ''/f.yaml'')\<rparr>" "''f.yaml''" "''/f.yaml''"] watched
    by simp
qed

end
