(* ===== verification/Control.thy ===== *)
theory Control
  imports Daemon
begin

text \<open>
  \<open>beez-daemon/src/control.rs\<close> and the listener of \<open>daemon.rs\<close>: one request and one response cross the
  socket, each as one line. The JSON of \<open>serde_json\<close> is a pair of parameters, \<open>to_json\<close> and \<open>from_json\<close>, and
  the stream is the bytes that were sent, with an error when the peer is gone.
\<close>

subsection \<open>Lines\<close>

text \<open>What \<open>BufRead::read_line\<close> takes from a stream: up to the first newline, or all there is.\<close>

fun first_line :: "string \<Rightarrow> string" where
  "first_line [] = []"
| "first_line (b # bs) = (if b = newline then [b] else b # first_line bs)"

definition read_line :: "(string \<Rightarrow> string + 'a) \<Rightarrow> string \<Rightarrow> io_error + string \<Rightarrow> io_error + 'a" where
  "read_line from_json none received =
     and_then received (\<lambda>bytes.
       let line = first_line bytes in
       if \<not> valid_utf8 line then Inl (IoError ''InvalidData'' ''stream did not contain valid UTF-8'')
       else if line = [] then Inl (io_other none)
       else map_err io_other (from_json line))"

definition send_bytes :: "io_error option \<Rightarrow> string \<Rightarrow> (string, io_error, unit) Prelude.action" where
  "send_bytes gone bytes = (\<lambda>sent. case gone of Some e \<Rightarrow> (Inl e, sent) | None \<Rightarrow> (Inr (), sent @ bytes))"

definition write_line ::
    "('a \<Rightarrow> string + string) \<Rightarrow> io_error option \<Rightarrow> 'a \<Rightarrow> (string, io_error, unit) Prelude.action" where
  "write_line to_json gone m =
     sbind (slift (map_err io_other (to_json m))) (\<lambda>line.
     sbind (send_bytes gone line) (\<lambda>_. send_bytes gone [newline]))"

text \<open>\<open>reply\<close> is what the daemon sends back for the bytes it got.\<close>

definition control_send ::
    "(request \<Rightarrow> string + string) \<Rightarrow> (string \<Rightarrow> string + response) \<Rightarrow> io_error + unit \<Rightarrow> io_error option
     \<Rightarrow> (string \<Rightarrow> io_error + string) \<Rightarrow> request \<Rightarrow> io_error + response" where
  "control_send to_json from_json connected gone reply req =
     and_then connected (\<lambda>_.
       case write_line to_json gone req [] of
         (Inl e, sent) \<Rightarrow> Inl e
       | (Inr _, sent) \<Rightarrow> read_line from_json ''daemon closed the connection'' (reply sent))"

text \<open>
  The listener with one connection: a request becomes an event of the daemon, anything else is answered
  at once and the daemon does not hear of it. The second part is the bytes it wrote itself.
\<close>

definition listen_one ::
    "(string \<Rightarrow> string + request) \<Rightarrow> (response \<Rightarrow> string + string) \<Rightarrow> io_error option
     \<Rightarrow> io_error + string \<Rightarrow> event option \<times> string" where
  "listen_one from_json to_json gone received =
     (case read_line from_json ''no command arrived'' received of
        Inr req \<Rightarrow> (Some (Command req), [])
      | Inl e \<Rightarrow> (None, snd (write_line to_json gone (Refused (io_text e)) [])))"

subsection \<open>A command and its answer\<close>

lemma first_line_newline: "newline \<notin> set line \<Longrightarrow> first_line (line @ [newline]) = line @ [newline]"
  by (induction line) auto

lemma write_line_sent:
  "to_json m = Inr line \<Longrightarrow> write_line to_json None m [] = (Inr (), line @ [newline])"
  by (simp add: write_line_def send_bytes_def sbind_def slift_def)

lemma read_line_written:
  assumes "newline \<notin> set line" and "valid_utf8 (line @ [newline])"
  shows "read_line from_json none (Inr (line @ [newline])) = map_err io_other (from_json (line @ [newline]))"
  using assms by (simp add: read_line_def first_line_newline Let_def)

text \<open>What a daemon with the answers \<open>answer\<close> sends back on a connection.\<close>

definition daemon_reply ::
    "(string \<Rightarrow> string + request) \<Rightarrow> (response \<Rightarrow> string + string) \<Rightarrow> (request \<Rightarrow> response)
     \<Rightarrow> string \<Rightarrow> io_error + string" where
  "daemon_reply from_json to_json answer sent =
     (case listen_one from_json to_json None (Inr sent) of
        (Some (Command req), written) \<Rightarrow> Inr (snd (write_line to_json None (answer req) written))
      | (_, written) \<Rightarrow> Inr written)"

text \<open>\<open>encodes to_json from_json m\<close>: the JSON of \<open>m\<close> is one line of valid text that reads back as \<open>m\<close>.\<close>

definition encodes :: "('a \<Rightarrow> string + string) \<Rightarrow> (string \<Rightarrow> string + 'a) \<Rightarrow> 'a \<Rightarrow> bool" where
  "encodes to_json from_json m \<longleftrightarrow>
     (case to_json m of
        Inl e \<Rightarrow> False
      | Inr line \<Rightarrow> newline \<notin> set line \<and> valid_utf8 (line @ [newline]) \<and> from_json (line @ [newline]) = Inr m)"

lemma encodes_read:
  assumes "encodes to_json from_json m"
  shows "\<exists>line. write_line to_json None m [] = (Inr (), line)
    \<and> read_line from_json none (Inr line) = Inr m"
  using assms by (auto simp: encodes_def write_line_sent read_line_written split: sum.splits)

lemma command_reaches_daemon:
  assumes "encodes req_to req_from req" and "encodes resp_to resp_from (answer req)"
  shows "control_send req_to resp_from (Inr ()) None (daemon_reply req_from resp_to answer) req = Inr (answer req)"
proof -
  obtain line where req: "write_line req_to None req [] = (Inr (), line)"
    "read_line req_from ''no command arrived'' (Inr line) = Inr req"
    using encodes_read [OF assms(1)] by blast
  obtain answered where "write_line resp_to None (answer req) [] = (Inr (), answered)"
    "read_line resp_from ''daemon closed the connection'' (Inr answered) = Inr (answer req)"
    using encodes_read [OF assms(2)] by blast
  then show ?thesis using req by (simp add: control_send_def daemon_reply_def listen_one_def)
qed

text \<open>Bytes that are no request, or a connection closed without any, never reach the daemon.\<close>

lemma garbage_never_reaches_daemon:
  "fst (listen_one from_json to_json gone received) = Some (Command req)
   \<longleftrightarrow> read_line from_json ''no command arrived'' received = Inr req"
  by (simp add: listen_one_def split: sum.split)

end
