(* ===== verification/Daemon_Run.thy ===== *)
theory Daemon_Run
  imports Daemon_Safety Client Control
begin

text \<open>
  \<open>run\<close> and \<open>serve\<close> of \<open>beez-daemon/src/daemon.rs\<close>: a daemon from its start to its end. What happens to it
  is a list of turns, each with the world and the time it sees and the one event it takes off its
  channel, if any.
\<close>

subsection \<open>The loop\<close>

text \<open>\<open>RunEnds k outcome\<close>: run number \<open>k\<close> of those going ends, counted round.\<close>

datatype happening = Timeout | Arrives request | Signalled | RunEnds nat run_outcome

record ('p, 'z) loop_turn =
  lt_world :: "('p, 'z) outside"
  lt_now :: instant
  lt_later :: "('p, 'z) outside"
  lt_then :: instant
  lt_event :: happening

definition take_event :: "nat \<Rightarrow> ('p, 'z) loop_turn \<Rightarrow> 'p daemon \<Rightarrow> 'p daemon" where
  "take_event pid t d =
     (case lt_event t of
        Timeout \<Rightarrow> d
      | Arrives req \<Rightarrow> handle (lt_later t) pid (Command req) (lt_then t) d
      | Signalled \<Rightarrow> handle (lt_later t) pid Signal (lt_then t) d
      | RunEnds k outcome \<Rightarrow>
          if d_threads d = [] then d
          else finish_thread (lt_later t) (k mod length (d_threads d)) outcome (lt_then t) d)"

fun serve :: "nat \<Rightarrow> ('p, 'z) loop_turn list \<Rightarrow> 'p daemon \<Rightarrow> 'p daemon" where
  "serve pid [] d = d"
| "serve pid (t # ts) d =
     (if stopped d then d else serve pid ts (take_event pid t (serve_pass (lt_world t) (lt_now t) d)))"

subsection \<open>From start to end\<close>

text \<open>
  What starting a daemon asks the system, beside what a client does: the two attempts to bind the socket
  and the removal of a dead one between them, the record of the process, and the handler of the signals.
\<close>

record ('p, 'z) start_world = "('p, 'z) client_world" +
  sw_bind :: "io_error + unit"
  sw_remove_socket :: "io_error + unit"
  sw_bind_again :: "io_error + unit"
  sw_write_record :: "io_error + unit"
  sw_signals :: "io_error + unit"

definition started_message :: "'p daemon \<Rightarrow> string" where
  "started_message d =
     ''started with '' @ dec (length (d_jobs d)) @ '' jobs, '' @ dec (d_limit d) @ '' at a time, on ''
     @ dp_socket (d_paths d)"

definition daemon_start_up ::
    "('p, 'z, 'm) start_world_scheme \<Rightarrow> instant \<Rightarrow> instant \<Rightarrow> daemon_paths \<Rightarrow> nat \<Rightarrow> nat \<Rightarrow> daemon_files
     \<Rightarrow> io_error + 'p daemon" where
  "daemon_start_up sw started now dp limit keep files =
     and_then (map_err (\<lambda>e. IoError (io_kind e) (''cannot create '' @ dp_directory dp @ '': '' @ io_text e))
                (cw_create sw)) (\<lambda>_.
     and_then (bind_socket (sw_bind sw) (cw_running sw) (sw_remove_socket sw) (sw_bind_again sw) dp) (\<lambda>_.
     and_then (load_files files) (\<lambda>(registry, states).
       let d = Daemon_open sw dp (run_limit limit) keep started now registry states in
     and_then (sw_write_record sw) (\<lambda>_.
     and_then (sw_signals sw) (\<lambda>_. Inr (sweep sw (report ''Daemon'' (started_message d) d)))))))"

definition daemon_run ::
    "('p, 'z, 'm) start_world_scheme \<Rightarrow> nat \<Rightarrow> ('p, 'z) loop_turn list \<Rightarrow> instant \<Rightarrow> instant \<Rightarrow> daemon_paths
     \<Rightarrow> nat \<Rightarrow> nat \<Rightarrow> daemon_files \<Rightarrow> io_error + 'p daemon" where
  "daemon_run sw pid turns started now dp limit keep files =
     and_then (daemon_start_up sw started now dp limit keep files) (\<lambda>d.
       Inr (report ''Daemon'' ''stopped'' (serve pid turns d)))"

subsection \<open>A daemon that was told to stop\<close>

definition ends_run :: "happening \<Rightarrow> bool" where
  "ends_run h = (case h of RunEnds k outcome \<Rightarrow> True | _ \<Rightarrow> False)"

definition triggers :: "happening \<Rightarrow> bool" where
  "triggers h = (case h of Arrives (Trigger job) \<Rightarrow> True | _ \<Rightarrow> False)"

definition stopping_with :: "nat \<Rightarrow> 'p daemon \<Rightarrow> bool" where
  "stopping_with n d \<longleftrightarrow> d_stopping d \<and> d_running d = n \<and> length (d_threads d) = n"

lemma quiet_stopping_with: "quiet d d' \<Longrightarrow> stopping_with n d \<Longrightarrow> stopping_with n d'"
  by (simp add: quiet_def stopping_with_def)

lemma stopping_pass:
  assumes "stopping_with n d"
  shows "stopping_with n (serve_pass out now d) \<and> d_exiting (serve_pass out now d) = d_exiting d"
proof -
  have "quiet d (rescan out now d)" by simp
  then show ?thesis using assms
    by (simp add: serve_pass_def fire_due_def quiet_def stopping_with_def)
qed

lemma stopping_command:
  assumes "stopping_with n d" and "\<forall>job. req \<noteq> Trigger job"
  shows "stopping_with n (fst (command out pid req now d))"
proof (cases "req = Stop")
  case True
  then show ?thesis using assms(1)
    by (simp add: command_def begin_stopping_def stopping_with_def report_def Let_def)
next
  case False
  have "quiet d (fst (command out pid req now d))"
  proof (cases "req = Reload")
    case True
    then show ?thesis using quiet_reload_all [of d out now]
      by (cases "reload_all out now d") (simp add: command_def)
  qed (use assms(2) False in \<open>cases req; simp add: command_def\<close>)
  then show ?thesis using assms(1) by (rule quiet_stopping_with)
qed

lemma stopping_finish:
  assumes "stopping_with (Suc n) d" and "k < length (d_threads d)"
  shows "stopping_with n (finish_thread out k outcome now d)"
proof -
  let ?d = "(end_thread k d)\<lparr>d_running := d_running (end_thread k d) - 1\<rparr>"
  have "stopping_with n ?d" using assms by (auto simp: stopping_with_def end_thread_def)
  then have "stopping_with n (finish_records out (run_id (d_threads d ! k)) outcome (end_thread k d))"
    using quiet_finish_records quiet_stopping_with by blast
  then show ?thesis by (simp add: finish_thread_def finished_eq start_queued_def stopping_with_def)
qed

lemma exiting_stopped: "d_exiting d \<Longrightarrow> serve pid ts d = d"
  by (cases ts) (simp_all add: stopped_def)

text \<open>One turn of a daemon that is stopping with \<open>n\<close> runs.\<close>

lemma stopping_turn:
  assumes "stopping_with n d" and "\<not> triggers (lt_event t)"
    and d': "d' = take_event pid t (serve_pass (lt_world t) (lt_now t) d)"
  shows "d_exiting d' \<or> (stopping_with (if ends_run (lt_event t) then n - 1 else n) d' \<and> lt_event t \<noteq> Signalled)"
proof -
  let ?p = "serve_pass (lt_world t) (lt_now t) d"
  have pass: "stopping_with n ?p" using stopping_pass [OF assms(1)] by blast
  show ?thesis
  proof (cases "lt_event t")
    case Timeout
    then show ?thesis using pass d' by (simp add: take_event_def ends_run_def)
  next
    case (Arrives req)
    then have "\<forall>job. req \<noteq> Trigger job" using assms(2) by (auto simp: triggers_def)
    from stopping_command [OF pass this, of "lt_later t" pid "lt_then t"] Arrives d' show ?thesis
      by (simp add: take_event_def ends_run_def handle_def)
  next
    case Signalled
    then show ?thesis using pass d'
      by (simp add: take_event_def handle_def signal_def stopping_with_def report_def)
  next
    case (RunEnds k outcome)
    show ?thesis
    proof (cases n)
      case 0
      then have "d_threads ?p = []" using pass by (simp add: stopping_with_def)
      then show ?thesis using RunEnds pass d' 0 by (simp add: take_event_def ends_run_def)
    next
      case (Suc m)
      then have "k mod length (d_threads ?p) < length (d_threads ?p)" "d_threads ?p \<noteq> []"
        using pass by (auto simp: stopping_with_def)
      from stopping_finish [OF pass [unfolded Suc] this(1), of "lt_later t" outcome "lt_then t"] this(2) RunEnds d' Suc show ?thesis
        by (simp add: take_event_def ends_run_def)
    qed
  qed
qed

text \<open>C37. A daemon that was told to stop ends: whatever else arrives, unless a run is triggered, the loop is
  left as soon as the runs that were going have ended, and at once when a second signal arrives.\<close>

theorem stopping_daemon_ends:
  assumes "d_stopping d" and "length (d_threads d) = d_running d"
    and "\<forall>t\<in>set ts. \<not> triggers (lt_event t)"
    and "d_running d \<le> length (filter (\<lambda>t. ends_run (lt_event t)) ts) \<or> Signalled \<in> lt_event ` set ts"
  shows "stopped (serve pid ts d)"
proof -
  have "stopped (serve pid ts d)"
    if "stopping_with n d"
      "n \<le> length (filter (\<lambda>t. ends_run (lt_event t)) ts) \<or> Signalled \<in> lt_event ` set ts" for n
    using that assms(3)
  proof (induction ts arbitrary: d n)
    case Nil
    then show ?case by (simp add: stopping_with_def stopped_def)
  next
    case (Cons t ts)
    let ?d = "take_event pid t (serve_pass (lt_world t) (lt_now t) d)"
    consider "stopped d" | "d_exiting ?d" |
      "stopping_with (if ends_run (lt_event t) then n - 1 else n) ?d" "lt_event t \<noteq> Signalled"
      using stopping_turn [OF Cons.prems(1) _ refl, of t pid] Cons.prems(3) by auto
    then show ?case
    proof cases
      case 2
      then show ?thesis using exiting_stopped [of ?d pid ts] by (auto simp: stopped_def)
    next
      case 3
      have "stopped (serve pid ts ?d)"
        by (rule Cons.IH [OF 3(1)]) (use Cons.prems(2,3) 3(2) in \<open>auto split: if_splits\<close>)
      then show ?thesis by simp
    qed simp
  qed
  then show ?thesis using assms by (simp add: stopping_with_def)
qed

definition quiet_turn :: "happening \<Rightarrow> (string, unit) loop_turn" where
  "quiet_turn h = \<lparr>lt_world = demo_outside, lt_now = 12, lt_later = demo_outside, lt_then = 12, lt_event = h\<rparr>"

theorem stopping_daemon_ends_witness:
  "stopped (serve 7 [quiet_turn Timeout, quiet_turn (Arrives Stop), quiet_turn Signalled]
     (demo_daemon\<lparr>d_stopping := True\<rparr>))"
proof -
  have "d_threads demo_daemon = []" "d_running demo_daemon = 0"
    by (simp_all add: demo_daemon_def Daemon_open_fields)
  then show ?thesis
    by (intro stopping_daemon_ends) (auto simp: quiet_turn_def triggers_def ends_run_def)
qed

end
