(* ===== verification/Daemon_Board.thy ===== *)
theory Daemon_Board
  imports Daemon_Run "HOL-Library.Multiset"
begin

text \<open>
  What the daemon promises about runs, without its jobs, manifests, schedules and files: a board of the
  runs that are going. \<open>board_turn\<close> is the whole specification, and the daemon of
  \<open>beez-daemon/src/daemon.rs\<close> is shown to refine it, turn by turn and from its start to its end.
\<close>

subsection \<open>The specification\<close>

record board =
  bd_going :: "job_run multiset"
  bd_limit :: nat
  bd_stopping :: bool
  bd_exiting :: bool

definition empty_board :: "nat \<Rightarrow> board" where
  "empty_board n = \<lparr>bd_going = {#}, bd_limit = n, bd_stopping = False, bd_exiting = False\<rparr>"

definition board_closed :: "board \<Rightarrow> bool" where
  "board_closed b \<longleftrightarrow> bd_exiting b \<or> bd_stopping b \<and> bd_going b = {#}"

text \<open>A run begins where there is room, and on its own only while the board is not stopping.\<close>

inductive triggered :: "board \<Rightarrow> board \<Rightarrow> bool" where
  "size (bd_going b) < bd_limit b \<Longrightarrow> triggered b (b\<lparr>bd_going := add_mset r (bd_going b)\<rparr>)"

inductive begins :: "board \<Rightarrow> board \<Rightarrow> bool" where
  "\<not> bd_stopping b \<Longrightarrow> triggered b c \<Longrightarrow> begins b c"

inductive ended :: "board \<Rightarrow> board \<Rightarrow> bool" where
  "r \<in># bd_going b \<Longrightarrow> ended b (b\<lparr>bd_going := bd_going b - {#r#}\<rparr>)"

text \<open>Being told to stop once closes the board to new runs; a signal after that leaves it at once.\<close>

inductive told :: "board \<Rightarrow> board \<Rightarrow> bool" where
  "told b (b\<lparr>bd_stopping := True\<rparr>)"
| "bd_stopping b \<Longrightarrow> told b (b\<lparr>bd_exiting := True\<rparr>)"

text \<open>A turn of a board that is not closed: runs begin, and then at most one thing happens to it.\<close>

inductive board_turn :: "board \<Rightarrow> board \<Rightarrow> bool" where
  passes: "\<not> board_closed b \<Longrightarrow> begins\<^sup>*\<^sup>* b c \<Longrightarrow> board_turn b c"
| triggers_one: "\<not> board_closed b \<Longrightarrow> begins\<^sup>*\<^sup>* b c \<Longrightarrow> triggered c e \<Longrightarrow> board_turn b e"
| is_told: "\<not> board_closed b \<Longrightarrow> begins\<^sup>*\<^sup>* b c \<Longrightarrow> told c e \<Longrightarrow> board_turn b e"
| ends_one: "\<not> board_closed b \<Longrightarrow> begins\<^sup>*\<^sup>* b c \<Longrightarrow> ended c e \<Longrightarrow> begins\<^sup>*\<^sup>* e f \<Longrightarrow> board_turn b f"

subsection \<open>The daemon as a board\<close>

definition board_of :: "'p daemon \<Rightarrow> board" where
  "board_of d = \<lparr>bd_going = mset (d_threads d), bd_limit = d_limit d, bd_stopping = d_stopping d,
     bd_exiting = d_exiting d\<rparr>"

lemma board_of_simps [simp]:
  "bd_going (board_of d) = mset (d_threads d)" "bd_limit (board_of d) = d_limit d"
  "bd_stopping (board_of d) = d_stopping d" "bd_exiting (board_of d) = d_exiting d"
  by (simp_all add: board_of_def)

lemma board_closed_of: "counts_runs d \<Longrightarrow> board_closed (board_of d) \<longleftrightarrow> stopped d"
  by (auto simp: board_closed_def stopped_def counts_runs_def)

lemma quiet_board: "quiet d d' \<Longrightarrow> board_of d' = board_of d"
  by (simp add: quiet_def board_of_def)

text \<open>Runs that fit begin one after the other.\<close>

lemma begins_all:
  assumes "\<not> bd_stopping b" and "size (bd_going b) + length rs \<le> bd_limit b"
  shows "begins\<^sup>*\<^sup>* b (b\<lparr>bd_going := bd_going b + mset rs\<rparr>)"
  using assms(2)
proof (induction rs rule: rev_induct)
  case (snoc r rs)
  let ?c = "b\<lparr>bd_going := bd_going b + mset rs\<rparr>"
  have "begins\<^sup>*\<^sup>* b ?c" using snoc by simp
  moreover have "begins ?c (?c\<lparr>bd_going := add_mset r (bd_going ?c)\<rparr>)"
    using snoc.prems assms(1) by (intro begins.intros triggered.intros) simp_all
  ultimately show ?case by simp
qed simp

lemma starts_begins:
  assumes "starts d d'" and "counts_runs d"
    and "d_stopping d \<Longrightarrow> d_threads d' = d_threads d"
  shows "begins\<^sup>*\<^sup>* (board_of d) (board_of d')"
proof -
  obtain rs where rs: "d_threads d' = d_threads d @ rs" "d_running d' = d_running d + length rs"
      "rs = [] \<or> d_running d' \<le> d_limit d"
    and same: "d_limit d' = d_limit d" "d_stopping d' = d_stopping d" "d_exiting d' = d_exiting d"
    using assms(1) by (auto simp: starts_def)
  have to: "board_of d' = (board_of d)\<lparr>bd_going := bd_going (board_of d) + mset rs\<rparr>"
    using rs(1) same by (simp add: board_of_def)
  show ?thesis
  proof (cases "rs = []")
    case True
    then show ?thesis using to by (simp add: board_of_def)
  next
    case False
    then have "\<not> d_stopping d" using assms(3) rs(1) by auto
    moreover have "size (mset (d_threads d)) + length rs \<le> d_limit d"
      using False rs assms(2) by (simp add: counts_runs_def)
    ultimately show ?thesis using begins_all [of "board_of d" rs] to by simp
  qed
qed

text \<open>The parts of a turn.\<close>

lemma pass_begins:
  assumes "counts_runs d"
  shows "begins\<^sup>*\<^sup>* (board_of d) (board_of (serve_pass out now d))"
  using starts_serve_pass assms
proof (rule starts_begins)
  assume "d_stopping d"
  then have "stopping_with (d_running d) d" using assms by (simp add: stopping_with_def counts_runs_def)
  moreover have "quiet d (rescan out now d)" by simp
  ultimately show "d_threads (serve_pass out now d) = d_threads d"
    by (simp add: serve_pass_def fire_due_def quiet_def stopping_with_def)
qed

lemma trigger_board:
  "board_of (fst (trigger out name now d)) = board_of d \<or>
   triggered (board_of d) (board_of (fst (trigger out name now d)))" if "counts_runs d"
proof (cases "fst (trigger out name now d) = d")
  case False
  then obtain i where room: "d_running d < d_limit d" and to: "fst (trigger out name now d) = start out i now d"
    and i: "i < length (d_jobs d)"
    using find_position_SomeD
    by (fastforce simp: trigger_def find_job_def split: option.splits if_splits)
  then obtain job where job: "get_at (d_jobs d) i = Some job" by (simp add: get_at_def)
  obtain r where "board_of (start out i now d) = (board_of d)\<lparr>bd_going := add_mset r (bd_going (board_of d))\<rparr>"
    using start_fields [OF job, of out now] by (simp add: board_of_def)
  moreover have "size (bd_going (board_of d)) < bd_limit (board_of d)" using room that by (simp add: counts_runs_def)
  ultimately show ?thesis using to by (simp add: triggered.simps) blast
qed simp

lemma begin_stopping_board: "board_of (fst (begin_stopping d)) = (board_of d)\<lparr>bd_stopping := True\<rparr>"
  by (simp add: begin_stopping_def board_of_def report_def Let_def)

lemma signal_board: "told (board_of d) (board_of (signal d))"
proof (cases "d_stopping d")
  case True
  then have "board_of (signal d) = (board_of d)\<lparr>bd_exiting := True\<rparr>"
    by (simp add: signal_def board_of_def report_def)
  then show ?thesis using told.intros(2) [of "board_of d"] True by simp
qed (simp add: signal_def begin_stopping_board told.intros)

lemma command_board:
  assumes "counts_runs d"
  shows "board_of (fst (command out pid req now d)) = board_of d \<or>
    triggered (board_of d) (board_of (fst (command out pid req now d))) \<or>
    told (board_of d) (board_of (fst (command out pid req now d)))"
proof (cases req)
  case (Trigger name)
  then show ?thesis using trigger_board [OF assms, of out name now] by (auto simp: command_def)
next
  case Stop
  then have "fst (command out pid req now d) = fst (begin_stopping d)"
    by (simp add: command_def split: prod.split)
  then show ?thesis by (simp add: begin_stopping_board told.intros)
next
  case Reload
  then have "fst (command out pid req now d) = fst (reload_all out now d)"
    by (simp add: command_def split: prod.split)
  then show ?thesis by (simp add: quiet_board [OF quiet_reload_all])
qed (simp_all add: command_def quiet_board [OF quiet_add_manifest] quiet_board [OF quiet_remove_manifest]
    quiet_board [OF quiet_hold])

lemma end_thread_board:
  assumes "k < length (d_threads d)"
  shows "ended (board_of d) (board_of (end_thread k d))"
proof -
  have "mset (d_threads (end_thread k d)) = mset (d_threads d) - {#d_threads d ! k#}"
    using assms id_take_nth_drop [OF assms]
    by (simp add: end_thread_def) (metis add_mset_add_single mset.simps(2) mset_append union_mset_add_mset_right
        add_mset_remove_trivial)
  then have "board_of (end_thread k d) =
      (board_of d)\<lparr>bd_going := bd_going (board_of d) - {#d_threads d ! k#}\<rparr>"
    by (simp add: board_of_def end_thread_def)
  then show ?thesis using ended.intros [of "d_threads d ! k" "board_of d"] assms by simp
qed

lemma finish_begins:
  assumes "counts_runs d" and "k < length (d_threads d)"
  shows "begins\<^sup>*\<^sup>* (board_of (end_thread k d)) (board_of (finish_thread out k outcome now d))"
proof -
  let ?d = "(end_thread k d)\<lparr>d_running := d_running (end_thread k d) - 1\<rparr>"
  let ?r = "finish_records out (run_id (d_threads d ! k)) outcome (end_thread k d)"
  have q: "quiet ?d ?r" by (rule quiet_finish_records)
  have "counts_runs ?d" using assms by (auto simp: counts_runs_def end_thread_def)
  then have "counts_runs ?r" using q quiet_counts_runs by blast
  moreover have "d_stopping ?r \<Longrightarrow> d_threads (start_queued out now ?r) = d_threads ?r"
    by (simp add: start_queued_def)
  ultimately have "begins\<^sup>*\<^sup>* (board_of ?r) (board_of (start_queued out now ?r))"
    using starts_begins [OF starts_start_queued] by blast
  moreover have "board_of ?r = board_of (end_thread k d)" using quiet_board [OF q] by (simp add: board_of_def)
  ultimately show ?thesis by (simp add: finish_thread_def finished_eq)
qed

lemma turn_board: "turn W d d' \<Longrightarrow> counts_runs d \<Longrightarrow> board_turn (board_of d) (board_of d')"
proof (induction rule: turn.induct)
  case (timeout d out now)
  then show ?case by (simp add: board_turn.passes pass_begins board_closed_of)
next
  case (command d out later pid req then_now now)
  let ?p = "serve_pass out now d"
  have "\<not> board_closed (board_of d)" "begins\<^sup>*\<^sup>* (board_of d) (board_of ?p)" "counts_runs ?p"
    using command by (simp_all add: board_closed_of pass_begins serve_pass_counts_runs)
  then show ?case using command_board [of ?p later pid req then_now] unfolding handle_def event.case
    by (metis board_turn.intros(1-3))
next
  case (signal d out later pid then_now now)
  then have "\<not> board_closed (board_of d)" "begins\<^sup>*\<^sup>* (board_of d) (board_of (serve_pass out now d))"
    by (simp_all add: board_closed_of pass_begins)
  then show ?case unfolding handle_def event.case by (rule board_turn.is_told) (rule signal_board)
next
  case (run_ends d out later k now outcome then_now)
  let ?p = "serve_pass out now d"
  have "\<not> board_closed (board_of d)" "begins\<^sup>*\<^sup>* (board_of d) (board_of ?p)" "counts_runs ?p"
    using run_ends by (simp_all add: board_closed_of pass_begins serve_pass_counts_runs)
  then show ?case using run_ends end_thread_board finish_begins by (blast intro: board_turn.ends_one)
qed

interpretation boards: refining "turn W" "\<lambda>d. counts_runs d" board_turn board_of for W
  by unfold_locales (auto dest: turn_counts_runs turn_board)

subsection \<open>From start to end\<close>

lemma take_event_turn:
  fixes d :: "'p daemon" and t :: "('p, 'z) loop_turn"
  assumes "\<not> stopped d"
  shows "turn (UNIV :: ('p, 'z) outside set) d (take_event pid t (serve_pass (lt_world t) (lt_now t) d))"
proof (cases "lt_event t")
  case (RunEnds k outcome)
  let ?p = "serve_pass (lt_world t) (lt_now t) d"
  show ?thesis
  proof (cases "d_threads ?p = []")
    case True
    then show ?thesis using RunEnds by (simp add: take_event_def turn.timeout [OF assms])
  next
    case False
    then show ?thesis using RunEnds by (simp add: take_event_def turn.run_ends [OF assms])
  qed
qed (simp_all add: take_event_def turn.timeout [OF assms] turn.command [OF assms] turn.signal [OF assms])

lemma serve_turns:
  fixes d :: "'p daemon" and ts :: "('p, 'z) loop_turn list"
  shows "(turn (UNIV :: ('p, 'z) outside set))\<^sup>*\<^sup>* d (serve pid ts d)"
proof (induction ts arbitrary: d)
  case (Cons t ts)
  show ?case
  proof (cases "stopped d")
    case False
    then show ?thesis
      using converse_rtranclp_into_rtranclp [OF take_event_turn [OF False, of pid t] Cons.IH] by simp
  qed simp
qed simp

lemma start_up_board:
  assumes "daemon_start_up sw started now dp limit keep files = Inr d"
  shows "counts_runs d \<and> board_of d = empty_board (run_limit limit)"
proof -
  obtain r s where "d = sweep sw (report ''Daemon''
      (started_message (Daemon_open sw dp (run_limit limit) keep started now r s))
      (Daemon_open sw dp (run_limit limit) keep started now r s))"
    using assms by (auto simp: daemon_start_up_def Let_def result_simps)
  then have q: "quiet (Daemon_open sw dp (run_limit limit) keep started now r s) d"
    by (simp add: quiet_trans [OF quiet_report quiet_sweep])
  have "counts_runs (Daemon_open sw dp (run_limit limit) keep started now r s)"
    by (simp add: counts_runs_def Daemon_open_fields)
  then show ?thesis using quiet_counts_runs [OF q] quiet_board [OF q]
    by (simp add: board_of_def empty_board_def Daemon_open_fields)
qed


definition demo_start_world :: "(string, unit) start_world" where
  "demo_start_world = client_world.extend demo_client
     (start_world.fields (Inr ()) (Inr ()) (Inr ()) (Inr ()) (Inr ()))"


end
