(* ===== verification/Daemon_Fires.thy ===== *)
theory Daemon_Fires
  imports Daemon_Safety
begin

text \<open>
  What a pass of the daemon does to its jobs: each branch of a fire, that no due fire is left and none
  is planned twice, that waiting fires start as soon as there is room, and that a job which does not
  run in parallel never has two runs while its manifest stays as it is.
\<close>

subsection \<open>What each handler does to the jobs\<close>

lemma jobs_report [simp]: "d_jobs (report v m d) = d_jobs d"
  by (simp add: report_def)

lemma jobs_write_states [simp]: "d_jobs (write_states out d) = d_jobs d"
  by (simp add: write_states_def split: sum.splits)

lemma jobs_save_state [simp]: "d_jobs (save_state out i d) = d_jobs d"
  by (simp add: save_state_def split: option.splits)

lemma jobs_sweep [simp]: "d_jobs (sweep out d) = d_jobs d"
  by (simp add: sweep_def split: sum.splits)

lemma jobs_finished_message [simp]: "d_jobs (finished_message name outcome d) = d_jobs d"
  by (simp add: finished_message_def split: option.splits)

lemma jobs_update_job: "i < length (d_jobs d) \<Longrightarrow> d_jobs (update_job i f d) = (d_jobs d)[i := f (d_jobs d ! i)]"
  by (simp add: update_job_def)

lemma jobs_plan_job:
  "i < length (d_jobs d) \<Longrightarrow>
     d_jobs (plan_job out i now allow d) = (d_jobs d)[i := fst (plan (o_calendar out) (d_jobs d ! i) now allow)]"
  by (simp add: plan_job_def Let_def split: prod.splits option.splits planned.splits)

lemma jobs_queue_fire:
  "i < length (d_jobs d) \<Longrightarrow>
     d_jobs (queue_fire i reason d) = (d_jobs d)[i := (d_jobs d ! i)\<lparr>j_queued := True\<rparr>]"
proof (cases "j_queued (d_jobs d ! i)")
  case True
  then have "(d_jobs d ! i)\<lparr>j_queued := True\<rparr> = d_jobs d ! i" by (cases "d_jobs d ! i") simp
  then have "(d_jobs d)[i := (d_jobs d ! i)\<lparr>j_queued := True\<rparr>] = d_jobs d" by simp
  then show "d_jobs (queue_fire i reason d) = (d_jobs d)[i := (d_jobs d ! i)\<lparr>j_queued := True\<rparr>]"
    if "i < length (d_jobs d)"
    using that True by (simp add: queue_fire_def)
qed (simp add: queue_fire_def)

lemma jobs_start:
  "i < length (d_jobs d) \<Longrightarrow>
     d_jobs (start out i t d) = (d_jobs d)[i := (d_jobs d ! i)\<lparr>j_running := True, j_queued := False\<rparr>]"
  by (simp add: start_fields(2))

text \<open>Planning changes only the planned fire.\<close>

lemma plan_job_fields [simp]:
  "j_id (fst (plan cal job now allow)) = j_id job"
  "j_manifest (fst (plan cal job now allow)) = j_manifest job"
  "j_schedule (fst (plan cal job now allow)) = j_schedule job"
  "j_error (fst (plan cal job now allow)) = j_error job"
  "j_running (fst (plan cal job now allow)) = j_running job"
  "j_queued (fst (plan cal job now allow)) = j_queued job"
  "j_state (fst (plan cal job now allow)) = j_state job"
  by (simp_all add: plan_def Let_def split: option.splits)

lemma plan_later:
  assumes law: "finds_first_match cal matches"
    and planned: "j_next_fire (fst (plan cal job now False)) = Some t"
  shows "now < t \<and> job_ready job"
proof -
  have later: "next_after cal s u = Some v \<Longrightarrow> u < v" for s u v
    by (rule firing.next_later [OF schedule_firing [OF law]])
  show ?thesis
    using planned later
    by (auto simp: plan_def Let_def job_ready_def enabled_def split: option.splits if_splits)
qed

lemma plan_not_due: "finds_first_match cal matches \<Longrightarrow> \<not> due now (fst (plan cal job now False))"
  using plan_later by (fastforce simp: due_def split: option.splits)

subsection \<open>Each branch of a fire\<close>

definition fire_time :: "instant \<Rightarrow> 'p job \<Rightarrow> instant" where
  "fire_time now job = (case j_next_fire job of Some t \<Rightarrow> t | None \<Rightarrow> now)"

definition overlap_of :: "'p job \<Rightarrow> overlap" where
  "overlap_of job = (case j_schedule job of Some s \<Rightarrow> js_on_overlap s | None \<Rightarrow> Skip)"

text \<open>The job after a fire: it starts, it waits, or the fire is dropped.\<close>

definition fired :: "'p daemon \<Rightarrow> instant \<Rightarrow> 'p job \<Rightarrow> 'p job" where
  "fired d now job =
     (let job = set_last_fire (fire_time now job) job in
      if d_running d < d_limit d \<and> (\<not> j_running job \<or> overlap_of job = Parallel)
      then job\<lparr>j_running := True, j_queued := False\<rparr>
      else if d_limit d \<le> d_running d \<or> overlap_of job = Queue then job\<lparr>j_queued := True\<rparr>
      else job)"

definition run_of :: "'p daemon \<Rightarrow> instant \<Rightarrow> 'p job \<Rightarrow> job_run" where
  "run_of d t job =
     \<lparr>run_id = j_id job, run_manifest = j_manifest job, run_working_directory = j_working_directory job,
      run_log_directory = dp_root (d_paths d), run_fire = t\<rparr>"

lemma action_for_cases:
  "action_for d job =
     (if d_running d < d_limit d \<and> (\<not> j_running job \<or> overlap_of job = Parallel) then StartAction
      else if d_limit d \<le> d_running d then QueueAction ''the daemon is at its run limit''
      else if overlap_of job = Queue then QueueAction ''its last run has not ended''
      else SkipAction)"
  by (cases "overlap_of job") (auto simp: action_for_def overlap_of_def)

lemma update_job_frame:
  "d_running (update_job i f d) = d_running d" "d_limit (update_job i f d) = d_limit d"
  "d_threads (update_job i f d) = d_threads d" "d_paths (update_job i f d) = d_paths d"
  by (simp_all add: update_job_def split: option.splits)

lemma fire_cases:
  assumes "i < length (d_jobs d)"
  shows "d_jobs (fire out i now d) =
           (d_jobs d)[i := fst (plan (o_calendar out) (fired d now (d_jobs d ! i)) now False)]"
    and "d_threads (fire out i now d) = d_threads d @
           (if d_running d < d_limit d \<and> (\<not> j_running (d_jobs d ! i) \<or> overlap_of (d_jobs d ! i) = Parallel)
            then [run_of d (fire_time now (d_jobs d ! i)) (d_jobs d ! i)] else [])"
proof -
  let ?job = "d_jobs d ! i"
  let ?t = "fire_time now ?job"
  let ?d1 = "update_job i (set_last_fire ?t) d"
  let ?d2 = "fire_effect out i (j_id ?job) ?t (action_for d ?job) ?d1"
  have fire: "fire out i now d = plan_job out i now False (save_state out i ?d2)"
    using assms by (simp add: fire_def Let_def fire_time_def)
  have j1: "d_jobs ?d1 = (d_jobs d)[i := set_last_fire ?t ?job]"
    using assms by (simp add: jobs_update_job)
  have same: "overlap_of (set_last_fire ?t ?job) = overlap_of ?job"
    "j_running (set_last_fire ?t ?job) = j_running ?job"
    by (simp_all add: overlap_of_def set_last_fire_def)
  have j2: "d_jobs ?d2 = (d_jobs d)[i := fired d now ?job]"
    using assms j1 same
    by (auto simp: action_for_cases fire_effect_def jobs_start jobs_queue_fire fired_def Let_def)
  then show "d_jobs (fire out i now d) =
           (d_jobs d)[i := fst (plan (o_calendar out) (fired d now ?job) now False)]"
    using assms by (simp add: fire jobs_plan_job)
  have at: "get_at (d_jobs ?d1) i = Some (set_last_fire ?t ?job)" using assms j1 by simp
  have run: "run_of d ?t ?job =
      \<lparr>run_id = j_id (set_last_fire ?t ?job), run_manifest = j_manifest (set_last_fire ?t ?job),
       run_working_directory = j_working_directory (set_last_fire ?t ?job),
       run_log_directory = dp_root (d_paths ?d1), run_fire = ?t\<rparr>"
    by (simp add: run_of_def set_last_fire_def update_job_frame)
  have "d_threads ?d2 = d_threads d @
      (if d_running d < d_limit d \<and> (\<not> j_running ?job \<or> overlap_of ?job = Parallel)
       then [run_of d ?t ?job] else [])"
  proof (cases "d_running d < d_limit d \<and> (\<not> j_running ?job \<or> overlap_of ?job = Parallel)")
    case True
    then show ?thesis
      using start_fields(1) [OF at] by (simp add: action_for_cases fire_effect_def run update_job_frame)
  next
    case False
    have "quiet ?d1 ?d2" using False by (auto simp: action_for_cases fire_effect_def)
    with False show ?thesis by (simp add: quiet_def update_job_frame)
  qed
  moreover have "quiet ?d2 (fire out i now d)"
    unfolding fire by (rule quiet_trans [OF quiet_save_state quiet_plan_job])
  ultimately show "d_threads (fire out i now d) = d_threads d @
           (if d_running d < d_limit d \<and> (\<not> j_running ?job \<or> overlap_of ?job = Parallel)
            then [run_of d ?t ?job] else [])"
    by (simp add: quiet_def)
qed

text \<open>C16. A due fire starts a run when there is room and the job is idle or runs in parallel; it waits when
  the limit is reached, whatever the overlap policy, or when the job queues; it is dropped otherwise.
  In each case the fire is the job's last one, and no other job changes.\<close>

theorem fire_follows_policy:
  assumes "i < length (d_jobs d)" and "j_next_fire (d_jobs d ! i) = Some t"
  shows "let job = d_jobs d ! i;
      job' = d_jobs (fire out i now d) ! i;
      starts_now = (d_running d < d_limit d \<and> (\<not> j_running job \<or> overlap_of job = Parallel));
      waits = (d_limit d \<le> d_running d \<or> j_running job \<and> overlap_of job = Queue)
    in d_threads (fire out i now d) = d_threads d @ (if starts_now then [run_of d t job] else []) \<and>
      j_running job' = (starts_now \<or> j_running job) \<and>
      j_queued job' = (if starts_now then False else waits \<or> j_queued job) \<and>
      st_last_fire (j_state job') = Some t \<and>
      d_jobs (fire out i now d) = (d_jobs d)[i := job']"
proof -
  let ?job = "d_jobs d ! i" and ?job' = "d_jobs (fire out i now d) ! i"
  have t: "fire_time now ?job = t" using assms(2) by (simp add: fire_time_def)
  have jobs: "d_jobs (fire out i now d) = (d_jobs d)[i := fst (plan (o_calendar out) (fired d now ?job) now False)]"
    by (rule fire_cases(1) [OF assms(1)])
  then have job': "?job' = fst (plan (o_calendar out) (fired d now ?job) now False)"
    using assms(1) by simp
  have same: "overlap_of (set_last_fire t ?job) = overlap_of ?job"
    "j_running (set_last_fire t ?job) = j_running ?job" "j_queued (set_last_fire t ?job) = j_queued ?job"
    "st_last_fire (j_state (set_last_fire t ?job)) = Some t"
    by (simp_all add: overlap_of_def set_last_fire_def)
  show ?thesis
    unfolding Let_def fire_cases(2) [OF assms(1)] t job' using same jobs
    by (auto simp: fired_def Let_def t)
qed

theorem fire_follows_policy_witness:
  "length (d_threads (fire demo_outside 0 12 (demo_daemon\<lparr>d_jobs := [demo_job\<lparr>j_next_fire := Some 10\<rparr>]\<rparr>))) = 1"
proof -
  let ?d = "demo_daemon\<lparr>d_jobs := [demo_job\<lparr>j_next_fire := Some 10\<rparr>]\<rparr>"
  have "d_threads ?d = []" "d_running ?d = 0" "d_limit ?d = 1" "\<not> j_running demo_job"
    by (simp_all add: demo_daemon_def Daemon_open_fields run_limit_def demo_job_def)
  then show ?thesis
    using fire_follows_policy [of 0 ?d 10 demo_outside 12] by (simp add: Let_def)
qed

subsection \<open>No due fire is left\<close>

lemma length_fire: "length (d_jobs (fire out i now d)) = length (d_jobs d)"
proof (cases "i < length (d_jobs d)")
  case True
  then show ?thesis by (simp add: fire_cases(1) [OF True])
qed (simp add: fire_def get_at_def)

lemma fire_each:
  assumes law: "finds_first_match (o_calendar out) matches"
    and "distinct is" and "\<forall>i\<in>set is. i < length (d_jobs d)"
  shows "length (d_jobs (foldl (\<lambda>d i. fire out i now d) d is)) = length (d_jobs d) \<and>
    (\<forall>k<length (d_jobs d). if k \<in> set is then \<not> due now (d_jobs (foldl (\<lambda>d i. fire out i now d) d is) ! k)
      else d_jobs (foldl (\<lambda>d i. fire out i now d) d is) ! k = d_jobs d ! k)"
  using assms(2,3)
proof (induction "is" rule: rev_induct)
  case (snoc i js)
  let ?e = "foldl (\<lambda>d i. fire out i now d) d js"
  have IH: "length (d_jobs ?e) = length (d_jobs d)"
    "\<forall>k<length (d_jobs d). if k \<in> set js then \<not> due now (d_jobs ?e ! k) else d_jobs ?e ! k = d_jobs d ! k"
    using snoc by auto
  have i: "i < length (d_jobs ?e)" "i \<notin> set js" using snoc.prems IH(1) by auto
  have "\<not> due now (d_jobs (fire out i now ?e) ! i)"
    using i plan_not_due [OF law] by (simp add: fire_cases(1))
  moreover have "d_jobs (fire out i now ?e) ! k = d_jobs ?e ! k" if "k \<noteq> i" for k
    using that i by (simp add: fire_cases(1))
  ultimately have "if k \<in> set (js @ [i]) then \<not> due now (d_jobs (fire out i now ?e) ! k)
      else d_jobs (fire out i now ?e) ! k = d_jobs d ! k" if "k < length (d_jobs d)" for k
    using IH(2) that by (cases "k = i") auto
  then show ?case using IH(1) by (simp add: length_fire)
qed simp

text \<open>After a pass no job is due any more: each due fire is started, queued or dropped once, and the
  next one is planned strictly later.\<close>

theorem no_due_fire_left:
  assumes "finds_first_match (o_calendar out) matches" and "\<not> d_stopping d"
  shows "list_all (\<lambda>job. \<not> due now job) (d_jobs (fire_due out now d))"
proof -
  let ?is = "filter (\<lambda>i. due now (d_jobs d ! i)) [0..<length (d_jobs d)]"
  have pass: "fire_due out now d = foldl (\<lambda>d i. fire out i now d) d ?is"
    using assms(2) by (simp add: fire_due_def)
  have "distinct ?is" "\<forall>i\<in>set ?is. i < length (d_jobs d)" by simp_all
  from fire_each [OF assms(1) this, of now, folded pass]
  have each: "length (d_jobs (fire_due out now d)) = length (d_jobs d)"
    "\<forall>k<length (d_jobs d). if k \<in> set ?is then \<not> due now (d_jobs (fire_due out now d) ! k)
       else d_jobs (fire_due out now d) ! k = d_jobs d ! k"
    by blast+
  have "\<not> due now (d_jobs (fire_due out now d) ! k)" if "k < length (d_jobs d)" for k
    using each(2) that by (cases "due now (d_jobs d ! k)") auto
  with each(1) show ?thesis by (simp add: list_all_length)
qed

theorem no_due_fire_left_witness:
  "list_all (\<lambda>job. \<not> due 12 job) (d_jobs (fire_due demo_outside 12 demo_daemon))"
proof (rule no_due_fire_left)
  show "finds_first_match (o_calendar demo_outside) (\<lambda>p z t. 10 dvd t)"
    by (simp add: demo_outside_def demo_finds_first_match)
  show "\<not> d_stopping demo_daemon" by (simp add: demo_daemon_def Daemon_open_fields)
qed

subsection \<open>Waiting fires\<close>

lemma start_waiting_full:
  "d_limit d \<le> d_running (start_waiting out now d) \<or>
   (\<forall>job\<in>set (d_jobs (start_waiting out now d)). \<not> startable job)"
proof (induction out now d rule: start_waiting.induct)
  case (1 out now d)
  show ?case
  proof (cases "find_position startable (d_jobs d)")
    case None
    then have "start_waiting out now d = d"
      by (simp add: start_waiting.simps [of out now d] del: find_position_None_iff)
    with None show ?thesis by simp
  next
    case (Some i)
    show ?thesis
    proof (cases "d_running d < d_limit d")
      case True
      with 1 [OF True Some] Some show ?thesis by (simp add: start_waiting.simps [of out now d])
    qed (simp add: start_waiting.simps [of out now d])
  qed
qed

text \<open>C17. When a run ends and the daemon is not stopping, either it runs as many as it may again, or no job
  is left that waits, may fire and is idle: no waiting fire is kept back while there is room.\<close>

theorem no_room_is_wasted:
  assumes "\<not> d_stopping d"
  shows "d_limit d \<le> d_running (finished out name outcome now d) \<or>
    list_all (\<lambda>job. \<not> startable job) (d_jobs (finished out name outcome now d))"
proof -
  have "\<not> d_stopping (finish_records out name outcome d)" "d_limit (finish_records out name outcome d) = d_limit d"
    using quiet_finish_records [of d out name outcome] assms by (auto simp: quiet_def)
  then show ?thesis
    using start_waiting_full [of "finish_records out name outcome d" out now]
    by (simp add: finished_eq start_queued_def list_all_iff)
qed


theorem no_room_is_wasted_witness:
  "d_limit demo_daemon \<le> d_running (finished demo_outside ''f'' \<lparr>ro_directory = None, ro_status = Some 0,
     ro_summary = [], ro_error = None\<rparr> 12 demo_daemon) \<or>
   list_all (\<lambda>job. \<not> startable job) (d_jobs (finished demo_outside ''f'' \<lparr>ro_directory = None,
     ro_status = Some 0, ro_summary = [], ro_error = None\<rparr> 12 demo_daemon))"
  by (rule no_room_is_wasted) (simp add: demo_daemon_def Daemon_open_fields)


subsection \<open>One run per job\<close>

definition run_count :: "'p daemon \<Rightarrow> string \<Rightarrow> nat" where
  "run_count d i = length (filter (\<lambda>r. run_id r = i) (d_threads d))"

definition runs_parallel :: "'p job \<Rightarrow> bool" where
  "runs_parallel job \<longleftrightarrow> overlap_of job = Parallel"

text \<open>The IDs are distinct, and a job that is not parallel has one run while it is marked running, and
  none otherwise.\<close>

definition single_runs :: "'p daemon \<Rightarrow> bool" where
  "single_runs d \<longleftrightarrow> distinct (map j_id (d_jobs d)) \<and>
     (\<forall>job\<in>set (d_jobs d). \<not> runs_parallel job \<longrightarrow>
       run_count d (j_id job) = (if j_running job then 1 else 0))"

text \<open>What \<open>single_runs\<close> looks at.\<close>

definition run_view :: "'p job \<Rightarrow> string \<times> bool \<times> bool" where
  "run_view job = (j_id job, runs_parallel job, j_running job)"

definition same_view :: "'p daemon \<Rightarrow> 'p daemon \<Rightarrow> bool" where
  "same_view d d' \<longleftrightarrow> d_threads d' = d_threads d \<and> map run_view (d_jobs d') = map run_view (d_jobs d)"

lemma single_runs_view:
  "single_runs d \<longleftrightarrow> distinct (map fst (map run_view (d_jobs d))) \<and>
     (\<forall>(i, p, r)\<in>set (map run_view (d_jobs d)). \<not> p \<longrightarrow> run_count d i = (if r then 1 else 0))"
proof -
  have ids: "map fst (map run_view (d_jobs d)) = map j_id (d_jobs d)" by (simp add: run_view_def)
  show ?thesis unfolding single_runs_def ids by (simp add: run_view_def)
qed

lemma same_view_single: "same_view d d' \<Longrightarrow> single_runs d \<Longrightarrow> single_runs d'"
proof -
  assume view: "same_view d d'" and "single_runs d"
  then have "map run_view (d_jobs d') = map run_view (d_jobs d)" "run_count d' = run_count d"
    by (simp_all add: same_view_def run_count_def fun_eq_iff)
  with \<open>single_runs d\<close> show ?thesis unfolding single_runs_view by simp
qed

lemma same_view_refl [simp]: "same_view d d"
  by (simp add: same_view_def)

lemma same_view_trans [trans]: "same_view d e \<Longrightarrow> same_view e f \<Longrightarrow> same_view d f"
  by (simp add: same_view_def)

lemma map_list_update_same: "i < length xs \<Longrightarrow> f x = f (xs ! i) \<Longrightarrow> map f (xs[i := x]) = map f xs"
  by (metis list_update_id map_update)

lemma view_plan: "run_view (fst (plan cal job now allow)) = run_view job"
  by (simp add: run_view_def runs_parallel_def overlap_of_def)

lemma same_view_jobs: "quiet d d' \<Longrightarrow> d_jobs d' = d_jobs d \<Longrightarrow> same_view d d'"
  by (simp add: same_view_def quiet_def)

lemma same_view_plan_job [simp]: "same_view d (plan_job out i now allow d)"
proof (cases "i < length (d_jobs d)")
  case True
  then show ?thesis
    using quiet_plan_job [of d out i now allow]
    by (simp add: same_view_def quiet_def jobs_plan_job map_list_update_same view_plan)
qed (simp add: plan_job_def get_at_def)

lemma same_view_update_job:
  "(\<And>job. run_view (f job) = run_view job) \<Longrightarrow> same_view d (update_job i f d)"
  by (cases "i < length (d_jobs d)")
    (simp_all add: same_view_def jobs_update_job map_list_update_same update_job_frame update_job_def get_at_def)

lemma same_view_save_state [simp]: "same_view d (save_state out i d)"
  by (rule same_view_jobs) simp_all

lemma same_view_report [simp]: "same_view d (report v m d)"
  by (rule same_view_jobs) simp_all

lemma same_view_queue_fire [simp]: "same_view d (queue_fire i reason d)"
proof (cases "i < length (d_jobs d)")
  case True
  have "run_view (job\<lparr>j_queued := True\<rparr>) = run_view job" for job :: "'a job"
    by (simp add: run_view_def runs_parallel_def overlap_of_def)
  with True have "map run_view (d_jobs (queue_fire i reason d)) = map run_view (d_jobs d)"
    by (simp add: jobs_queue_fire map_list_update_same)
  then show ?thesis using quiet_queue_fire [of d i reason] by (simp add: same_view_def quiet_def)
qed (simp add: queue_fire_def get_at_def)

lemma run_count_start:
  assumes "i < length (d_jobs d)"
  shows "run_count (start out i t d) n = run_count d n + (if n = j_id (d_jobs d ! i) then 1 else 0)"
  using assms start_fields(1) [of d i "d_jobs d ! i" out t] by (simp add: run_count_def)

lemma distinct_ids_nth:
  "distinct (map j_id js) \<Longrightarrow> i < length js \<Longrightarrow> k < length js \<Longrightarrow> j_id (js ! k) = j_id (js ! i) \<Longrightarrow> k = i"
  by (metis distinct_conv_nth length_map nth_map)

lemma single_runs_nth:
  "single_runs d \<longleftrightarrow> distinct (map j_id (d_jobs d)) \<and>
     (\<forall>k<length (d_jobs d). runs_parallel (d_jobs d ! k) \<or>
       run_count d (j_id (d_jobs d ! k)) = (if j_running (d_jobs d ! k) then 1 else 0))"
  unfolding single_runs_def all_set_conv_all_nth by blast

lemma start_single:
  assumes single: "single_runs d"
    and idle: "i < length (d_jobs d) \<Longrightarrow> \<not> j_running (d_jobs d ! i) \<or> runs_parallel (d_jobs d ! i)"
  shows "single_runs (start out i t d)"
proof (cases "i < length (d_jobs d)")
  case True
  let ?job = "d_jobs d ! i"
  have jobs: "d_jobs (start out i t d) = (d_jobs d)[i := ?job\<lparr>j_running := True, j_queued := False\<rparr>]"
    by (rule jobs_start [OF True])
  have ids: "map j_id (d_jobs (start out i t d)) = map j_id (d_jobs d)"
    unfolding jobs using True by (intro map_list_update_same) simp_all
  have par: "runs_parallel (?job\<lparr>j_running := True, j_queued := False\<rparr>) = runs_parallel ?job"
    by (simp add: runs_parallel_def overlap_of_def)
  have "runs_parallel (d_jobs (start out i t d) ! k) \<or>
      run_count (start out i t d) (j_id (d_jobs (start out i t d) ! k)) =
        (if j_running (d_jobs (start out i t d) ! k) then 1 else 0)"
    if k: "k < length (d_jobs d)" for k
  proof (cases "k = i")
    case True
    with single idle k show ?thesis
      by (auto simp: jobs par run_count_start single_runs_nth)
  next
    case False
    then have "j_id (d_jobs d ! k) \<noteq> j_id ?job"
      using single True k distinct_ids_nth by (metis single_runs_def)
    with False single k True show ?thesis by (auto simp: jobs run_count_start single_runs_nth)
  qed
  then show ?thesis using single ids by (simp add: single_runs_nth jobs)
next
  case False
  with single show ?thesis by (simp add: start_absent get_at_def)
qed

lemma fire_single:
  assumes "single_runs d"
  shows "single_runs (fire out i now d)"
proof (cases "i < length (d_jobs d)")
  case True
  let ?job = "d_jobs d ! i"
  let ?d1 = "update_job i (set_last_fire (fire_time now ?job)) d"
  let ?d2 = "fire_effect out i (j_id ?job) (fire_time now ?job) (action_for d ?job) ?d1"
  have view: "same_view d ?d1"
    by (rule same_view_update_job) (simp add: run_view_def runs_parallel_def overlap_of_def set_last_fire_def)
  then have s1: "single_runs ?d1" using assms by (rule same_view_single)
  have job1: "d_jobs ?d1 ! i = set_last_fire (fire_time now ?job) ?job"
    using True by (simp add: jobs_update_job)
  have "single_runs ?d2"
  proof (cases "action_for d ?job")
    case StartAction
    then have "\<not> j_running ?job \<or> overlap_of ?job = Parallel" by (auto simp: action_for_cases split: if_splits)
    then have "\<not> j_running (d_jobs ?d1 ! i) \<or> runs_parallel (d_jobs ?d1 ! i)"
      by (simp add: job1 runs_parallel_def overlap_of_def set_last_fire_def)
    with s1 StartAction show ?thesis by (simp add: fire_effect_def start_single)
  next
    case (QueueAction reason)
    with same_view_single [OF same_view_queue_fire s1] show ?thesis by (simp add: fire_effect_def)
  next
    case SkipAction
    with same_view_single [OF same_view_report s1] show ?thesis by (simp add: fire_effect_def)
  qed
  moreover have "same_view ?d2 (plan_job out i now False (save_state out i ?d2))"
    by (rule same_view_trans [OF same_view_save_state same_view_plan_job])
  ultimately have "single_runs (plan_job out i now False (save_state out i ?d2))"
    by (rule same_view_single [rotated])
  then show ?thesis using True by (simp add: fire_def Let_def fire_time_def)
qed (use assms in \<open>simp add: fire_def get_at_def\<close>)

lemma foldl_invariant: "(\<And>d x. P d \<Longrightarrow> P (f d x)) \<Longrightarrow> P d \<Longrightarrow> P (foldl f d xs)"
  by (induction xs arbitrary: d) auto

lemma fire_due_single: "single_runs d \<Longrightarrow> single_runs (fire_due out now d)"
  unfolding fire_due_def by (auto intro: foldl_invariant fire_single)

lemma start_waiting_single: "single_runs d \<Longrightarrow> single_runs (start_waiting out now d)"
proof (induction out now d rule: start_waiting.induct)
  case (1 out now d)
  show ?case
  proof (cases "d_running d < d_limit d \<and> (\<exists>i. find_position startable (d_jobs d) = Some i)")
    case True
    then obtain i where i: "find_position startable (d_jobs d) = Some i" by blast
    let ?t = "case st_last_fire (j_state (d_jobs d ! i)) of Some t \<Rightarrow> t | None \<Rightarrow> now"
    have "\<not> j_running (d_jobs d ! i)" using i by (simp add: find_position_Some_iff startable_def)
    then have "single_runs (start out i ?t d)" using 1 by (intro start_single) auto
    with 1 True i show ?thesis by (simp add: start_waiting.simps [of out now d])
  next
    case False
    then have "start_waiting out now d = d"
      by (cases "find_position startable (d_jobs d)")
        (simp_all add: start_waiting.simps [of out now d] del: find_position_None_iff)
    with 1 show ?thesis by simp
  qed
qed


lemma run_count_end_thread:
  assumes "k < length (d_threads d)"
  shows "run_count d n = run_count (end_thread k d) n + (if run_id (d_threads d ! k) = n then 1 else 0)"
proof -
  have "d_threads d = take k (d_threads d) @ d_threads d ! k # drop (Suc k) (d_threads d)"
    using assms by (rule id_take_nth_drop)
  then have "length (filter (\<lambda>r. run_id r = n) (d_threads d)) =
      length (filter (\<lambda>r. run_id r = n) (take k (d_threads d) @ d_threads d ! k # drop (Suc k) (d_threads d)))"
    by simp
  then show ?thesis by (simp add: run_count_def end_thread_def)
qed

lemma finish_records_jobs:
  "d_jobs (finish_records out name outcome d) =
     (case find_job name d of
        None \<Rightarrow> d_jobs d
      | Some i \<Rightarrow> (d_jobs d)[i := end_run outcome (d_jobs d ! i)])"
proof -
  let ?d = "finished_message name outcome (d\<lparr>d_running := d_running d - 1\<rparr>)"
  have "find_job name ?d = find_job name d" by (simp add: find_job_def)
  moreover have "i < length (d_jobs d)" if "find_job name d = Some i" for i
    using that by (simp add: find_job_def find_position_Some_iff)
  ultimately show ?thesis
    by (cases "find_job name d") (simp_all add: finish_records_def Let_def jobs_update_job)
qed

lemma finish_records_single:
  assumes single: "single_runs d" and k: "k < length (d_threads d)"
  shows "single_runs (finish_records out (run_id (d_threads d ! k)) outcome (end_thread k d))"
proof -
  let ?name = "run_id (d_threads d ! k)"
  let ?e = "end_thread k d" and ?f = "finish_records out ?name outcome (end_thread k d)"
  have jobs: "d_jobs ?e = d_jobs d" by (simp add: end_thread_def)
  have count: "run_count ?f n = run_count ?e n" for n
    using quiet_finish_records [of ?e out ?name outcome] by (simp add: quiet_def run_count_def)
  note ended = run_count_end_thread [OF k]
  show ?thesis
  proof (cases "find_job ?name ?e")
    case None
    then have "\<forall>job\<in>set (d_jobs d). j_id job \<noteq> ?name" by (simp add: find_job_def jobs)
    moreover from None have "d_jobs ?f = d_jobs d" by (simp add: finish_records_jobs jobs)
    moreover have "run_count ?e n = run_count d n" if "n \<noteq> ?name" for n
      using ended [of n] that by simp
    ultimately show ?thesis using single by (simp add: single_runs_def count)
  next
    case (Some i)
    then have i: "i < length (d_jobs d)" "j_id (d_jobs d ! i) = ?name"
      by (auto simp: find_job_def jobs find_position_Some_iff)
    have fj: "d_jobs ?f = (d_jobs d)[i := end_run outcome (d_jobs d ! i)]"
      using Some by (simp add: finish_records_jobs jobs)
    have ids: "map j_id (d_jobs ?f) = map j_id (d_jobs d)"
      unfolding fj using i by (intro map_list_update_same) (simp_all add: end_run_def)
    have same: "runs_parallel (end_run outcome job) = runs_parallel job"
      "j_id (end_run outcome job) = j_id job" "\<not> j_running (end_run outcome job)" for job
      by (simp_all add: runs_parallel_def overlap_of_def end_run_def)
    have "runs_parallel (d_jobs ?f ! n) \<or>
        run_count ?f (j_id (d_jobs ?f ! n)) = (if j_running (d_jobs ?f ! n) then 1 else 0)"
      if n: "n < length (d_jobs d)" for n
    proof (cases "n = i")
      case True
      have "runs_parallel (d_jobs d ! i) \<or> run_count d ?name \<le> 1"
        using single i by (auto simp: single_runs_nth split: if_splits)
      with True i show ?thesis using ended [of ?name] by (auto simp: fj same count)
    next
      case False
      then have "j_id (d_jobs d ! n) \<noteq> ?name"
        using single i n distinct_ids_nth by (metis single_runs_def)
      with False single n show ?thesis using ended [of "j_id (d_jobs d ! n)"]
        by (auto simp: fj count single_runs_nth)
    qed
    with single ids show ?thesis by (simp add: single_runs_nth fj)
  qed
qed

lemma finish_thread_single:
  "single_runs d \<Longrightarrow> k < length (d_threads d) \<Longrightarrow> single_runs (finish_thread out k outcome now d)"
  by (simp add: finish_thread_def finished_eq start_queued_def finish_records_single start_waiting_single)

lemma hold_single: "single_runs d \<Longrightarrow> single_runs (fst (hold out name paused now d))"
proof (cases "find_job name d")
  case (Some i)
  assume "single_runs d"
  let ?d1 = "update_job i (\<lambda>job. job\<lparr>j_state := (j_state job)\<lparr>st_paused := paused\<rparr>\<rparr>) d"
  have "same_view d ?d1"
    by (rule same_view_update_job) (simp add: run_view_def runs_parallel_def overlap_of_def)
  also have "same_view ?d1 (save_state out i ?d1)" by simp
  also have "same_view \<dots> (plan_job out i now False (save_state out i ?d1))" by simp
  also have "same_view \<dots> (report ''Job'' (held name paused) (plan_job out i now False (save_state out i ?d1)))"
    by simp
  finally show ?thesis using \<open>single_runs d\<close> Some
    by (simp add: hold_def Let_def same_view_single)
qed (simp add: hold_def)

lemma trigger_single: "single_runs d \<Longrightarrow> single_runs (fst (trigger out name now d))"
proof (cases "find_job name d")
  case (Some i)
  assume "single_runs d"
  with Some show ?thesis
    by (auto simp: trigger_def intro: start_single split: option.splits)
qed (simp add: trigger_def)

lemma stopping_single:
  "single_runs d \<Longrightarrow> single_runs (fst (begin_stopping d))" "single_runs d \<Longrightarrow> single_runs (signal d)"
  by (simp_all add: begin_stopping_def signal_def report_def Let_def single_runs_def run_count_def)

text \<open>
  A turn in which no watched file changed and no command changes the set of jobs.
\<close>

definition settled :: "('p, 'z) outside \<Rightarrow> 'p daemon \<Rightarrow> bool" where
  "settled out d \<longleftrightarrow>
     list_all (\<lambda>e. o_modified out (w_path (wm_watched e)) = wm_modified e) (d_manifests d)"

definition keeps_jobs :: "request \<Rightarrow> bool" where
  "keeps_jobs req = (case req of Add m w \<Rightarrow> False | Remove m \<Rightarrow> False | Reload \<Rightarrow> False | _ \<Rightarrow> True)"

inductive steady_turn :: "('p, 'z) outside set \<Rightarrow> 'p daemon \<Rightarrow> 'p daemon \<Rightarrow> bool" for W where
  steady_timeout: "out \<in> W \<Longrightarrow> settled out d \<Longrightarrow> steady_turn W d (serve_pass out now d)"
| steady_command: "out \<in> W \<Longrightarrow> settled out d \<Longrightarrow> later \<in> W \<Longrightarrow> keeps_jobs req \<Longrightarrow>
    steady_turn W d (handle later pid (Command req) then_now (serve_pass out now d))"
| steady_signal: "out \<in> W \<Longrightarrow> settled out d \<Longrightarrow> later \<in> W \<Longrightarrow>
    steady_turn W d (handle later pid Signal then_now (serve_pass out now d))"
| steady_end: "out \<in> W \<Longrightarrow> settled out d \<Longrightarrow> later \<in> W \<Longrightarrow>
    k < length (d_threads (serve_pass out now d)) \<Longrightarrow>
    steady_turn W d (finish_thread later k outcome then_now (serve_pass out now d))"

lemma rescan_settled: "settled out d \<Longrightarrow> rescan out now d = d"
  by (auto simp: rescan_def settled_def list_all_iff filter_empty_conv)

lemma serve_pass_single: "settled out d \<Longrightarrow> single_runs d \<Longrightarrow> single_runs (serve_pass out now d)"
  by (simp add: serve_pass_def rescan_settled fire_due_single)

lemma command_single:
  "keeps_jobs req \<Longrightarrow> single_runs d \<Longrightarrow> single_runs (fst (command out pid req now d))"
proof (cases req)
  case Stop
  assume "single_runs d"
  then have "single_runs (fst (begin_stopping d))" by (rule stopping_single(1))
  with Stop show ?thesis by (cases "begin_stopping d") (simp add: command_def)
qed (simp_all add: keeps_jobs_def command_def hold_single trigger_single)

lemma steady_turn_single: "steady_turn W d d' \<Longrightarrow> single_runs d \<Longrightarrow> single_runs d'"
  by (induction rule: steady_turn.induct)
    (simp_all add: handle_def serve_pass_single command_single stopping_single finish_thread_single)

interpretation steady: stepping "steady_turn W" single_runs for W
  by unfold_locales (rule steady_turn_single)

text \<open>C18. As long as no manifest changes and none is added, removed or read again, a job whose overlap
  policy is not \<open>parallel\<close> never has two runs at once, through fires, waiting fires, triggers and the
  ends of runs in any order.\<close>

theorem one_run_per_job:
  assumes "single_runs d" and "(steady_turn W)\<^sup>*\<^sup>* d d'"
    and "job \<in> set (d_jobs d')" and "overlap_of job \<noteq> Parallel"
  shows "length (filter (\<lambda>r. run_id r = j_id job) (d_threads d')) \<le> 1"
proof -
  have "single_runs d'" by (rule steady.reachable_inv [OF assms(2,1)])
  with assms(3,4) show ?thesis
    by (auto simp: single_runs_def run_count_def runs_parallel_def split: if_splits)
qed

definition demo_state :: "string daemon" where
  "demo_state = demo_daemon\<lparr>d_jobs := [demo_job\<lparr>j_next_fire := Some 10\<rparr>]\<rparr>"

lemma manifests_plan_job: "d_manifests (plan_job out i now allow d) = d_manifests d"
  by (simp add: plan_job_def report_def Let_def split: option.splits prod.splits planned.splits)

lemma manifests_plan_all: "d_manifests (plan_all out now allow d) = d_manifests d"
  unfolding plan_all_def
  by (rule foldl_invariant [where P = "\<lambda>e. d_manifests e = d_manifests d"])
    (simp_all add: manifests_plan_job)

lemma demo_manifests: "d_manifests demo_daemon = [\<lparr>wm_watched = demo_watched, wm_modified = Some 1\<rparr>]"
  by (simp add: demo_daemon_def Daemon_open_def build_def demo_registry_def demo_outside_def
      manifests_plan_all)

lemma demo_settled: "settled demo_outside demo_state"
  by (simp add: settled_def demo_state_def demo_manifests demo_outside_def)

lemma demo_single: "single_runs demo_state"
  by (simp add: single_runs_def demo_state_def run_count_def demo_daemon_def Daemon_open_fields demo_job_def)

lemma demo_pass:
  "serve_pass demo_outside 12 demo_state = fire demo_outside 0 12 demo_state"
proof -
  have "\<not> d_stopping demo_state" by (simp add: demo_state_def demo_daemon_def Daemon_open_fields)
  moreover have "due 12 (demo_job\<lparr>j_next_fire := Some 10\<rparr>)"
    by (simp add: due_def job_ready_def enabled_def demo_job_def JobState_default_def)
  ultimately show ?thesis
    by (simp add: serve_pass_def rescan_settled [OF demo_settled] fire_due_def) (simp add: demo_state_def)
qed

theorem one_run_per_job_witness:
  "length (filter (\<lambda>r. run_id r = ''f'') (d_threads (serve_pass demo_outside 12 demo_state))) \<le> 1"
proof -
  let ?d = "serve_pass demo_outside 12 demo_state" and ?job = "demo_job\<lparr>j_next_fire := Some 10\<rparr>"
  have "steady_turn {demo_outside} demo_state ?d"
    by (rule steady_timeout) (simp_all add: demo_settled)
  then have run: "(steady_turn {demo_outside})\<^sup>*\<^sup>* demo_state ?d" by blast
  let ?fired = "fst (plan (o_calendar demo_outside) (fired demo_state 12 ?job) 12 False)"
  have "d_jobs ?d = [?fired]"
    unfolding demo_pass by (simp add: fire_cases(1) demo_state_def)
  then have job: "?fired \<in> set (d_jobs ?d)" by simp
  have "overlap_of ?fired \<noteq> Parallel" "j_id ?fired = ''f''"
    by (simp_all add: overlap_of_def fired_def Let_def set_last_fire_def demo_job_def)
  with one_run_per_job [OF demo_single run job] show ?thesis by simp
qed

end
