(* ===== verification/Daemon_Reload.thy ===== *)
theory Daemon_Reload
  imports Daemon_Fires
begin

text \<open>
  What reading a manifest again does to the jobs of a daemon: the exact list it leaves, what goes on
  meanwhile and is kept, and two ways in which a job loses track of its run.
\<close>

subsection \<open>The jobs after a reload\<close>

text \<open>A fresh job takes over what its predecessor does, and is planned unless it took over a fire.\<close>

definition replan :: "('p, 'z, 'm) outside_scheme \<Rightarrow> instant \<Rightarrow> 'p job \<Rightarrow> 'p job" where
  "replan out now job = (if j_next_fire job = None then fst (plan (o_calendar out) job now False) else job)"

definition taken_over :: "('p, 'z, 'm) outside_scheme \<Rightarrow> instant \<Rightarrow> 'p job list \<Rightarrow> 'p job \<Rightarrow> 'p job" where
  "taken_over out now jobs job = replan out now (carry jobs job)"

lemma jobs_plan_fresh:
  "i < length (d_jobs d) \<Longrightarrow> d_jobs (plan_fresh out now i d) = (d_jobs d)[i := replan out now (d_jobs d ! i)]"
  by (simp add: plan_fresh_def replan_def jobs_plan_job get_at_def)

lemma jobs_plan_each:
  assumes "n \<le> m" and "m \<le> length (d_jobs d)"
  shows "d_jobs (foldl (\<lambda>d i. plan_fresh out now i d) d [n..<m])
    = take n (d_jobs d) @ map (replan out now) (drop n (take m (d_jobs d))) @ drop m (d_jobs d)"
  using assms
proof (induction m rule: nat_induct_at_least)
  case base
  then show ?case by simp
next
  case (Suc m)
  let ?js = "d_jobs d" let ?d = "foldl (\<lambda>d i. plan_fresh out now i d) d [n..<m]"
  have js: "d_jobs ?d = take n ?js @ map (replan out now) (drop n (take m ?js)) @ drop m ?js"
    using Suc by simp
  have front: "length (take n ?js @ map (replan out now) (drop n (take m ?js))) = m" using Suc by simp
  have rest: "drop m ?js = ?js ! m # drop (Suc m) ?js" using Suc.prems by (simp add: Cons_nth_drop_Suc)
  have "length (d_jobs ?d) = length ?js" unfolding js using Suc by simp
  then have "d_jobs (plan_fresh out now m ?d) = (d_jobs ?d)[m := replan out now (d_jobs ?d ! m)]"
    using Suc.prems by (simp add: jobs_plan_fresh)
  also have "\<dots> = take n ?js @ map (replan out now) (drop n (take m ?js)) @ replan out now (?js ! m) # drop (Suc m) ?js"
    unfolding js rest append_assoc [symmetric] using front
    by (metis append.assoc list_update_length nth_append_length)
  finally show ?case using Suc by (simp add: take_Suc_conv_app_nth)
qed

lemma jobs_remember [simp]: "d_jobs (remember_modified out w d) = d_jobs d"
  by (simp add: remember_modified_def Let_def split: option.split)

lemma jobs_report_broken [simp]: "d_jobs (report_broken path d) = d_jobs d"
proof -
  have "d_jobs (foldl (\<lambda>d job. case j_error job of Some e \<Rightarrow> report ''Broken'' (j_id job @ '': '' @ e) d | None \<Rightarrow> d) d js)
      = d_jobs d" for js and d :: "'a daemon"
    by (induction js arbitrary: d) (simp_all split: option.split)
  then show ?thesis by (simp add: report_broken_def)
qed

definition others :: "watched \<Rightarrow> 'p daemon \<Rightarrow> 'p job list" where
  "others w d = filter (\<lambda>job. \<not> path_eq (j_manifest job) (w_path w)) (d_jobs d)"

lemma reload_jobs:
  "d_jobs (reload_manifest out w now d) =
     others w d @ map (taken_over out now (d_jobs d)) (jobs_of out w (d_states d))
   \<and> d_threads (reload_manifest out w now d) = d_threads d
   \<and> d_running (reload_manifest out w now d) = d_running d"
proof (intro conjI)
  let ?fresh = "jobs_of out w (d_states d)"
  let ?jobs = "others w d @ map (carry (d_jobs d)) ?fresh"
  have "d_jobs (foldl (\<lambda>d i. plan_fresh out now i d) (d\<lparr>d_jobs := ?jobs\<rparr>) [length (others w d)..<length ?jobs])
      = others w d @ map (taken_over out now (d_jobs d)) ?fresh"
    by (subst jobs_plan_each) (simp_all add: taken_over_def)
  then show "d_jobs (reload_manifest out w now d) = others w d @ map (taken_over out now (d_jobs d)) ?fresh"
    by (simp add: reload_manifest_def install_def others_def Let_def)
  have "quiet d (reload_manifest out w now d)" by simp
  then show "d_threads (reload_manifest out w now d) = d_threads d"
    "d_running (reload_manifest out w now d) = d_running d"
    by (simp_all add: quiet_def)
qed

text \<open>Reading a manifest again leaves the jobs of the other manifests as they are and replaces its own by
  those it declares now, in order: each one still runs and waits if its predecessor of the same ID did,
  keeps the planned fire when its schedule is the same, and is planned from its recorded state otherwise. No run starts or ends.\<close>

theorem reload_replaces_jobs:
  "d_jobs (reload_manifest out w now d) =
     others w d @ map (taken_over out now (d_jobs d)) (jobs_of out w (d_states d))
   \<and> d_threads (reload_manifest out w now d) = d_threads d
   \<and> d_running (reload_manifest out w now d) = d_running d"
  by (rule reload_jobs)

lemma taken_over_fields [simp]:
  "j_id (taken_over out now jobs job) = j_id job"
  by (simp add: taken_over_def replan_def carry_def Let_def split: option.split)

lemma taken_over_running:
  "j_running (taken_over out now jobs job) =
     (case find (\<lambda>old. j_id old = j_id job) jobs of None \<Rightarrow> j_running job | Some old \<Rightarrow> j_running old)"
  by (simp add: taken_over_def replan_def carry_def Let_def split: option.split)

subsection \<open>Two ways to lose a run\<close>

lemma reload_ids:
  "map j_id (d_jobs (reload_manifest out w now d)) = map j_id (others w d @ jobs_of out w (d_states d))"
  unfolding conjunct1 [OF reload_jobs] by simp

text \<open>A command that watches a manifest refuses an ID of another manifest; reading a changed manifest again
  does not look. The two jobs then share the ID, and the new one runs whenever the first does, but the
  end of a run is noted for the first alone.\<close>

lemma reload_repeats_taken_id:
  assumes "other \<in> set (others w d)" and "job \<in> set (jobs_of out w (d_states d))" and "j_id job = j_id other"
  shows "\<not> distinct (map j_id (d_jobs (reload_manifest out w now d)))"
  using assms unfolding reload_ids by (auto simp: image_iff)

text \<open>A manifest that does not load for a moment, while a job of one of its named schedules runs, makes
  the daemon forget that the job runs: once the manifest loads again, the job is not marked running, so
  its next fire starts a second run beside the first whatever its overlap policy.\<close>

theorem broken_manifest_forgets_run:
  assumes "load_manifest out (w_path w) = Inl e"
    and "job \<in> set (jobs_of repaired w (d_states (reload_manifest out w now d)))"
    and "j_id job \<noteq> stem (w_path w)" and "\<forall>other\<in>set (others w d). j_id other \<noteq> j_id job"
  shows "case reload_manifest repaired w later (reload_manifest out w now d) of d' \<Rightarrow>
    d_threads d' = d_threads d \<and> (\<exists>job'\<in>set (d_jobs d'). j_id job' = j_id job \<and> \<not> j_running job')"
proof -
  let ?d = "reload_manifest out w now d"
  have "jobs_of out w (d_states d) = [broken (stem (w_path w)) w (d_states d) (ManifestError_text e)]"
    by (simp add: jobs_of_def assms(1))
  then have "j_id old \<noteq> j_id job" if "old \<in> set (d_jobs ?d)" for old
    using that assms(3,4) unfolding conjunct1 [OF reload_jobs] by (auto simp: broken_def Job_new_def)
  then have "find (\<lambda>old. j_id old = j_id job) (d_jobs ?d) = None" by (simp add: find_None_iff)
  then have "\<not> j_running (taken_over repaired later (d_jobs ?d) job)"
    using jobs_of_fresh [OF assms(2)] by (simp add: taken_over_running)
  moreover have "taken_over repaired later (d_jobs ?d) job \<in> set (d_jobs (reload_manifest repaired w later ?d))"
    unfolding conjunct1 [OF reload_jobs [of repaired w later ?d]] using assms(2) by simp
  moreover have "d_threads (reload_manifest repaired w later ?d) = d_threads d"
    using reload_jobs [of repaired w later ?d] reload_jobs [of out w now d] by simp
  ultimately show ?thesis unfolding Let_def
    by (intro conjI bexI [of _ "taken_over repaired later (d_jobs ?d) job"]) simp_all
qed

definition unreadable :: "(string, unit) outside" where
  "unreadable = demo_outside\<lparr>o_loader := (o_loader demo_outside)\<lparr>read_file := (\<lambda>_. Inl (IoError ''NotFound'' ''gone''))\<rparr>\<rparr>"

definition named_world :: "(string, unit) outside" where
  "named_world = demo_outside\<lparr>o_loader := (o_loader demo_outside)\<lparr>parse_yaml := (\<lambda>_. Inr
     \<lparr>doc_schedule = Some (Many [demo_fields\<lparr>sf_name := Some ''night''\<rparr>]), doc_sandbox = None,
      doc_tasks = [demo_task]\<rparr>)\<rparr>\<rparr>"

lemma named_job: "map j_id (jobs_of named_world demo_watched s) = [''f:night'']"
proof -
  have "map_sum id (\<lambda>m. map js_name (mft_schedules m)) (load_manifest named_world (w_path demo_watched)) = Inr [Some ''night'']"
    by code_simp
  then obtain m where m: "load_manifest named_world (w_path demo_watched) = Inr m" "map js_name (mft_schedules m) = [Some ''night'']"
    by (cases "load_manifest named_world (w_path demo_watched)") simp_all
  then obtain sch where "mft_schedules m = [sch]" "js_name sch = Some ''night''"
    by (cases "mft_schedules m") simp_all
  moreover have "stem (w_path demo_watched) = ''f''" by code_simp
  ultimately show ?thesis by (simp add: jobs_of_def m(1) job_of_schedule_def Job_new_def Let_def)
qed

theorem broken_manifest_forgets_run_witness:
  "\<exists>job\<in>set (d_jobs (reload_manifest named_world demo_watched 20 (reload_manifest unreadable demo_watched 12
      (demo_daemon\<lparr>d_jobs := []\<rparr>)))). j_id job = ''f:night'' \<and> \<not> j_running job"
proof -
  let ?d = "demo_daemon\<lparr>d_jobs := []\<rparr>"
  let ?s = "d_states (reload_manifest unreadable demo_watched 12 ?d)"
  obtain job where job: "job \<in> set (jobs_of named_world demo_watched ?s)" "j_id job = ''f:night''"
    using named_job [of ?s] by (auto simp: map_eq_Cons_conv)
  have "load_manifest unreadable (w_path demo_watched) = Inl (ManifestIo (IoError ''NotFound'' ''gone''))"
    by (simp add: load_manifest_def load_def unreadable_def)
  moreover have "stem (w_path demo_watched) = ''f''" by code_simp
  ultimately show ?thesis
    using broken_manifest_forgets_run [of unreadable demo_watched _ job named_world 12 ?d 20] job
    by (auto simp: others_def)
qed

end
