(* ===== verification/Daemon_Restart.thy ===== *)
theory Daemon_Restart
  imports Daemon_Reload Client
begin

text \<open>
  What survives a restart. The daemon writes its state file whenever a decision about a job changes, so what it
  knows of its jobs is at any time what \<open>States\<close> of \<open>beez-daemon/src/store.rs\<close> holds for their IDs; a
  daemon that opens on that file knows the same.
\<close>

subsection \<open>Handlers that leave what is known of the jobs\<close>

text \<open>What the jobs of a daemon are called and what it knows of them, beside the states it wrote last.\<close>

definition known :: "'p daemon \<Rightarrow> (string \<times> job_state) list \<times> states" where
  "known d = (map (\<lambda>job. (j_id job, j_state job)) (d_jobs d), d_states d)"

definition remembered :: "'p daemon \<Rightarrow> bool" where
  "remembered d \<longleftrightarrow> (\<forall>job\<in>set (d_jobs d). j_state job = States_get (d_states d) (j_id job))"

lemma remembered_known: "remembered d \<longleftrightarrow> (\<forall>(i, st)\<in>set (fst (known d)). st = States_get (snd (known d)) i)"
  by (auto simp: remembered_def known_def)

lemma known_remembered: "known d' = known d \<Longrightarrow> remembered d \<Longrightarrow> remembered d'"
  by (simp add: remembered_known)

definition unique_ids :: "'p daemon \<Rightarrow> bool" where
  "unique_ids d \<longleftrightarrow> distinct (map j_id (d_jobs d))"

lemma unique_known: "unique_ids d \<longleftrightarrow> distinct (map fst (fst (known d)))"
  by (simp add: unique_ids_def known_def comp_def)

lemma known_unique: "known d' = known d \<Longrightarrow> unique_ids d' = unique_ids d"
  by (simp add: unique_known)

named_theorems known_simps "handlers that leave what is known"

lemma known_report [known_simps]: "known (report v m d) = known d"
  by (simp add: known_def report_def)

lemma remembered_report [simp]: "remembered (report v m d) = remembered d"
  by (simp add: remembered_known known_report)

lemma known_write_states [known_simps]: "known (write_states out d) = known d"
  by (simp add: known_def)

lemma known_plan [simp]:
  "j_state (fst (plan cal job now b)) = j_state job" "j_id (fst (plan cal job now b)) = j_id job"
  by (auto simp: plan_def Let_def split: option.split)

lemma known_plan_job [known_simps]: "known (plan_job out i now b d) = known d"
proof (cases "get_at (d_jobs d) i")
  case (Some job)
  then have "i < length (d_jobs d)" "job = d_jobs d ! i" by (auto simp: get_at_def split: if_splits)
  then show ?thesis
    by (auto simp: known_def jobs_plan_job get_at_def intro!: map_list_update_same)
qed (simp add: plan_job_def get_at_def)

lemma known_sweep [known_simps]: "known (sweep out d) = known d"
  by (simp add: sweep_def known_report split: sum.split)

lemma known_finished_message [known_simps]: "known (finished_message name outcome d) = known d"
  by (simp add: finished_message_def known_report split: option.split)

lemma known_update_job:
  "(\<And>job. j_id (f job) = j_id job \<and> j_state (f job) = j_state job) \<Longrightarrow> known (update_job i f d) = known d"
  by (auto simp: update_job_def known_def get_at_def intro!: map_list_update_same split: option.split)

lemma known_queue_fire [known_simps]: "known (queue_fire i reason d) = known d"
  by (auto simp: queue_fire_def known_def report_def get_at_def intro!: map_list_update_same split: option.split)

lemma known_start [known_simps]: "known (start out i t d) = known d"
  by (auto simp: start_def known_def report_def get_at_def Let_def intro!: map_list_update_same split: option.split)

lemma known_fire_effect [known_simps]: "known (fire_effect out i name t what d) = known d"
  by (simp add: fire_effect_def known_simps split: action.split)

lemma known_start_waiting [known_simps]: "known (start_waiting out now d) = known d"
proof (induction out now d rule: start_waiting.induct)
  case (1 out now d)
  then show ?case
    by (subst start_waiting.simps) (auto simp: known_start split: option.split)
qed

lemma known_start_queued [known_simps]: "known (start_queued out now d) = known d"
  by (simp add: start_queued_def known_start_waiting)

lemma known_trigger [known_simps]: "known (fst (trigger out name now d)) = known d"
  by (simp add: trigger_def known_start split: option.split)

lemma known_stopping [known_simps]: "known (fst (begin_stopping d)) = known d" "known (signal d) = known d"
  by (simp_all add: begin_stopping_def signal_def known_def report_def Let_def)

subsection \<open>Handlers that write\<close>

text \<open>A decision about job \<open>i\<close> is written before anything else is known of it.\<close>

lemma save_remembers:
  assumes "unique_ids d" and "i < length (d_jobs d)"
    and "\<And>k. k < length (d_jobs d) \<Longrightarrow> k \<noteq> i \<Longrightarrow> j_state (d_jobs d ! k) = States_get (d_states d) (j_id (d_jobs d ! k))"
  shows "remembered (save_state out i d)"
proof -
  let ?s = "States_set (d_states d) (j_id (d_jobs d ! i)) (j_state (d_jobs d ! i))"
  have saved: "save_state out i d = write_states out (d\<lparr>d_states := ?s\<rparr>)"
    using assms(2) by (simp add: save_state_def get_at_def)
  have "j_state (d_jobs d ! k) = States_get ?s (j_id (d_jobs d ! k))" if "k < length (d_jobs d)" for k
    using that assms distinct_ids_nth [of "d_jobs d" i k]
    by (cases "k = i") (auto simp: States_get_set unique_ids_def)
  then have "remembered (d\<lparr>d_states := ?s\<rparr>)" by (auto simp: remembered_def in_set_conv_nth)
  then show ?thesis unfolding saved by (rule known_remembered [rotated]) (rule known_write_states)
qed

lemma decide_remembers:
  assumes "remembered d" and "unique_ids d" and "i < length (d_jobs d)"
    and "\<And>job. j_id (f job) = j_id job" and "known e = known (update_job i f d)"
  shows "remembered (save_state out i e)"
proof (rule save_remembers)
  let ?js = "(d_jobs d)[i := f (d_jobs d ! i)]"
  have e: "map (\<lambda>job. (j_id job, j_state job)) (d_jobs e) = map (\<lambda>job. (j_id job, j_state job)) ?js"
    "d_states e = d_states d"
    using assms(3,5) by (simp_all add: known_def update_job_def get_at_def)
  from arg_cong [OF e(1), of length] have len: "length (d_jobs e) = length (d_jobs d)" by simp
  from arg_cong [OF e(1), of "map fst"] have "map j_id (d_jobs e) = map j_id ?js" by (simp add: comp_def)
  also have "\<dots> = map j_id (d_jobs d)" using assms(3,4) by (intro map_list_update_same) auto
  finally show "unique_ids e" using assms(2) by (simp add: unique_ids_def)
  show "i < length (d_jobs e)" using len assms(3) by simp
  fix k assume k: "k < length (d_jobs e)" "k \<noteq> i"
  have "(j_id (d_jobs e ! k), j_state (d_jobs e ! k)) = (j_id (?js ! k), j_state (?js ! k))"
    using arg_cong [OF e(1), of "\<lambda>xs. xs ! k"] k(1) len by simp
  then show "j_state (d_jobs e ! k) = States_get (d_states e) (j_id (d_jobs e ! k))"
    using k len assms(1) e(2) by (simp add: remembered_def)
qed

lemma save_state_jobs: "known (save_state out i d) = (fst (known d), d_states (save_state out i d))"
  by (simp add: known_def)

lemma unique_save [simp]: "unique_ids (save_state out i d) = unique_ids d"
  by (simp add: unique_known save_state_jobs)

lemma unique_update: "(\<And>job. j_id (f job) = j_id job) \<Longrightarrow> unique_ids (update_job i f d) = unique_ids d"
proof (cases "i < length (d_jobs d)")
  case True
  assume "\<And>job. j_id (f job) = j_id job"
  then have "map j_id ((d_jobs d)[i := f (d_jobs d ! i)]) = map j_id (d_jobs d)"
    using True by (intro map_list_update_same) auto
  then show ?thesis using True by (simp add: unique_ids_def update_job_def get_at_def)
qed (simp add: update_job_def get_at_def)

lemma fire_remembers:
  assumes "remembered d \<and> unique_ids d"
  shows "remembered (fire out i now d) \<and> unique_ids (fire out i now d)"
proof (cases "i < length (d_jobs d)")
  case True
  let ?job = "d_jobs d ! i"
  let ?t = "case j_next_fire ?job of Some t \<Rightarrow> t | None \<Rightarrow> now"
  let ?e = "fire_effect out i (j_id ?job) ?t (action_for d ?job) (update_job i (set_last_fire ?t) d)"
  have fire: "fire out i now d = plan_job out i now False (save_state out i ?e)"
    using True by (simp add: fire_def get_at_def Let_def)
  have "remembered (save_state out i ?e)"
    by (rule decide_remembers [of d i "set_last_fire ?t"])
      (use assms True in \<open>simp_all add: set_last_fire_def known_fire_effect\<close>)
  moreover have "unique_ids (save_state out i ?e)"
    using assms by (simp add: known_unique [OF known_fire_effect] unique_update set_last_fire_def)
  ultimately show ?thesis
    unfolding fire using known_plan_job known_remembered known_unique by metis
qed (use assms in \<open>simp add: fire_def get_at_def\<close>)

lemma fires_remember:
  "remembered d \<and> unique_ids d \<Longrightarrow>
     remembered (foldl (\<lambda>d i. fire out i now d) d is) \<and> unique_ids (foldl (\<lambda>d i. fire out i now d) d is)"
  by (induction "is" arbitrary: d) (simp_all add: fire_remembers)

lemma fire_due_remembers:
  "remembered d \<and> unique_ids d \<Longrightarrow> remembered (fire_due out now d) \<and> unique_ids (fire_due out now d)"
  by (simp add: fire_due_def fires_remember)

lemma find_job_at: "find_job name d = Some i \<Longrightarrow> i < length (d_jobs d)"
  using find_position_SomeD unfolding find_job_def by fastforce

lemma hold_remembers:
  assumes "remembered d" and "unique_ids d"
  shows "remembered (fst (hold out name paused now d))"
proof (cases "find_job name d")
  case (Some i)
  let ?f = "\<lambda>job. job\<lparr>j_state := (j_state job)\<lparr>st_paused := paused\<rparr>\<rparr>"
  let ?e = "save_state out i (update_job i ?f d)"
  have "remembered ?e"
    by (rule decide_remembers [of d i ?f]) (simp_all add: assms find_job_at [OF Some])
  moreover have "known (fst (hold out name paused now d)) = known ?e"
    using Some by (simp add: hold_def Let_def known_report known_plan_job)
  ultimately show ?thesis by (rule known_remembered [rotated])
qed (simp add: hold_def assms)

lemma finish_records_remembers:
  assumes "remembered d" and "unique_ids d"
  shows "remembered (finish_records out name outcome d)"
proof -
  let ?d = "finished_message name outcome (d\<lparr>d_running := d_running d - 1\<rparr>)"
  have same: "known ?d = known d" by (simp add: known_finished_message) (simp add: known_def)
  then have d: "remembered ?d" "unique_ids ?d"
    using known_remembered known_unique assms by metis+
  have "remembered (case find_job name ?d of None \<Rightarrow> ?d | Some i \<Rightarrow> save_state out i (update_job i (end_run outcome) ?d))"
  proof (cases "find_job name ?d")
    case (Some i)
    have "remembered (save_state out i (update_job i (end_run outcome) ?d))"
      by (rule decide_remembers [OF d find_job_at [OF Some]]) (simp_all add: end_run_def)
    then show ?thesis using Some by simp
  qed (use d(1) in simp)
  then show ?thesis
    unfolding finish_records_def Let_def by (rule known_remembered [OF known_sweep])
qed

lemma finish_thread_remembers:
  assumes "remembered d" and "unique_ids d"
  shows "remembered (finish_thread out k outcome now d)"
proof -
  have "known (end_thread k d) = known d" by (simp add: known_def end_thread_def)
  then have "remembered (end_thread k d)" "unique_ids (end_thread k d)"
    using known_remembered known_unique assms by metis+
  then have "remembered (finish_records out (run_id (d_threads d ! k)) outcome (end_thread k d))"
    by (rule finish_records_remembers)
  then show ?thesis
    unfolding finish_thread_def finished_eq by (rule known_remembered [OF known_start_queued])
qed

subsection \<open>Reading manifests\<close>

lemma states_plan_fresh [simp]: "d_states (plan_fresh out now i d) = d_states d"
  by (simp add: plan_fresh_def split: option.split)

lemma states_report_broken [simp]: "d_states (report_broken path d) = d_states d"
  unfolding report_broken_def
  by (rule foldl_invariant [where P = "\<lambda>e. d_states e = d_states d"]) (simp_all add: report_def split: option.split)

lemma states_install [simp]: "d_states (install out w js now d) = d_states d"
proof -
  have "d_states (foldl (\<lambda>d i. plan_fresh out now i d) e js) = d_states e" for e js
    by (rule foldl_invariant [where P = "\<lambda>d. d_states d = d_states e"]) simp_all
  moreover have "d_states (remember_modified out w e) = d_states e" for e
    by (simp add: remember_modified_def Let_def split: option.split)
  ultimately show ?thesis by (simp add: install_def Let_def)
qed

lemma state_taken_over [simp]: "j_state (taken_over out now jobs job) = j_state job"
  by (simp add: taken_over_def replan_def carry_def Let_def split: option.split)

lemma reload_remembers:
  assumes "remembered d"
  shows "remembered (reload_manifest out w now d)"
proof -
  have "d_states (reload_manifest out w now d) = d_states d" by (simp add: reload_manifest_def)
  then show ?thesis
    using assms by (auto simp: remembered_def reload_jobs others_def dest: jobs_of_fresh)
qed

lemma rescan_remembers: "remembered d \<Longrightarrow> remembered (rescan out now d)"
  unfolding rescan_def
  by (rule foldl_invariant [where P = remembered])
    (auto intro!: reload_remembers intro: known_remembered [OF known_report])

lemma retain_remembers: "remembered d \<Longrightarrow> remembered (retain_manifests keep d)"
  by (auto simp: remembered_def retain_manifests_def)

lemma registry_remembers: "remembered (d\<lparr>d_registry := r\<rparr>) = remembered d"
  by (simp add: remembered_def)

lemma reload_all_remembers:
  assumes "remembered d"
  shows "remembered (fst (reload_all out now d))"
proof -
  let ?d = "case o_registry out of Inr r \<Rightarrow> d\<lparr>d_registry := r\<rparr>
     | Inl e \<Rightarrow> report ''Warning'' (''cannot read the manifest list: '' @ io_text e) d"
  let ?r = "retain_manifests (\<lambda>path. list_ex (\<lambda>e. path_eq (w_path e) path) (rg_manifests (d_registry ?d))) ?d"
  have "remembered ?d"
    using assms by (auto simp: registry_remembers intro: known_remembered [OF known_report] split: sum.split)
  then have "remembered ?r" by (rule retain_remembers)
  then have "remembered (foldl (\<lambda>d w. reload_manifest out w now d) ?r (rg_manifests (d_registry ?d)))"
    by (intro foldl_invariant [where P = remembered] reload_remembers)
  then show ?thesis by (simp add: reload_all_def Let_def)
qed

lemma install_remembers:
  assumes "remembered d"
  shows "remembered (install out w (jobs_of out w (d_states d)) now (d\<lparr>d_registry := r\<rparr>))"
proof -
  have "remembered (reload_manifest out w now (d\<lparr>d_registry := r\<rparr>))"
    using assms by (simp add: reload_remembers registry_remembers)
  then show ?thesis by (simp add: reload_manifest_def)
qed

lemma add_remembers:
  assumes "remembered d"
  shows "remembered (fst (add_manifest out m wd now d))"
  using install_remembers [OF assms] assms
  by (auto simp: add_manifest_def Let_def registry_remembers split: sum.splits prod.splits)

lemma prune_remembers: "remembered d \<Longrightarrow> remembered (prune_states out d)"
proof -
  assume "remembered d"
  then have "remembered (d\<lparr>d_states := keep_only (d_states d) (map j_id (d_jobs d))\<rparr>)"
    by (simp add: remembered_def States_get_def keep_only_jobs)
  then show ?thesis unfolding prune_states_def by (rule known_remembered [OF known_write_states])
qed

lemma remove_remembers:
  assumes "remembered d"
  shows "remembered (fst (remove_manifest out m d))"
  using assms
  by (auto simp: remove_manifest_def Let_def registry_remembers prune_remembers retain_remembers
      split: sum.splits prod.splits response.splits)

lemma command_remembers:
  assumes "remembered d" and "unique_ids d"
  shows "remembered (fst (command out pid req now d))"
proof (cases req)
  case Reload
  then show ?thesis using reload_all_remembers [OF assms(1), of out now] by (simp add: command_def case_prod_unfold Let_def)
next
  case Stop
  then have "fst (command out pid req now d) = fst (begin_stopping d)" by (simp add: command_def split: prod.split)
  then show ?thesis using known_remembered [OF known_stopping(1) assms(1)] by simp
next
  case (Trigger name)
  then show ?thesis using known_remembered [OF known_trigger assms(1)] by (simp add: command_def)
qed (use assms in \<open>simp_all add: command_def add_remembers remove_remembers hold_remembers\<close>)

subsection \<open>A restart\<close>

text \<open>
  A turn of a daemon whose manifests, as they are when the pass has read them, name each job once.
\<close>

inductive named_turn :: "('p, 'z) outside set \<Rightarrow> 'p daemon \<Rightarrow> 'p daemon \<Rightarrow> bool" for W where
  named_timeout: "out \<in> W \<Longrightarrow> unique_ids (rescan out now d) \<Longrightarrow> named_turn W d (serve_pass out now d)"
| named_command: "out \<in> W \<Longrightarrow> later \<in> W \<Longrightarrow> unique_ids (rescan out now d) \<Longrightarrow>
    named_turn W d (handle later pid (Command req) then_now (serve_pass out now d))"
| named_signal: "out \<in> W \<Longrightarrow> later \<in> W \<Longrightarrow> unique_ids (rescan out now d) \<Longrightarrow>
    named_turn W d (handle later pid Signal then_now (serve_pass out now d))"
| named_end: "out \<in> W \<Longrightarrow> later \<in> W \<Longrightarrow> unique_ids (rescan out now d) \<Longrightarrow>
    k < length (d_threads (serve_pass out now d)) \<Longrightarrow>
    named_turn W d (finish_thread later k outcome then_now (serve_pass out now d))"

lemma pass_remembers:
  assumes "remembered d" and "unique_ids (rescan out now d)"
  shows "remembered (serve_pass out now d) \<and> unique_ids (serve_pass out now d)"
  unfolding serve_pass_def using fire_due_remembers rescan_remembers assms by blast

lemma named_turn_remembers: "named_turn W d d' \<Longrightarrow> remembered d \<Longrightarrow> remembered d'"
proof (induction rule: named_turn.induct)
  case (named_signal out later now d pid then_now)
  then have "remembered (serve_pass out now d)" using pass_remembers by blast
  then show ?case unfolding handle_def event.case by (rule known_remembered [OF known_stopping(2)])
qed (simp_all add: handle_def pass_remembers command_remembers finish_thread_remembers)

interpretation restarts: stepping "named_turn W" remembered for W
  by unfold_locales (rule named_turn_remembers)

lemma Daemon_open_remembers: "remembered (Daemon_open out dp limit keep started now r s)"
proof -
  let ?d = "\<lparr>d_paths = dp, d_registry = r, d_states = s, d_manifests = fst (build out r s),
         d_jobs = snd (build out r s), d_running = 0, d_limit = limit, d_keep = keep, d_started = started,
         d_stopping = False, d_exiting = False, d_threads = [], d_log = []\<rparr>"
  have "known (plan_all out now True ?d) = known ?d"
    unfolding plan_all_def
    by (rule foldl_invariant [where P = "\<lambda>e. known e = known ?d"]) (simp_all add: known_plan_job)
  moreover have "remembered ?d" by (simp add: remembered_def build_states)
  moreover have "Daemon_open out dp limit keep started now r s = plan_all out now True ?d"
    by (simp add: Daemon_open_def Let_def split: prod.splits)
  ultimately show ?thesis using known_remembered by metis
qed

lemma Daemon_open_states: "d_states (Daemon_open out dp limit keep started now r s) = s"
proof -
  have "d_states (plan_all out now True d) = d_states d" for d
    unfolding plan_all_def by (rule foldl_invariant [where P = "\<lambda>e. d_states e = d_states d"]) simp_all
  then show ?thesis by (simp add: Daemon_open_def split: prod.split)
qed


text \<open>A job that fired and was then paused is still paused after a restart, with the same last fire.\<close>

definition paused_demo :: "string daemon" where
  "paused_demo = handle demo_outside 7 (Command (Pause ''f'')) 12 (serve_pass demo_outside 12 demo_daemon)"

lemma paused_demo_jobs:
  "map (\<lambda>job. (j_id job, j_state job)) (d_jobs paused_demo) =
     [(''f'', \<lparr>st_paused = True, st_last_fire = Some 10, st_last_run = None, st_last_status = None\<rparr>)]"
  by code_simp

definition restarted_demo :: "string daemon" where
  "restarted_demo = Daemon_open demo_outside \<lparr>dp_root = ''/r'', dp_socket = ''/r/s''\<rparr> 1 0 50 50
     Daemon_Safety.demo_registry (d_states paused_demo)"

lemma restarted_demo_jobs: "map j_id (d_jobs restarted_demo) = [''f'']"
  by code_simp


end
