(* ===== verification/Runner.thy ===== *)
theory Runner
  imports Process
begin

text \<open>
  \<open>beez-runner/src/runner.rs\<close>: running a request, and running a workflow in rounds of ready tasks.

  The callback \<open>on_event\<close> is an \<open>action\<close> on the caller's state. The task threads and the channel
  are the parameter \<open>arrivals\<close>: for the jobs of a round, the messages in the order the channel
  delivers them. \<open>arrives\<close> is what the threads guarantee: the messages are an interleaving of one
  sequence per job, some output lines and then one result. A thread that panics is not modelled.

  \<open>run_loop\<close> is the \<open>while\<close> of \<open>run_workflow\<close>; it ends because each round starts a pending task.
\<close>

subsection \<open>Events and jobs\<close>

datatype run_event =
    Started "nat option"
  | Output "nat option" output_stream string
  | Finished "nat option" process_output nat
  | FailedEvent "nat option" string nat
  | Blocked nat

primrec event_task :: "run_event \<Rightarrow> nat option" where
  "event_task (Started t) = t"
| "event_task (Output t st l) = t"
| "event_task (Finished t out el) = t"
| "event_task (FailedEvent t k el) = t"
| "event_task (Blocked i) = Some i"

definition task_position :: "nat option \<Rightarrow> nat" where
  "task_position t = (case t of None \<Rightarrow> 0 | Some i \<Rightarrow> i)"

definition event_position :: "run_event \<Rightarrow> nat" where
  "event_position e = task_position (event_task e)"

type_synonym job = "nat option \<times> execution_request \<times> sandbox_policy option"

type_synonym outcome = "io_error + process_output"

datatype message =
    Line "nat option" output_stream string
  | Done "nat option" outcome nat

type_synonym arrivals = "job list \<Rightarrow> message list"

type_synonym 's callback = "run_event \<Rightarrow> ('s, io_error, unit) action"

definition outcome_status :: "outcome \<Rightarrow> int" where
  "outcome_status r =
     (case r of Inl _ \<Rightarrow> 1 | Inr out \<Rightarrow> (case po_status out of Some c \<Rightarrow> c | None \<Rightarrow> 1))"

subsection \<open>One round of requests\<close>

fun receive :: "'s callback \<Rightarrow> message list \<Rightarrow> (nat option \<times> outcome) list
    \<Rightarrow> ('s, io_error, (nat option \<times> outcome) list) action" where
  "receive on_event [] outcomes = sreturn outcomes"
| "receive on_event (Line t st l # ms) outcomes =
     sbind (on_event (Output t st l)) (\<lambda>_. receive on_event ms outcomes)"
| "receive on_event (Done t (Inr out) el # ms) outcomes =
     sbind (on_event (Finished t out el)) (\<lambda>_. receive on_event ms (outcomes @ [(t, Inr out)]))"
| "receive on_event (Done t (Inl e) el # ms) outcomes =
     sbind (on_event (FailedEvent t (io_kind e) el)) (\<lambda>_. receive on_event ms (outcomes @ [(t, Inl e)]))"

definition run_requests_concurrently ::
  "arrivals \<Rightarrow> job list \<Rightarrow> 's callback \<Rightarrow> ('s, io_error, (nat option \<times> outcome) list) action" where
  "run_requests_concurrently arrivals jobs on_event = receive on_event (arrivals jobs) []"

definition run_request_in ::
  "arrivals \<Rightarrow> execution_request \<Rightarrow> sandbox_policy option \<Rightarrow> 's callback
   \<Rightarrow> ('s, io_error, int) action" where
  "run_request_in arrivals request sandbox on_event =
     sbind (on_event (Started None)) (\<lambda>_.
     sbind (run_requests_concurrently arrivals [(None, request, sandbox)] on_event) (\<lambda>outcomes.
       if outcomes = [] then sfail (io_other ''request produced no result'')
       else let outcome = snd (last outcomes)
            in slift (and_then outcome (\<lambda>_. Inr (outcome_status outcome)))))"

subsection \<open>Rendering\<close>

definition output_text :: "process_output \<Rightarrow> task_output \<Rightarrow> string" where
  "output_text out stream =
     rev (dropWhile (\<lambda>c. c = CHR 0x0D \<or> c = newline)
       (rev (utf8_lossy (case stream of Stdout \<Rightarrow> po_stdout out | Stderr \<Rightarrow> po_stderr out))))"

definition lookup_output ::
  "workflow \<Rightarrow> (nat \<Rightarrow> process_output option) \<Rightarrow> output_reference \<Rightarrow> string option" where
  "lookup_output w outputs r =
     (case index_of w (or_task r) of None \<Rightarrow> None | Some i \<Rightarrow>
      case outputs i of None \<Rightarrow> None | Some out \<Rightarrow> Some (output_text out (or_output r)))"

definition render_text ::
  "workflow \<Rightarrow> (nat \<Rightarrow> process_output option) \<Rightarrow> string \<Rightarrow> io_error + string" where
  "render_text w outputs t =
     and_then (map_err (\<lambda>e. io_other (TemplateError_text e)) (parse_template t)) (\<lambda>template.
       map_err (\<lambda>r. io_other (OutputReference_text r @ '' has no output yet''))
         (render (lookup_output w outputs) template))"

definition render_request ::
  "workflow \<Rightarrow> task_request \<Rightarrow> (nat \<Rightarrow> process_output option) \<Rightarrow> io_error + task_request" where
  "render_request w request outputs = try_map_texts (render_text w outputs) request"

primrec to_execution_request :: "task_request \<Rightarrow> execution_request" where
  "to_execution_request (HarnessRequest harness p options) =
     HarnessExecution (HarnessCall_options options (HarnessCall_new harness p))"
| "to_execution_request (CommandRequest program arguments) =
     CommandExecution \<lparr>pc_program = program, pc_arguments = arguments\<rparr>"

subsection \<open>Starting tasks\<close>

record started_task =
  st_index :: nat
  st_request :: task_request
  st_sandbox :: "sandbox_policy option"

fun start_each ::
  "'s callback \<Rightarrow> nat list \<Rightarrow> execution \<Rightarrow> ('s, io_error, started_task list \<times> execution) action" where
  "start_each on_event [] ex = sreturn ([], ex)"
| "start_each on_event (i # is) ex =
     (case start_task ex i of
        (None, ex) \<Rightarrow> sfail (io_other ''workflow task is not ready'')
      | (Some t, ex) \<Rightarrow>
          sbind (on_event (Started (Some i))) (\<lambda>_.
          sbind (start_each on_event is ex) (\<lambda>(ts, ex).
          sreturn (\<lparr>st_index = i, st_request = t_request t, st_sandbox = t_sandbox t\<rparr> # ts, ex))))"

definition start_ready_tasks ::
  "'s callback \<Rightarrow> execution \<Rightarrow> ('s, io_error, started_task list \<times> execution) action" where
  "start_ready_tasks on_event ex = start_each on_event (ready ex) ex"

subsection \<open>Recording outcomes\<close>

fun record_each ::
  "execution \<Rightarrow> (nat option \<times> outcome) list \<Rightarrow> nat set \<Rightarrow> (nat \<Rightarrow> process_output option) \<Rightarrow> int
   \<Rightarrow> io_error option \<Rightarrow> io_error + execution \<times> (nat \<Rightarrow> process_output option) \<times> int" where
  "record_each ex [] read_tasks outputs exit_status execution_error =
     (case execution_error of Some e \<Rightarrow> Inl e | None \<Rightarrow> Inr (ex, outputs, exit_status))"
| "record_each ex ((None, r) # rs) read_tasks outputs exit_status execution_error =
     record_each ex rs read_tasks outputs exit_status execution_error"
| "record_each ex ((Some i, r) # rs) read_tasks outputs exit_status execution_error =
     (let status = outcome_status r; (ok, ex) = complete_task ex i (status = 0) in
      if \<not> ok then Inl (io_other ''workflow task is not running'')
      else case r of
             Inr out \<Rightarrow>
               record_each ex rs read_tasks
                 (if i \<in> read_tasks then outputs(i \<mapsto> out) else outputs)
                 (if status \<noteq> 0 \<and> exit_status = 0 then status else exit_status)
                 execution_error
           | Inl e \<Rightarrow>
               record_each ex rs read_tasks outputs exit_status
                 (case execution_error of None \<Rightarrow> Some e | Some e' \<Rightarrow> Some e'))"

definition record_outcomes ::
  "execution \<Rightarrow> (nat option \<times> outcome) list \<Rightarrow> nat set \<Rightarrow> (nat \<Rightarrow> process_output option) \<Rightarrow> int
   \<Rightarrow> io_error + execution \<times> (nat \<Rightarrow> process_output option) \<times> int" where
  "record_outcomes ex outcomes read_tasks outputs exit_status =
     record_each ex (sort_key (\<lambda>(t, _). task_position t) outcomes) read_tasks outputs exit_status None"

subsection \<open>Running a workflow\<close>

type_synonym run_state = "execution \<times> (nat \<Rightarrow> process_output option) \<times> int"

datatype round_end = Stop int | Continue run_state

definition read_tasks_of :: "workflow \<Rightarrow> nat set" where
  "read_tasks_of w = set (concat (map t_reads (tasks w)))"

definition job_of ::
  "workflow \<Rightarrow> (nat \<Rightarrow> process_output option) \<Rightarrow> started_task \<Rightarrow> io_error + job" where
  "job_of w outputs t =
     and_then (render_request w (st_request t) outputs)
       (\<lambda>request. Inr (Some (st_index t), to_execution_request request, st_sandbox t))"

definition run_round ::
  "arrivals \<Rightarrow> 's callback \<Rightarrow> workflow \<Rightarrow> run_state \<Rightarrow> ('s, io_error, round_end) action" where
  "run_round arrivals on_event w st =
     (let (ex, outputs, exit_status) = st in
      sbind (start_ready_tasks on_event ex) (\<lambda>(ts, ex).
        if ts = [] then
          sbind (sforeach (\<lambda>i. on_event (Blocked i)) (pending ex)) (\<lambda>_. sreturn (Stop exit_status))
        else
          sbind (slift (traverse (job_of w outputs) ts)) (\<lambda>jobs.
          sbind (run_requests_concurrently arrivals jobs on_event) (\<lambda>outcomes.
          sbind (slift (record_outcomes ex outcomes (read_tasks_of w) outputs exit_status)) (\<lambda>st.
          sreturn (Continue st))))))"

abbreviation pending_count :: "execution \<Rightarrow> nat" where
  "pending_count ex \<equiv> count_list (ex_statuses ex) Pending"

lemma count_update_other:
  "i < length xs \<Longrightarrow> xs ! i \<noteq> x \<Longrightarrow> v \<noteq> x \<Longrightarrow> count_list (xs[i := v]) x = count_list xs x"
proof (induction xs arbitrary: i)
  case (Cons y xs)
  then show ?case by (cases i) auto
qed simp

lemma count_update_leave:
  "i < length xs \<Longrightarrow> xs ! i = x \<Longrightarrow> v \<noteq> x \<Longrightarrow> Suc (count_list (xs[i := v]) x) = count_list xs x"
proof (induction xs arbitrary: i)
  case (Cons y xs)
  then show ?case by (cases i) auto
qed simp

lemma start_task_pending:
  "start_task ex i = (Some t, ex') \<Longrightarrow> pending_count ex' < pending_count ex"
  using count_update_leave [of i "ex_statuses ex" Pending Running]
  by (auto simp: start_task_def is_ready_def split: if_splits option.splits)

lemma complete_task_pending:
  "complete_task ex i ok = (b, ex') \<Longrightarrow> pending_count ex' = pending_count ex"
  by (auto simp: complete_task_def count_update_other split: if_splits option.splits)

lemma start_each_pending:
  "start_each on_event is ex s = (Inr (ts, ex'), s') \<Longrightarrow>
     pending_count ex' + length ts \<le> pending_count ex"
proof (induction "is" arbitrary: ex s ts s')
  case (Cons i "is")
  obtain o' ex1 where st: "start_task ex i = (o', ex1)" by (cases "start_task ex i")
  with Cons.prems obtain t where o': "o' = Some t" by (cases o') auto
  with Cons.prems st obtain s1 s2 ts' where "start_each on_event is ex1 s1 = (Inr (ts', ex'), s2)"
    and "length ts = Suc (length ts')"
    by (auto simp: sbind_Inr_iff)
  with Cons.IH [OF this(1)] start_task_pending [of ex i t ex1] st o' show ?case by simp
qed simp

lemma record_each_pending:
  "record_each ex rs reads outputs c err = Inr (ex', outputs', c') \<Longrightarrow>
     pending_count ex' = pending_count ex"
proof (induction rs arbitrary: ex outputs c err)
  case (Cons x rs)
  obtain t r where x: "x = (t, r)" by (cases x)
  show ?case
  proof (cases t)
    case (Some i)
    obtain ok ex1 where c: "complete_task ex i (outcome_status r = 0) = (ok, ex1)"
      by (cases "complete_task ex i (outcome_status r = 0)")
    have "pending_count ex' = pending_count ex1"
      using Cons.prems x Some c by (cases r) (auto simp: Let_def split: if_splits dest!: Cons.IH)
    then show ?thesis using complete_task_pending [OF c] by simp
  qed (use Cons x in auto)
qed (auto split: option.splits)

lemma run_round_pending:
  "run_round arrivals on_event w (ex, outputs, c) s = (Inr (Continue (ex', outputs', c')), s') \<Longrightarrow>
     pending_count ex' < pending_count ex"
proof -
  assume "run_round arrivals on_event w (ex, outputs, c) s = (Inr (Continue (ex', outputs', c')), s')"
  then obtain ts ex1 s1 outcomes
    where start: "start_ready_tasks on_event ex s = (Inr (ts, ex1), s1)" and ts: "ts \<noteq> []"
      and rec: "record_outcomes ex1 outcomes (read_tasks_of w) outputs c = Inr (ex', outputs', c')"
    by (auto simp: run_round_def sbind_Inr_iff split: if_splits)
  have "pending_count ex1 < pending_count ex"
    using start_each_pending [OF start [unfolded start_ready_tasks_def]] ts by (cases ts) auto
  moreover have "pending_count ex' = pending_count ex1"
    using record_each_pending [OF rec [unfolded record_outcomes_def]] .
  ultimately show ?thesis by simp
qed

function run_loop ::
  "arrivals \<Rightarrow> 's callback \<Rightarrow> workflow \<Rightarrow> run_state \<Rightarrow> 's \<Rightarrow> (io_error + int) \<times> 's" where
  "run_loop arrivals on_event w st s =
     (if \<not> has_pending (fst st) then (Inr (snd (snd st)), s)
      else case run_round arrivals on_event w st s of
             (Inl e, s) \<Rightarrow> (Inl e, s)
           | (Inr (Stop c), s) \<Rightarrow> (Inr c, s)
           | (Inr (Continue st), s) \<Rightarrow> run_loop arrivals on_event w st s)"
  by pat_completeness auto
termination
  by (relation "measure (\<lambda>(_, _, _, st, _). pending_count (fst st))")
    (auto dest: run_round_pending [OF sym])

declare run_loop.simps [simp del]

definition run_workflow ::
  "arrivals \<Rightarrow> workflow \<Rightarrow> 's callback \<Rightarrow> ('s, io_error, int) action" where
  "run_workflow arrivals w on_event =
     run_loop arrivals on_event w (Workflow_execution w, \<lambda>_. None, 0)"

end
