(* ===== verification/Runner_Trace.thy ===== *)
theory Runner_Trace
  imports Runner "HOL-Library.Multiset"
begin

text \<open>
  What \<open>run_workflow\<close> tells its caller. The callback here is \<open>log_event\<close>, which keeps every event,
  and the threads are any \<open>arrivals\<close> that satisfy \<open>arrives\<close>.

  \<open>run_inv\<close> ties the execution between two rounds to the log so far: a task is pending when the log
  does not start it, and the log holds exactly one result of every other task.
\<close>

subsection \<open>What the threads guarantee\<close>

definition job_messages :: "job \<Rightarrow> message list \<Rightarrow> bool" where
  "job_messages j ms \<longleftrightarrow>
     (\<exists>calls r el. ms = map (\<lambda>(st, l). Line (fst j) st l) calls @ [Done (fst j) r el])"

fun interleaved :: "'a list list \<Rightarrow> 'a list \<Rightarrow> bool" where
  "interleaved [] zs \<longleftrightarrow> zs = []"
| "interleaved (xs # xss) zs \<longleftrightarrow> (\<exists>ys. interleaved xss ys \<and> zs \<in> shuffles xs ys)"

definition arrives :: "arrivals \<Rightarrow> bool" where
  "arrives arrivals \<longleftrightarrow>
     (\<forall>jobs. \<exists>runs. list_all2 job_messages jobs runs \<and> interleaved runs (arrivals jobs))"

definition log_event :: "run_event list callback" where
  "log_event e = (\<lambda>log. (Inr (), log @ [e]))"

lemma sbind_log_event [simp]: "sbind (log_event e) f log = f () (log @ [e])"
  by (simp add: sbind_def log_event_def)

primrec event_of :: "message \<Rightarrow> run_event" where
  "event_of (Line t st l) = Output t st l"
| "event_of (Done t r el) =
     (case r of Inr out \<Rightarrow> Finished t out el | Inl e \<Rightarrow> FailedEvent t (io_kind e) el)"

definition outcomes_of :: "message list \<Rightarrow> (nat option \<times> outcome) list" where
  "outcomes_of ms = List.map_filter (\<lambda>m. case m of Done t r el \<Rightarrow> Some (t, r) | _ \<Rightarrow> None) ms"

lemma outcomes_of_simps [simp]:
  "outcomes_of [] = []"
  "outcomes_of (Line t st l # ms) = outcomes_of ms"
  "outcomes_of (Done t r el # ms) = (t, r) # outcomes_of ms"
  by (simp_all add: outcomes_of_def List.map_filter_def)

lemma outcomes_of_append [simp]: "outcomes_of (ms @ ns) = outcomes_of ms @ outcomes_of ns"
  by (simp add: outcomes_of_def List.map_filter_def)

lemma receive_log:
  "receive log_event ms outcomes log = (Inr (outcomes @ outcomes_of ms), log @ map event_of ms)"
proof (induction ms arbitrary: outcomes log)
  case (Cons m ms)
  show ?case
  proof (cases m)
    case (Done t r el)
    then show ?thesis by (cases r) (simp_all add: Cons)
  qed (simp add: Cons)
qed simp

lemma outcomes_of_job: "job_messages j ms \<Longrightarrow> \<exists>r. outcomes_of ms = [(fst j, r)]"
proof -
  assume "job_messages j ms"
  then obtain calls r el
    where ms: "ms = map (\<lambda>(st, l). Line (fst j) st l) calls @ [Done (fst j) r el]"
    by (auto simp: job_messages_def)
  have "outcomes_of (map (\<lambda>(st, l). Line (fst j) st l) calls) = []"
    by (induction calls) auto
  with ms show ?thesis by simp
qed

lemma mset_outcomes_of:
  "mset (outcomes_of ms) =
     image_mset (\<lambda>m. case m of Done t r el \<Rightarrow> (t, r))
       (filter_mset (\<lambda>m. \<exists>t r el. m = Done t r el) (mset ms))"
proof (induction ms)
  case (Cons m ms)
  then show ?case by (cases m) auto
qed simp

lemma interleaved_mset: "interleaved runs zs \<Longrightarrow> mset zs = mset (concat runs)"
proof (induction runs arbitrary: zs)
  case (Cons r runs)
  then obtain ys where "interleaved runs ys" and "zs \<in> shuffles r ys" by auto
  with Cons.IH show ?case by (simp add: mset_shuffles)
qed simp

lemma outcomes_of_concat: "outcomes_of (concat runs) = concat (map outcomes_of runs)"
  by (induction runs) simp_all

lemma arrivals_outcomes:
  assumes "arrives arrivals"
  shows "mset (map fst (outcomes_of (arrivals jobs))) = mset (map fst jobs)"
proof -
  obtain runs where runs: "list_all2 job_messages jobs runs" and "interleaved runs (arrivals jobs)"
    using assms by (auto simp: arrives_def)
  then have "mset (outcomes_of (arrivals jobs)) = mset (outcomes_of (concat runs))"
    by (simp only: mset_outcomes_of interleaved_mset)
  moreover have "map fst (outcomes_of (concat runs)) = map fst jobs"
    using runs
  proof (induction rule: list_all2_induct)
    case (Cons j jobs r runs)
    then show ?case using outcomes_of_job [of j r] by (auto simp: outcomes_of_concat)
  qed simp
  ultimately show ?thesis by (metis mset_map)
qed

text \<open>A schedule of the threads for the examples: each job at once, in order.\<close>

definition in_order :: "(job \<Rightarrow> outcome) \<Rightarrow> arrivals" where
  "in_order result jobs = map (\<lambda>j. Done (fst j) (result j) 0) jobs"

lemma interleaved_concat: "interleaved runs (concat runs)"
proof (induction runs)
  case (Cons r runs)
  have "r @ concat runs \<in> shuffles r (concat runs)"
    by (induction r) (auto simp: Cons_in_shuffles_leftI)
  with Cons show ?case by auto
qed simp

lemma in_order_arrives: "arrives (in_order result)"
  unfolding arrives_def
proof
  fix jobs
  let ?runs = "map (\<lambda>j. [Done (fst j) (result j) 0]) jobs"
  have "in_order result jobs = concat ?runs" by (induction jobs) (simp_all add: in_order_def)
  then have "interleaved ?runs (in_order result jobs)" using interleaved_concat [of ?runs] by simp
  moreover have "list_all2 job_messages jobs ?runs"
    by (auto simp: list_all2_map2 job_messages_def intro!: list_all2_refl)
  ultimately show "\<exists>runs. list_all2 job_messages jobs runs \<and> interleaved runs (in_order result jobs)"
    by blast
qed

subsection \<open>The log\<close>

definition results :: "run_event list \<Rightarrow> nat \<Rightarrow> process_output list" where
  "results log i =
     List.map_filter
       (\<lambda>e. case e of Finished t out el \<Rightarrow> if t = Some i then Some out else None | _ \<Rightarrow> None) log"

lemma results_simps [simp]:
  "results [] i = []"
  "results (log @ log') i = results log i @ results log' i"
  "results (Started t # log) i = results log i"
  "results (Output t st l # log) i = results log i"
  "results (FailedEvent t k el # log) i = results log i"
  "results (Blocked j # log) i = results log i"
  "results (Finished t out el # log) i = (if t = Some i then out # results log i else results log i)"
  by (simp_all add: results_def List.map_filter_def)

definition dep_succeeded :: "run_event list \<Rightarrow> nat \<Rightarrow> bool" where
  "dep_succeeded log d \<longleftrightarrow> (\<exists>out. results log d = [out] \<and> po_succeeded out)"

text \<open>Every start in the log comes after a success of each dependency.\<close>

definition trace_ok :: "workflow \<Rightarrow> run_event list \<Rightarrow> bool" where
  "trace_ok w log \<longleftrightarrow>
     (\<forall>before i after. log = before @ Started (Some i) # after \<longrightarrow>
        i < length (tasks w) \<and> (\<forall>d\<in>set (t_dependencies (tasks w ! i)). dep_succeeded before d))"

definition start_ok :: "workflow \<Rightarrow> run_event list \<Rightarrow> run_event \<Rightarrow> bool" where
  "start_ok w log e \<longleftrightarrow>
     (\<forall>i. e = Started (Some i) \<longrightarrow>
        i < length (tasks w) \<and> (\<forall>d\<in>set (t_dependencies (tasks w ! i)). dep_succeeded log d))"

lemma trace_ok_snoc: "trace_ok w (log @ [e]) \<longleftrightarrow> trace_ok w log \<and> start_ok w log e"
proof
  assume ok: "trace_ok w (log @ [e])"
  have "trace_ok w log"
    unfolding trace_ok_def
  proof (intro allI impI)
    fix before i after assume "log = before @ Started (Some i) # after"
    then have "log @ [e] = before @ Started (Some i) # (after @ [e])" by simp
    then show "i < length (tasks w) \<and> (\<forall>d\<in>set (t_dependencies (tasks w ! i)). dep_succeeded before d)"
      using ok unfolding trace_ok_def by blast
  qed
  moreover have "start_ok w log e"
    using ok unfolding trace_ok_def start_ok_def by blast
  ultimately show "trace_ok w log \<and> start_ok w log e" by blast
next
  assume ok: "trace_ok w log \<and> start_ok w log e"
  show "trace_ok w (log @ [e])"
    unfolding trace_ok_def
  proof (intro allI impI)
    fix before i after assume eq: "log @ [e] = before @ Started (Some i) # after"
    show "i < length (tasks w) \<and> (\<forall>d\<in>set (t_dependencies (tasks w ! i)). dep_succeeded before d)"
    proof (cases after rule: rev_cases)
      case Nil
      with eq ok show ?thesis by (simp add: start_ok_def)
    next
      case (snoc after' x)
      with eq have "log = before @ Started (Some i) # after'" by simp
      then show ?thesis using ok unfolding trace_ok_def by blast
    qed
  qed
qed

lemma trace_ok_append_quiet:
  "trace_ok w log \<Longrightarrow> (\<And>e i. e \<in> set es \<Longrightarrow> e \<noteq> Started (Some i)) \<Longrightarrow> trace_ok w (log @ es)"
proof (induction es rule: rev_induct)
  case (snoc e es)
  then have "trace_ok w (log @ es)" by simp
  moreover have "start_ok w (log @ es) e" using snoc.prems(2) by (auto simp: start_ok_def)
  ultimately show ?case using trace_ok_snoc [of w "log @ es" e] by simp
qed simp

subsection \<open>Starting the ready tasks\<close>

definition started_of :: "workflow \<Rightarrow> nat \<Rightarrow> started_task" where
  "started_of w i =
     \<lparr>st_index = i, st_request = t_request (tasks w ! i), st_sandbox = t_sandbox (tasks w ! i)\<rparr>"

definition starts :: "nat list \<Rightarrow> run_event list" where
  "starts is = map (\<lambda>i. Started (Some i)) is"

lemma starts_simps [simp]:
  "starts [] = []"
  "starts (i # is) = Started (Some i) # starts is"
  "starts (is @ js) = starts is @ starts js"
  by (simp_all add: starts_def)

definition set_all :: "task_status \<Rightarrow> nat list \<Rightarrow> execution \<Rightarrow> execution" where
  "set_all v is ex = ex\<lparr>ex_statuses := foldl (\<lambda>ss i. ss[i := v]) (ex_statuses ex) is\<rparr>"

lemma length_foldl_update [simp]: "length (foldl (\<lambda>ss i. ss[i := v]) ss is) = length ss"
  by (induction "is" arbitrary: ss) auto

lemma nth_foldl_update:
  "j < length ss \<Longrightarrow> foldl (\<lambda>ss i. ss[i := v]) ss is ! j = (if j \<in> set is then v else ss ! j)"
  by (induction "is" arbitrary: ss) (auto simp: nth_list_update)

lemma start_each_log:
  assumes "exec_inv ex" and "distinct is" and "\<forall>i\<in>set is. is_ready ex i"
  shows "start_each log_event is ex log =
    (Inr (map (started_of (ex_workflow ex)) is, set_all Running is ex),
     log @ starts is)
    \<and> exec_inv (set_all Running is ex)"
  using assms
proof (induction "is" arbitrary: ex log)
  case Nil
  then show ?case by (simp add: set_all_def)
next
  case (Cons i "is")
  let ?ex = "ex\<lparr>ex_statuses := (ex_statuses ex)[i := Running]\<rparr>"
  have st: "start_task ex i = (Some (tasks (ex_workflow ex) ! i), ?ex)"
    using Cons.prems by (simp add: start_task_iff)
  then have inv: "exec_inv ?ex" using Cons.prems(1) exec.step_inv started by blast
  have i: "status ex i = Pending" "i < length (tasks (ex_workflow ex))"
    using Cons.prems by (auto simp: is_ready_iff [OF Cons.prems(1)])
  have len: "length (ex_statuses ex) = length (tasks (ex_workflow ex))"
    using Cons.prems(1) by (simp add: exec_inv_def)
  have "is_ready ?ex j" if j: "j \<in> set is" for j
  proof -
    have "j \<noteq> i" using Cons.prems(2) j by auto
    moreover have "is_ready ex j" using Cons.prems(3) j by simp
    ultimately have "j < length (tasks (ex_workflow ex))" "status ex j = Pending" "i \<noteq> j"
      "\<forall>d\<in>set (t_dependencies (tasks (ex_workflow ex) ! j)). status ex d = Succeeded"
      by (auto simp: is_ready_iff [OF Cons.prems(1)])
    moreover from this(4) i(1) have "i \<notin> set (t_dependencies (tasks (ex_workflow ex) ! j))" by auto
    ultimately show ?thesis by (simp add: is_ready_iff [OF inv]) (metis nth_list_update_neq)
  qed
  then have ih: "start_each log_event is ?ex (log @ [Started (Some i)]) =
      (Inr (map (started_of (ex_workflow ex)) is, set_all Running is ?ex),
       (log @ [Started (Some i)]) @ starts is)
      \<and> exec_inv (set_all Running is ?ex)"
    using Cons.IH [OF inv] Cons.prems(2) by simp
  have same: "set_all Running is ?ex = set_all Running (i # is) ex" by (simp add: set_all_def)
  show ?case
    using ih unfolding same by (simp add: st sbind_run started_of_def)
qed

lemma ready_facts:
  assumes "exec_inv ex"
  shows "distinct (ready ex)" and "\<forall>i\<in>set (ready ex). is_ready ex i"
    and "set (ready ex) = {i. is_ready ex i}"
  using is_ready_iff [OF assms] by (auto simp: ready_def)

subsection \<open>Recording a round\<close>

lemma record_each_run:
  assumes "exec_inv ex" and "distinct (map fst ps)"
    and "\<forall>i\<in>fst ` set ps. i < length (ex_statuses ex) \<and> status ex i = Running"
  shows "(case record_each ex (map (apfst Some) ps) reads outputs c err of
      Inl e \<Rightarrow> err = Some e \<or> (\<exists>i. (i, Inl e) \<in> set ps)
    | Inr (ex', outputs', c') \<Rightarrow>
        err = None \<and> exec_inv ex' \<and> ex_workflow ex' = ex_workflow ex
        \<and> (\<forall>i r. (i, r) \<in> set ps \<longrightarrow> (\<exists>out. r = Inr out \<and> (i \<in> reads \<longrightarrow> outputs' i = Some out))
              \<and> status ex' i = (if outcome_status r = 0 then Succeeded else Failed))
        \<and> (\<forall>i<length (ex_statuses ex). i \<notin> fst ` set ps \<longrightarrow>
              status ex' i = status ex i \<and> outputs' i = outputs i)
        \<and> (c' = 0 \<longleftrightarrow> c = 0 \<and> (\<forall>(i, r)\<in>set ps. outcome_status r = 0)))"
  using assms
proof (induction ps arbitrary: ex outputs c err)
  case Nil
  then show ?case by (auto split: option.splits)
next
  case (Cons p ps)
  obtain i r where p: "p = (i, r)" by (cases p)
  let ?v = "if outcome_status r = 0 then Succeeded else Failed"
  let ?ex = "ex\<lparr>ex_statuses := (ex_statuses ex)[i := ?v]\<rparr>"
  have i: "i < length (ex_statuses ex)" "status ex i = Running" using Cons.prems(3) p by auto
  then have comp: "complete_task ex i (outcome_status r = 0) = (True, ?ex)"
    by (simp add: complete_task_iff)
  then have inv: "exec_inv ?ex" using Cons.prems(1) exec.step_inv completed by blast
  have i': "i \<notin> fst ` set ps" and dist: "distinct (map fst ps)" using Cons.prems(2) p by auto
  have run: "\<forall>j\<in>fst ` set ps. j < length (ex_statuses ?ex) \<and> status ?ex j = Running"
  proof
    fix j assume j: "j \<in> fst ` set ps"
    with i' have "i \<noteq> j" by auto
    moreover have "j < length (ex_statuses ex) \<and> status ex j = Running" using Cons.prems(3) j by auto
    ultimately show "j < length (ex_statuses ?ex) \<and> status ?ex j = Running" by simp
  qed
  show ?case
  proof (cases r)
    case (Inl e)
    define err' where "err' = (case err of None \<Rightarrow> Some e | Some e' \<Rightarrow> Some e')"
    have step: "record_each ex (map (apfst Some) (p # ps)) reads outputs c err
        = record_each ?ex (map (apfst Some) ps) reads outputs c err'"
      using comp by (simp add: p Inl err'_def)
    have "err' \<noteq> None" "\<forall>x. err' = Some x \<longrightarrow> err = Some x \<or> x = e"
      by (auto simp: err'_def split: option.splits)
    with Cons.IH [OF inv dist run, where outputs = outputs and c = c and err = err'] show ?thesis
      unfolding step by (auto simp: p Inl split: sum.splits prod.splits)
  next
    case (Inr out)
    let ?o = "if i \<in> reads then outputs(i \<mapsto> out) else outputs"
    let ?c = "if outcome_status r \<noteq> 0 \<and> c = 0 then outcome_status r else c"
    have step: "record_each ex (map (apfst Some) (p # ps)) reads outputs c err
        = record_each ?ex (map (apfst Some) ps) reads ?o ?c err"
      using comp by (simp add: p Inr)
    have ih: "(case record_each ?ex (map (apfst Some) ps) reads ?o ?c err of
      Inl e \<Rightarrow> err = Some e \<or> (\<exists>i. (i, Inl e) \<in> set ps)
    | Inr (ex', outputs', c') \<Rightarrow>
        err = None \<and> exec_inv ex' \<and> ex_workflow ex' = ex_workflow ?ex
        \<and> (\<forall>i r. (i, r) \<in> set ps \<longrightarrow> (\<exists>out. r = Inr out \<and> (i \<in> reads \<longrightarrow> outputs' i = Some out))
              \<and> status ex' i = (if outcome_status r = 0 then Succeeded else Failed))
        \<and> (\<forall>j<length (ex_statuses ?ex). j \<notin> fst ` set ps \<longrightarrow>
              status ex' j = status ?ex j \<and> outputs' j = ?o j)
        \<and> (c' = 0 \<longleftrightarrow> ?c = 0 \<and> (\<forall>(i, r)\<in>set ps. outcome_status r = 0)))"
      by (rule Cons.IH [OF inv dist run])
    show ?thesis
    proof (cases "record_each ?ex (map (apfst Some) ps) reads ?o ?c err")
      case (Inl e)
      with ih show ?thesis unfolding step by auto
    next
      case (Inr x)
      obtain ex' outputs' c' where x: "x = (ex', outputs', c')" by (cases x)
      from ih have f: "err = None" "exec_inv ex'" "ex_workflow ex' = ex_workflow ex"
        "\<And>j s. (j, s) \<in> set ps \<Longrightarrow> (\<exists>out. s = Inr out \<and> (j \<in> reads \<longrightarrow> outputs' j = Some out))
              \<and> status ex' j = (if outcome_status s = 0 then Succeeded else Failed)"
        "\<And>j. j < length (ex_statuses ex) \<Longrightarrow> j \<notin> fst ` set ps \<Longrightarrow>
              status ex' j = status ?ex j \<and> outputs' j = ?o j"
        "c' = 0 \<longleftrightarrow> ?c = 0 \<and> (\<forall>(i, r)\<in>set ps. outcome_status r = 0)"
        unfolding Inr x by auto
      have own: "status ex' i = ?v" "outputs' i = ?o i" using f(5) [OF i(1) i'] i(1) by simp_all
      have "(\<exists>out. s = Inr out \<and> (j \<in> reads \<longrightarrow> outputs' j = Some out))
          \<and> status ex' j = (if outcome_status s = 0 then Succeeded else Failed)"
        if "(j, s) \<in> set (p # ps)" for j s
        using that f(4) own p \<open>r = Inr out\<close> by auto
      moreover have "status ex' j = status ex j \<and> outputs' j = outputs j"
        if "j < length (ex_statuses ex)" "j \<notin> fst ` set (p # ps)" for j
        using that f(5) [of j] p by auto
      moreover have "c' = 0 \<longleftrightarrow> c = 0 \<and> (\<forall>(i, r)\<in>set (p # ps). outcome_status r = 0)"
        using f(6) p by auto
      ultimately show ?thesis unfolding step Inr x using f(1-3) by auto
    qed
  qed
qed

subsection \<open>Rendering never waits\<close>

lemma render_text_ok:
  assumes "parse_template x = Inr t"
    and "\<forall>r\<in>set (references t). \<exists>j. index_of w (or_task r) = Some j \<and> outputs j \<noteq> None"
  shows "\<exists>u. render_text w outputs x = Inr u"
proof -
  have "\<forall>r\<in>set (references t). lookup_output w outputs r \<noteq> None"
    using assms(2) by (auto simp: lookup_output_def)
  then have "render (lookup_output w outputs) t = Inr (fill (\<lambda>r. the (lookup_output w outputs r)) t)"
    by (simp add: render_Inr_iff)
  then show ?thesis using assms(1) by (simp add: render_text_def)
qed

lemma job_of_ok:
  assumes "workflow_ok w" and "i < length (tasks w)"
    and "\<forall>j\<in>set (t_reads (tasks w ! i)). outputs j \<noteq> None"
  shows "\<exists>request sandbox. job_of w outputs (started_of w i) = Inr (Some i, request, sandbox)"
proof -
  have "\<forall>x\<in>set (texts (t_request (tasks w ! i))). \<exists>t. parse_template x = Inr t
      \<and> (\<forall>r\<in>set (references t). \<exists>j\<in>set (t_reads (tasks w ! i)). index_of w (or_task r) = Some j)"
    using assms(1,2) nth_mem [of i "tasks w"] by (simp add: workflow_ok_def)
  then have "\<forall>x\<in>set (texts (t_request (tasks w ! i))). \<exists>u. render_text w outputs x = Inr u"
    using assms(3) render_text_ok by metis
  then obtain request where "try_map_texts (render_text w outputs) (t_request (tasks w ! i)) = Inr request"
    using try_map_texts_Inr_iff by blast
  then show ?thesis by (simp add: job_of_def render_request_def started_of_def)
qed

lemma jobs_of_ok:
  assumes "workflow_ok w" and "\<forall>i\<in>set is. i < length (tasks w)
    \<and> (\<forall>j\<in>set (t_reads (tasks w ! i)). outputs j \<noteq> None)"
  shows "\<exists>jobs. traverse (job_of w outputs) (map (started_of w) is) = Inr jobs \<and> map fst jobs = map Some is"
  using assms(2)
proof (induction "is")
  case (Cons i "is")
  then obtain request sandbox jobs
    where "job_of w outputs (started_of w i) = Inr (Some i, request, sandbox)"
      and "traverse (job_of w outputs) (map (started_of w) is) = Inr jobs" "map fst jobs = map Some is"
    using job_of_ok [OF assms(1), of i outputs] by auto
  then show ?case by simp
qed simp

subsection \<open>The invariant between rounds\<close>

definition result_matches :: "run_event list \<Rightarrow> nat \<Rightarrow> task_status \<Rightarrow> bool" where
  "result_matches log i v \<longleftrightarrow>
     (case v of
        Pending \<Rightarrow> results log i = [] \<and> Started (Some i) \<notin> set log
      | Running \<Rightarrow> False
      | Succeeded \<Rightarrow> (\<exists>out. results log i = [out] \<and> po_succeeded out) \<and> count_list log (Started (Some i)) = 1
      | Failed \<Rightarrow> (\<exists>out. results log i = [out] \<and> \<not> po_succeeded out) \<and> count_list log (Started (Some i)) = 1)"

text \<open>No task failed to start, and the ends in the log are ends of tasks of the workflow.\<close>

definition end_ok :: "workflow \<Rightarrow> run_event \<Rightarrow> bool" where
  "end_ok w e \<longleftrightarrow>
     (case e of
        FailedEvent t k el \<Rightarrow> False
      | Finished t out el \<Rightarrow> (\<exists>i<length (tasks w). t = Some i)
      | _ \<Rightarrow> True)"

lemma end_ok_simps [simp]:
  "end_ok w (Started t)" "end_ok w (Output t st l)" "end_ok w (Blocked i)"
  "end_ok w (Finished t out el) \<longleftrightarrow> (\<exists>i<length (tasks w). t = Some i)"
  "\<not> end_ok w (FailedEvent t k el)"
  by (simp_all add: end_ok_def)

definition run_inv :: "workflow \<Rightarrow> run_event list \<Rightarrow> run_state \<Rightarrow> bool" where
  "run_inv w log st \<longleftrightarrow>
     (case st of (ex, outputs, c) \<Rightarrow>
        exec_inv ex \<and> ex_workflow ex = w \<and> trace_ok w log \<and> (\<forall>i. Blocked i \<notin> set log)
        \<and> list_all (end_ok w) log
        \<and> (\<forall>i<length (tasks w). result_matches log i (status ex i))
        \<and> (\<forall>i<length (tasks w). i \<in> read_tasks_of w \<longrightarrow> status ex i \<noteq> Pending \<longrightarrow> outputs i \<noteq> None)
        \<and> (c = 0 \<longleftrightarrow> (\<forall>i<length (tasks w). status ex i \<noteq> Failed)))"

lemma run_inv_start: "workflow_ok w \<Longrightarrow> run_inv w [] (Workflow_execution w, \<lambda>_. None, 0)"
  using Workflow_execution_inv [of w]
  by (simp add: run_inv_def trace_ok_def result_matches_def Workflow_execution_def)

text \<open>The results a batch of messages adds for one task.\<close>

lemma results_events:
  "results (map event_of ms) i =
     List.map_filter (\<lambda>(t, r). if t = Some i then to_option r else None) (outcomes_of ms)"
proof (induction ms)
  case Nil
  then show ?case by (simp add: List.map_filter_def)
next
  case (Cons m ms)
  show ?case
  proof (cases m)
    case (Done t r el)
    then show ?thesis using Cons by (cases r) (auto simp: List.map_filter_def)
  qed (simp add: Cons)
qed

lemma map_filter_unique:
  assumes "distinct (map fst ps)"
  shows "List.map_filter (\<lambda>(t, r). if t = k then f r else None) ps =
    (case map_of ps k of None \<Rightarrow> [] | Some r \<Rightarrow> (case f r of None \<Rightarrow> [] | Some y \<Rightarrow> [y]))"
  using assms
proof (induction ps)
  case (Cons p ps)
  obtain t r where p: "p = (t, r)" by (cases p)
  show ?case
  proof (cases "t = k")
    case True
    then have "map_of ps k = None" using Cons.prems p by (simp add: map_of_eq_None_iff)
    then show ?thesis using Cons p True by (auto simp: List.map_filter_def split: option.splits)
  next
    case False
    then show ?thesis using Cons p by (auto simp: List.map_filter_def)
  qed
qed (simp add: List.map_filter_def)

lemma quiet_messages: "e \<in> set (map event_of ms) \<Longrightarrow> e \<noteq> Started t"
  by (auto split: sum.splits elim: message.exhaust) (metis event_of.simps message.exhaust run_event.distinct(1,3,5,7) sum.case_eq_if)

lemma not_blocked_message: "e \<in> set (map event_of ms) \<Longrightarrow> e \<noteq> Blocked i"
proof (induction ms)
  case (Cons m ms)
  then show ?case by (cases m) (auto split: sum.splits)
qed simp

lemma outcome_of_message: "Done t r el \<in> set ms \<Longrightarrow> (t, r) \<in> set (outcomes_of ms)"
proof (induction ms)
  case (Cons m ms)
  then show ?case by (cases m) auto
qed simp

lemma end_ok_messages:
  assumes "\<And>t r. (t, r) \<in> set (outcomes_of ms) \<Longrightarrow>
    \<exists>i out. t = Some i \<and> i < length (tasks w) \<and> r = Inr out"
  shows "list_all (end_ok w) (map event_of ms)"
  unfolding list_all_iff
proof
  fix e assume "e \<in> set (map event_of ms)"
  then obtain m where m: "m \<in> set ms" "e = event_of m" by auto
  show "end_ok w e"
  proof (cases m)
    case (Done t r el)
    then show ?thesis using assms [OF outcome_of_message [of t r el ms]] m by auto
  qed (simp add: m)
qed

lemma end_ok_starts [simp]: "list_all (end_ok w) (starts is)"
  by (simp add: starts_def list_all_iff)

lemma failed_message:
  "(t, Inl e) \<in> set (outcomes_of ms) \<Longrightarrow> \<exists>el. FailedEvent t (io_kind e) el \<in> set (map event_of ms)"
proof (induction ms)
  case (Cons m ms)
  then show ?case by (cases m) (auto split: sum.splits)
qed simp

subsection \<open>One round\<close>

lemma count_starts:
  "distinct is \<Longrightarrow>
     count_list (starts is) (Started (Some j)) = (if j \<in> set is then 1 else 0)"
  by (induction "is") auto

lemma results_starts [simp]: "results (starts is) i = []"
  by (induction "is") simp_all

lemma results_blocked [simp]: "results (map Blocked is) i = []"
  by (induction "is") simp_all

lemma trace_ok_starts:
  "trace_ok w log \<Longrightarrow> \<forall>i\<in>set is. start_ok w log (Started (Some i)) \<Longrightarrow>
     trace_ok w (log @ starts is)"
proof (induction "is" rule: rev_induct)
  case (snoc i "is")
  then have "trace_ok w (log @ starts is)" by simp
  moreover have "start_ok w (log @ starts is) (Started (Some i))"
    using snoc.prems(2) by (simp add: start_ok_def dep_succeeded_def)
  ultimately show ?case using trace_ok_snoc [of w "log @ starts is"] by simp
qed simp

lemma blocked_log:
  "sforeach (\<lambda>i. log_event (Blocked i)) is log = (Inr (), log @ map Blocked is)"
  by (induction "is" arbitrary: log) simp_all

lemma exec_status_run_inv:
  assumes "run_inv w log (ex, outputs, c)"
  shows "length (ex_statuses ex) = length (tasks w)"
    and "i < length (tasks w) \<Longrightarrow> status ex i \<noteq> Running"
proof -
  show "length (ex_statuses ex) = length (tasks w)"
    using assms by (auto simp: run_inv_def exec_inv_def)
  show "status ex i \<noteq> Running" if "i < length (tasks w)"
  proof
    assume "status ex i = Running"
    moreover have "result_matches log i (status ex i)" using assms that by (simp add: run_inv_def)
    ultimately show False by (simp add: result_matches_def)
  qed
qed

lemma ready_start_ok:
  assumes inv: "run_inv w log (ex, outputs, c)" and ok: "workflow_ok w" and "is_ready ex i"
  shows "start_ok w log (Started (Some i))"
proof -
  have ex: "exec_inv ex" "ex_workflow ex = w" using inv by (simp_all add: run_inv_def)
  have i: "i < length (tasks w)" "\<forall>d\<in>set (t_dependencies (tasks w ! i)). status ex d = Succeeded"
    using assms(3) ex by (simp_all add: is_ready_iff)
  have "dep_succeeded log d" if d: "d \<in> set (t_dependencies (tasks w ! i))" for d
  proof -
    have "d < length (tasks w)" using workflow_ok_dep [OF ok i(1) d] .
    then have "result_matches log d Succeeded" using inv i(2) d by (auto simp: run_inv_def)
    then show ?thesis by (simp add: result_matches_def dep_succeeded_def)
  qed
  then show ?thesis using i(1) by (simp add: start_ok_def)
qed

lemma ready_outputs:
  assumes inv: "run_inv w log (ex, outputs, c)" and ok: "workflow_ok w" and "is_ready ex i"
  shows "i < length (tasks w) \<and> (\<forall>j\<in>set (t_reads (tasks w ! i)). outputs j \<noteq> None)"
proof -
  have ex: "exec_inv ex" "ex_workflow ex = w" using inv by (simp_all add: run_inv_def)
  have i: "i < length (tasks w)" "\<forall>d\<in>set (t_dependencies (tasks w ! i)). status ex d = Succeeded"
    using assms(3) ex by (simp_all add: is_ready_iff)
  have "outputs j \<noteq> None" if j: "j \<in> set (t_reads (tasks w ! i))" for j
  proof -
    have "j \<in> set (t_dependencies (tasks w ! i))"
      using ok i(1) j nth_mem by (fastforce simp: workflow_ok_def)
    then have "j < length (tasks w)" "status ex j = Succeeded" using workflow_ok_dep [OF ok i(1)] i(2) by auto
    moreover have "j \<in> read_tasks_of w" using i(1) j nth_mem by (fastforce simp: read_tasks_of_def)
    ultimately show ?thesis using inv by (simp add: run_inv_def)
  qed
  with i(1) show ?thesis by blast
qed

text \<open>The outcomes of a round, by task.\<close>

lemma sorted_outcomes:
  fixes rs :: "(nat option \<times> outcome) list"
  assumes "mset (map fst rs) = mset (map Some is)"
  shows "\<exists>ps. sort_key (\<lambda>(t, _). task_position t) rs = map (apfst Some) ps \<and> mset (map fst ps) = mset is"
proof -
  define ss where "ss = sort_key (\<lambda>(t, _ :: outcome). task_position t) rs"
  define ps where "ps = map (apfst the) ss"
  have m: "mset (map fst ss) = mset (map Some is)"
    using assms by (simp add: ss_def)
  have "\<forall>p\<in>set ss. \<exists>i. fst p = Some i"
  proof
    fix p assume "p \<in> set ss"
    then have "fst p \<in># mset (map fst ss)" by simp
    then show "\<exists>i. fst p = Some i" unfolding m by auto
  qed
  then have "ss = map (apfst Some) ps"
    by (auto simp: ps_def intro!: map_idI [symmetric])
  moreover have "mset (map Some (map fst ps)) = mset (map Some is)"
    using m calculation by (simp add: comp_def)
  then have "mset (map the (map Some (map fst ps))) = mset (map the (map Some is))"
    by (metis mset_map)
  then have "mset (map fst ps) = mset is" by (simp add: comp_def)
  ultimately show ?thesis by (auto simp: ss_def)
qed

lemma record_round:
  assumes inv: "exec_inv ex1" and m: "mset (map fst rs) = mset (map Some is)" and "distinct is"
    and run: "\<forall>i\<in>set is. i < length (ex_statuses ex1) \<and> status ex1 i = Running"
  shows "(case record_outcomes ex1 rs reads outputs c of
      Inl e \<Rightarrow> \<exists>i. (Some i, Inl e) \<in> set rs
    | Inr (ex', outputs', c') \<Rightarrow>
        exec_inv ex' \<and> ex_workflow ex' = ex_workflow ex1
        \<and> (\<forall>i\<in>set is. \<exists>out. (Some i, Inr out) \<in> set rs \<and> (i \<in> reads \<longrightarrow> outputs' i = Some out)
              \<and> status ex' i = (if po_succeeded out then Succeeded else Failed))
        \<and> (\<forall>i<length (ex_statuses ex1). i \<notin> set is \<longrightarrow>
              status ex' i = status ex1 i \<and> outputs' i = outputs i)
        \<and> (c' = 0 \<longleftrightarrow> c = 0 \<and> (\<forall>i\<in>set is. status ex' i = Succeeded)))"
proof -
  from sorted_outcomes [OF m] obtain ps
    where ps: "sort_key (\<lambda>(t, _). task_position t) rs = map (apfst Some) ps"
      and mps: "mset (map fst ps) = mset is" by blast
  have dist: "distinct (map fst ps)" using mps \<open>distinct is\<close> by (metis mset_eq_imp_distinct_iff)
  have set_is: "fst ` set ps = set is" using mps by (metis list.set_map set_mset_mset)
  have mem: "(Some i, r) \<in> set rs" if "(i, r) \<in> set ps" for i r
  proof -
    have "(Some i, r) \<in> set (map (apfst Some) ps)" using that by force
    then have "(Some i, r) \<in> set (sort_key (\<lambda>(t, _). task_position t) rs)" by (simp only: ps)
    then show ?thesis by simp
  qed
  have code: "outcome_status (Inr out) = 0 \<longleftrightarrow> po_succeeded out" for out
    by (auto simp: outcome_status_def po_succeeded_def split: option.splits)
  have rec: "record_outcomes ex1 rs reads outputs c
      = record_each ex1 (map (apfst Some) ps) reads outputs c None"
    by (simp add: record_outcomes_def ps)
  note each = record_each_run [OF inv dist, where reads = reads and outputs = outputs and c = c and err = None, unfolded set_is, OF run]
  show ?thesis
  proof (cases "record_outcomes ex1 rs reads outputs c")
    case (Inl e)
    from each obtain i where "(i, Inl e) \<in> set ps" unfolding rec [symmetric] Inl by auto
    then show ?thesis unfolding Inl using mem by auto
  next
    case (Inr x)
    obtain ex' outputs' c' where x: "x = (ex', outputs', c')" by (cases x)
    from each have f: "exec_inv ex'" "ex_workflow ex' = ex_workflow ex1"
      "\<And>i r. (i, r) \<in> set ps \<Longrightarrow> (\<exists>out. r = Inr out \<and> (i \<in> reads \<longrightarrow> outputs' i = Some out))
            \<and> status ex' i = (if outcome_status r = 0 then Succeeded else Failed)"
      "\<And>i. i < length (ex_statuses ex1) \<Longrightarrow> i \<notin> set is \<Longrightarrow>
            status ex' i = status ex1 i \<and> outputs' i = outputs i"
      "c' = 0 \<longleftrightarrow> c = 0 \<and> (\<forall>(i, r)\<in>set ps. outcome_status r = 0)"
      unfolding rec [symmetric] Inr x by auto
    have own: "\<exists>out. (Some i, Inr out) \<in> set rs \<and> (i \<in> reads \<longrightarrow> outputs' i = Some out)
          \<and> status ex' i = (if po_succeeded out then Succeeded else Failed)"
      if "i \<in> set is" for i
    proof -
      from that set_is obtain r where r: "(i, r) \<in> set ps" by force
      from f(3) [OF r] obtain out where out: "r = Inr out" "i \<in> reads \<longrightarrow> outputs' i = Some out"
        "status ex' i = (if outcome_status r = 0 then Succeeded else Failed)" by blast
      with mem [OF r] show ?thesis by (auto simp: code)
    qed
    have "(\<forall>(i, r)\<in>set ps. outcome_status r = 0) \<longleftrightarrow> (\<forall>i\<in>fst ` set ps. status ex' i = Succeeded)"
      using f(3) by (fastforce split: if_splits)
    then have "c' = 0 \<longleftrightarrow> c = 0 \<and> (\<forall>i\<in>set is. status ex' i = Succeeded)"
      using f(5) by (simp only: set_is)
    with f(1,2,4) own show ?thesis unfolding Inr x by auto
  qed
qed

definition round_post :: "workflow \<Rightarrow> run_event list \<Rightarrow> run_state \<Rightarrow> (io_error + round_end) \<times> run_event list \<Rightarrow> bool" where
  "round_post w log st res \<longleftrightarrow>
     (case res of
        (Inl e, log') \<Rightarrow> trace_ok w log' \<and> (\<exists>t el. FailedEvent t (io_kind e) el \<in> set log')
      | (Inr (Stop c), log') \<Rightarrow>
          c = snd (snd st) \<and> ready (fst st) = [] \<and> log' = log @ map Blocked (pending (fst st))
      | (Inr (Continue st'), log') \<Rightarrow> run_inv w log' st')"

lemma distinct_mset_map_fst:
  "mset (map fst rs) = mset (map Some is) \<Longrightarrow> distinct is \<Longrightarrow> distinct (map fst rs)"
  by (metis distinct_map inj_Some mset_eq_imp_distinct_iff subset_UNIV inj_on_subset)

lemma count_quiet: "count_list (map event_of ms) (Started t) = 0"
  using quiet_messages [of "Started t" ms t] by (auto simp: count_list_0_iff)

lemma quiet_matches:
  assumes "result_matches log i v" and "i \<notin> set batch" and "results (map event_of ms) i = []"
  shows "result_matches ((log @ starts batch) @ map event_of ms) i v"
proof -
  have "Started (Some i) \<notin> set (map event_of ms)" using quiet_messages by blast
  moreover have "Started (Some i) \<notin> set (starts batch)" using assms(2) by (auto simp: starts_def)
  moreover have "count_list (starts batch) (Started (Some i)) = 0"
    using calculation(2) by (simp add: count_list_0_iff)
  ultimately show ?thesis
    using assms by (auto simp: result_matches_def count_quiet split: task_status.splits)
qed

lemma finish_matches:
  assumes "result_matches log i Pending" and "i \<in> set batch" and "distinct batch"
    and "results (map event_of ms) i = [out]"
  shows "result_matches ((log @ starts batch) @ map event_of ms) i
    (if po_succeeded out then Succeeded else Failed)"
  using assms count_starts [OF assms(3), of i]
  by (simp add: result_matches_def count_quiet count_list_0_iff)

lemma run_round_post:
  assumes ok: "workflow_ok w" and arr: "arrives arrivals" and inv: "run_inv w log (ex, outputs, c)"
  shows "round_post w log (ex, outputs, c) (run_round arrivals log_event w (ex, outputs, c) log)"
proof -
  have ex: "exec_inv ex" "ex_workflow ex = w" "trace_ok w log" using inv by (simp_all add: run_inv_def)
  define batch where "batch = ready ex"
  have "distinct batch" and rdy: "\<forall>i\<in>set batch. is_ready ex i"
    using ready_facts [OF ex(1)] by (simp_all add: batch_def)
  define ex1 where "ex1 = set_all Running batch ex"
  have start: "start_ready_tasks log_event ex log = (Inr (map (started_of w) batch, ex1), log @ starts batch)"
    and inv1: "exec_inv ex1"
    using start_each_log [OF ex(1) \<open>distinct batch\<close> rdy] ex(2)
    by (simp_all add: start_ready_tasks_def batch_def ex1_def)
  show ?thesis
  proof (cases "batch = []")
    case True
    then have "run_round arrivals log_event w (ex, outputs, c) log
        = (Inr (Stop c), log @ map Blocked (pending ex))"
      using start by (simp add: run_round_def sbind_run [where a = "start_ready_tasks log_event ex"]
          sbind_run [OF blocked_log] ex1_def set_all_def)
    then show ?thesis using True by (simp add: round_post_def batch_def)
  next
    case False
    have idx: "\<forall>i\<in>set batch. i < length (tasks w) \<and> (\<forall>j\<in>set (t_reads (tasks w ! i)). outputs j \<noteq> None)"
      using ready_outputs [OF inv ok] rdy by blast
    from jobs_of_ok [OF ok idx] obtain jobs
      where jobs: "traverse (job_of w outputs) (map (started_of w) batch) = Inr jobs"
        and fst_jobs: "map fst jobs = map Some batch" by blast
    define ms where "ms = arrivals jobs"
    define log1 where "log1 = (log @ starts batch) @ map event_of ms"
    have m: "mset (map fst (outcomes_of ms)) = mset (map Some batch)"
      using arrivals_outcomes [OF arr, of jobs] by (simp add: ms_def fst_jobs)
    have recv: "run_requests_concurrently arrivals jobs log_event (log @ starts batch)
        = (Inr (outcomes_of ms), log1)"
      by (simp add: run_requests_concurrently_def receive_log ms_def log1_def)
    define r where "r = record_outcomes ex1 (outcomes_of ms) (read_tasks_of w) outputs c"
    have round: "run_round arrivals log_event w (ex, outputs, c) log
        = (map_sum id Continue r, log1)"
      using start False jobs recv
      by (cases r) (simp_all add: run_round_def r_def [symmetric] sbind_def)
    have len: "length (ex_statuses ex) = length (tasks w)" by (rule exec_status_run_inv(1) [OF inv])
    have st1: "status ex1 i = (if i \<in> set batch then Running else status ex i)" if "i < length (tasks w)" for i
      using that len by (simp add: ex1_def set_all_def nth_foldl_update)
    have run: "\<forall>i\<in>set batch. i < length (ex_statuses ex1) \<and> status ex1 i = Running"
      using idx st1 len by (simp add: ex1_def set_all_def nth_foldl_update)
    note rec = record_round [OF inv1 m \<open>distinct batch\<close> run, where reads = "read_tasks_of w" and outputs = outputs and c = c, folded r_def]
    have trace: "trace_ok w log1"
      unfolding log1_def
      by (intro trace_ok_append_quiet trace_ok_starts ex(3) ballI ready_start_ok [OF inv ok])
        (use rdy quiet_messages in blast)+
    show ?thesis
    proof (cases r)
      case (Inl e)
      with rec obtain i where "(Some i, Inl e) \<in> set (outcomes_of ms)" by auto
      then have "\<exists>t el. FailedEvent t (io_kind e) el \<in> set log1"
        using failed_message by (fastforce simp: log1_def)
      then show ?thesis using trace by (simp add: round Inl round_post_def)
    next
      case (Inr x)
      obtain ex' outputs' c' where x: "x = (ex', outputs', c')" by (cases x)
      from rec have f: "exec_inv ex'" "ex_workflow ex' = ex_workflow ex1"
        "\<And>i. i \<in> set batch \<Longrightarrow> \<exists>out. (Some i, Inr out) \<in> set (outcomes_of ms)
            \<and> (i \<in> read_tasks_of w \<longrightarrow> outputs' i = Some out)
            \<and> status ex' i = (if po_succeeded out then Succeeded else Failed)"
        "\<And>i. i < length (ex_statuses ex1) \<Longrightarrow> i \<notin> set batch \<Longrightarrow>
            status ex' i = status ex1 i \<and> outputs' i = outputs i"
        "c' = 0 \<longleftrightarrow> c = 0 \<and> (\<forall>i\<in>set batch. status ex' i = Succeeded)"
        unfolding Inr x by auto
      have len1: "length (ex_statuses ex1) = length (tasks w)" using len by (simp add: ex1_def set_all_def)
      have dist: "distinct (map fst (outcomes_of ms))"
        by (rule distinct_mset_map_fst [OF m \<open>distinct batch\<close>])
      have set_m: "fst ` set (outcomes_of ms) = Some ` set batch"
        using m by (metis list.set_map set_mset_mset)
      have old: "status ex' i = status ex i \<and> outputs' i = outputs i"
        if "i < length (tasks w)" "i \<notin> set batch" for i
        using f(4) [of i] st1 that len1 by simp
      have pend: "status ex i = Pending" if "i \<in> set batch" for i
        using rdy that by (simp add: is_ready_iff [OF ex(1)])
      have "result_matches log1 i (status ex' i)" if i: "i < length (tasks w)" for i
      proof (cases "i \<in> set batch")
        case True
        then obtain out where out: "(Some i, Inr out) \<in> set (outcomes_of ms)"
          "status ex' i = (if po_succeeded out then Succeeded else Failed)" using f(3) by blast
        then have "map_of (outcomes_of ms) (Some i) = Some (Inr out)" using dist by simp
        then have "results (map event_of ms) i = [out]"
          unfolding results_events map_filter_unique [OF dist] by simp
        moreover have "result_matches log i Pending" using inv i pend [OF True] by (auto simp: run_inv_def)
        ultimately show ?thesis
          using finish_matches [of log i batch ms out] \<open>distinct batch\<close> True out(2)
          by (simp add: log1_def)
      next
        case False
        then have "map_of (outcomes_of ms) (Some i) = None"
          using set_m by (auto simp: map_of_eq_None_iff)
        then have "results (map event_of ms) i = []"
          unfolding results_events map_filter_unique [OF dist] by simp
        moreover have "result_matches log i (status ex i)" using inv i by (simp add: run_inv_def)
        ultimately show ?thesis
          using old [OF i False] False quiet_matches [of log i "status ex i" batch ms]
          by (simp add: log1_def)
      qed
      moreover have "outputs' i \<noteq> None"
        if "i < length (tasks w)" "i \<in> read_tasks_of w" "status ex' i \<noteq> Pending" for i
      proof (cases "i \<in> set batch")
        case True
        with f(3) [OF True] that(2) show ?thesis by auto
      next
        case False
        with old [OF that(1) False] inv that show ?thesis by (simp add: run_inv_def)
      qed
      moreover have "c' = 0 \<longleftrightarrow> (\<forall>i<length (tasks w). status ex' i \<noteq> Failed)"
      proof -
        have "c = 0 \<longleftrightarrow> (\<forall>i<length (tasks w). status ex i \<noteq> Failed)" using inv by (simp add: run_inv_def)
        also have "\<dots> \<longleftrightarrow> (\<forall>i<length (tasks w). i \<notin> set batch \<longrightarrow> status ex' i \<noteq> Failed)"
          using old pend by fastforce
        finally have "c' = 0 \<longleftrightarrow> (\<forall>i<length (tasks w). i \<notin> set batch \<longrightarrow> status ex' i \<noteq> Failed)
            \<and> (\<forall>i\<in>set batch. status ex' i = Succeeded)" using f(5) by simp
        moreover have "status ex' i = Succeeded \<longleftrightarrow> status ex' i \<noteq> Failed" if "i \<in> set batch" for i
          using f(3) [OF that] by (auto split: if_splits)
        ultimately show ?thesis using idx by blast
      qed
      moreover have "Blocked i \<notin> set log1" for i
        using inv not_blocked_message [of "Blocked i" ms i]
        by (auto simp: log1_def run_inv_def starts_def)
      moreover have "list_all (end_ok w) log1"
      proof -
        have "\<exists>i out. t = Some i \<and> i < length (tasks w) \<and> r = Inr out"
          if tr: "(t, r) \<in> set (outcomes_of ms)" for t r
        proof -
          from tr have "t \<in> Some ` set batch" using set_m by (metis fst_conv image_eqI)
          then obtain i where i: "t = Some i" "i \<in> set batch" by blast
          with f(3) [OF i(2)] obtain out where "(Some i, Inr out) \<in> set (outcomes_of ms)" by blast
          with tr i dist have "r = Inr out" using eq_key_imp_eq_value by metis
          with i idx show ?thesis by blast
        qed
        then show ?thesis using inv end_ok_messages [of ms w] by (auto simp: log1_def run_inv_def)
      qed
      ultimately have "run_inv w log1 (ex', outputs', c')"
        using f(1,2) ex(2) trace by (simp add: run_inv_def ex1_def set_all_def)
      then show ?thesis by (simp add: round Inr x round_post_def)
    qed
  qed
qed

subsection \<open>The whole run\<close>

definition run_ends :: "workflow \<Rightarrow> (io_error + int) \<times> run_event list \<Rightarrow> bool" where
  "run_ends w res \<longleftrightarrow>
     (case res of
        (Inl e, log') \<Rightarrow> trace_ok w log' \<and> (\<exists>t el. FailedEvent t (io_kind e) el \<in> set log')
      | (Inr c, log') \<Rightarrow>
          \<exists>log ex outputs. run_inv w log (ex, outputs, c) \<and> ready ex = []
            \<and> log' = log @ map Blocked (pending ex))"

lemma run_loop_ends:
  assumes ok: "workflow_ok w" and arr: "arrives arrivals"
  shows "run_inv w log st \<Longrightarrow> run_ends w (run_loop arrivals log_event w st log)"
proof (induction "pending_count (fst st)" arbitrary: st log rule: less_induct)
  case less
  obtain ex outputs c where st: "st = (ex, outputs, c)" by (cases st)
  show ?case
  proof (cases "has_pending ex")
    case False
    then have none: "pending ex = []" by (simp add: has_pending_iff)
    have "ready ex = []"
      using less.prems none pending_iff [of _ ex] is_ready_iff [of ex]
      by (auto simp: st run_inv_def ready_def filter_empty_conv exec_inv_def)
    with False none less.prems show ?thesis
      by (auto simp: st run_loop.simps [of _ _ _ "(ex, outputs, c)"] run_ends_def)
  next
    case True
    obtain res log1 where round: "run_round arrivals log_event w (ex, outputs, c) log = (res, log1)"
      by (cases "run_round arrivals log_event w (ex, outputs, c) log")
    have post: "round_post w log (ex, outputs, c) (res, log1)"
      using run_round_post [OF ok arr less.prems [unfolded st]] round by simp
    show ?thesis
    proof (cases res)
      case (Inl e)
      with True round post show ?thesis
        by (simp add: st run_loop.simps [of _ _ _ "(ex, outputs, c)"] run_ends_def round_post_def)
    next
      case (Inr rend)
      show ?thesis
      proof (cases rend)
        case (Stop c')
        with Inr True round post less.prems show ?thesis
          by (auto simp: st run_loop.simps [of _ _ _ "(ex, outputs, c)"] run_ends_def round_post_def)
      next
        case (Continue st')
        obtain ex' outputs' c' where st': "st' = (ex', outputs', c')" by (cases st')
        have "pending_count ex' < pending_count ex"
          by (rule run_round_pending) (use round Inr Continue st' in simp)
        moreover have "run_inv w log1 st'" using post Inr Continue by (simp add: round_post_def)
        ultimately have "run_ends w (run_loop arrivals log_event w st' log1)"
          using less.hyps [of st' log1] by (simp add: st st')
        then show ?thesis
          using True round Inr Continue by (simp add: st run_loop.simps [of _ _ _ "(ex, outputs, c)"])
      qed
    qed
  qed
qed

lemma run_workflow_ends:
  "workflow_ok w \<Longrightarrow> arrives arrivals \<Longrightarrow> run_ends w (run_workflow arrivals w log_event [])"
  unfolding run_workflow_def by (rule run_loop_ends) (auto intro: run_inv_start)

lemma run_inv_no_running: "run_inv w log (ex, outputs, c) \<Longrightarrow> Running \<notin> set (ex_statuses ex)"
  using exec_status_run_inv [of w log ex outputs c] by (auto simp: in_set_conv_nth)

lemma run_inv_blocked_failed:
  assumes inv: "run_inv w log (ex, outputs, c)" and "ready ex = []" and "i \<in> set (pending ex)"
  shows "\<exists>d. (i, d) \<in> (edges (map t_dependencies (tasks w)))\<^sup>+ \<and> d < length (tasks w)
    \<and> (\<exists>out. results log d = [out] \<and> \<not> po_succeeded out)"
proof -
  have ex: "exec_inv ex" "ex_workflow ex = w" using inv by (simp_all add: run_inv_def)
  obtain d where d: "(i, d) \<in> (edges (map t_dependencies (tasks w)))\<^sup>+" "d < length (tasks w)"
    "status ex d = Failed"
    using stuck_has_failure [OF ex(1) assms(3,2) run_inv_no_running [OF inv]] ex(2)
      exec_status_run_inv(1) [OF inv] by auto
  then have "result_matches log d Failed" using inv by (auto simp: run_inv_def)
  then show ?thesis using d by (auto simp: result_matches_def)
qed

lemma run_inv_status:
  assumes inv: "run_inv w log (ex, outputs, c)" and "ready ex = []"
  shows "c = 0 \<longleftrightarrow> (\<forall>i<length (tasks w). dep_succeeded log i)"
proof
  have matches: "result_matches log i (status ex i)" if "i < length (tasks w)" for i
    using inv that by (simp add: run_inv_def)
  have zero: "c = 0 \<longleftrightarrow> (\<forall>i<length (tasks w). status ex i \<noteq> Failed)" using inv by (simp add: run_inv_def)
  {
    assume "c = 0"
    show "\<forall>i<length (tasks w). dep_succeeded log i"
    proof (intro allI impI)
      fix i assume i: "i < length (tasks w)"
      have "status ex i \<noteq> Pending"
      proof
        assume "status ex i = Pending"
        then have "i \<in> set (pending ex)" using i exec_status_run_inv(1) [OF inv] by (simp add: pending_iff)
        then obtain d where "d < length (tasks w)" "\<exists>out. results log d = [out] \<and> \<not> po_succeeded out"
          using run_inv_blocked_failed [OF inv assms(2)] by blast
        with matches [of d] have "status ex d = Failed"
          by (auto simp: result_matches_def split: task_status.splits)
        with \<open>c = 0\<close> zero \<open>d < length (tasks w)\<close> show False by blast
      qed
      then have "status ex i = Succeeded"
        using i \<open>c = 0\<close> zero exec_status_run_inv(2) [OF inv i] by (cases "status ex i") auto
      with matches [OF i] show "dep_succeeded log i" by (simp add: result_matches_def dep_succeeded_def)
    qed
  next
    assume all: "\<forall>i<length (tasks w). dep_succeeded log i"
    have "status ex i \<noteq> Failed" if "i < length (tasks w)" for i
      using matches [OF that] all that by (auto simp: result_matches_def dep_succeeded_def)
    then show "c = 0" using zero by blast
  }
qed

subsection \<open>Properties\<close>

definition all_succeed :: arrivals where
  "all_succeed = in_order (\<lambda>_. Inr \<lparr>po_stdout = ''out'', po_stderr = [], po_status = Some 0\<rparr>)"

definition all_fail :: arrivals where
  "all_fail = in_order (\<lambda>_. Inr \<lparr>po_stdout = [], po_stderr = [], po_status = Some 3\<rparr>)"

definition all_missing :: arrivals where
  "all_missing = in_order (\<lambda>_. Inl (IoError ''NotFound'' ''no such program''))"

definition demo_output :: "int \<Rightarrow> string \<Rightarrow> process_output" where
  "demo_output c out = \<lparr>po_stdout = out, po_stderr = [], po_status = Some c\<rparr>"

definition demo_log :: "run_event list" where
  "demo_log =
     [Started (Some 0), Finished (Some 0) (demo_output 0 ''out'') 0,
      Started (Some 1), Finished (Some 1) (demo_output 0 ''out'') 0]"

lemma demo_runs:
  "run_workflow all_succeed demo_workflow log_event [] = (Inr 0, demo_log)"
  "run_workflow all_fail demo_workflow log_event []
   = (Inr 3, [Started (Some 0), Finished (Some 0) (demo_output 3 []) 0, Blocked 1])"
  "run_workflow all_missing demo_workflow log_event []
   = (Inl (IoError ''NotFound'' ''no such program''),
      [Started (Some 0), FailedEvent (Some 0) ''NotFound'' 0])"
  by code_simp+

lemma demo_arrives: "arrives all_succeed" "arrives all_fail" "arrives all_missing"
  by (simp_all add: all_succeed_def all_fail_def all_missing_def in_order_arrives)

text \<open>C5. For a workflow that validation accepts, however the threads interleave, every task starts
  only after each of its dependencies has one result in the log and that result is a success.\<close>

theorem run_starts_after_dependencies:
  assumes "Workflow_try_from defs = Inr w" and "arrives arrivals"
    and "run_workflow arrivals w log_event [] = (r, log)"
    and "log = before @ Started (Some i) # after"
  shows "\<forall>d\<in>set (t_dependencies (tasks w ! i)). dep_succeeded before d"
proof -
  have "workflow_ok w" using Workflow_try_from_builds [OF assms(1)] represents_workflow_ok by blast
  then have "run_ends w (r, log)" using run_workflow_ends assms(2,3) by metis
  then have "trace_ok w log"
  proof (cases r)
    case (Inr c)
    then obtain log0 ex outputs where "run_inv w log0 (ex, outputs, c)" "log = log0 @ map Blocked (pending ex)"
      using \<open>run_ends w (r, log)\<close> by (auto simp: run_ends_def)
    then show ?thesis by (auto simp: run_inv_def intro!: trace_ok_append_quiet)
  qed (simp add: run_ends_def)
  then show ?thesis using assms(4) unfolding trace_ok_def by blast
qed

theorem run_starts_after_dependencies_witness:
  "dep_succeeded [Started (Some 0), Finished (Some 0) (demo_output 0 ''out'') 0] 0"
proof -
  have "\<forall>d\<in>set (t_dependencies (tasks demo_workflow ! 1)).
      dep_succeeded [Started (Some 0), Finished (Some 0) (demo_output 0 ''out'') 0] d"
    by (rule run_starts_after_dependencies [OF demo_try_from demo_arrives(1) demo_runs(1),
          where after = "[Finished (Some 1) (demo_output 0 ''out'') 0]"])
      (simp add: demo_log_def)
  then show ?thesis by (simp add: demo_workflow_def)
qed

text \<open>C6. The exit status of a workflow is zero exactly when every task ran once and succeeded.\<close>

theorem run_status_zero_iff_all_succeed:
  assumes "Workflow_try_from defs = Inr w" and "arrives arrivals"
    and "run_workflow arrivals w log_event [] = (Inr c, log)"
  shows "c = 0 \<longleftrightarrow> (\<forall>i<length (tasks w). \<exists>out. results log i = [out] \<and> po_succeeded out)"
proof -
  have "workflow_ok w" using Workflow_try_from_builds [OF assms(1)] represents_workflow_ok by blast
  then have "run_ends w (Inr c, log)" using run_workflow_ends assms(2,3) by metis
  then obtain log0 ex outputs where "run_inv w log0 (ex, outputs, c)" "ready ex = []"
    and "log = log0 @ map Blocked (pending ex)"
    by (auto simp: run_ends_def)
  then show ?thesis using run_inv_status by (simp add: dep_succeeded_def)
qed

theorem run_status_zero_iff_all_succeed_witness:
  "\<exists>out. results demo_log 1 = [out] \<and> po_succeeded out"
proof -
  have "\<forall>i<length (tasks demo_workflow). \<exists>out. results demo_log i = [out] \<and> po_succeeded out"
    using run_status_zero_iff_all_succeed [OF demo_try_from demo_arrives(1) demo_runs(1)] by simp
  then show ?thesis by (simp add: demo_workflow_def)
qed

text \<open>C7. When a run returns a status, a task is reported blocked exactly when it never started, and
  then a task it depends on, directly or through others, ran and failed.\<close>

theorem blocked_tasks_have_failed_dependency:
  assumes "Workflow_try_from defs = Inr w" and "arrives arrivals"
    and "run_workflow arrivals w log_event [] = (Inr c, log)" and "i < length (tasks w)"
  shows "(Blocked i \<in> set log \<longleftrightarrow> Started (Some i) \<notin> set log)
    \<and> (Blocked i \<in> set log \<longrightarrow>
        (\<exists>d. (i, d) \<in> (edges (map t_dependencies (tasks w)))\<^sup>+
           \<and> (\<exists>out. results log d = [out] \<and> \<not> po_succeeded out)))"
proof -
  have "workflow_ok w" using Workflow_try_from_builds [OF assms(1)] represents_workflow_ok by blast
  then have "run_ends w (Inr c, log)" using run_workflow_ends assms(2,3) by metis
  then obtain log0 ex outputs where inv: "run_inv w log0 (ex, outputs, c)" and r: "ready ex = []"
    and log: "log = log0 @ map Blocked (pending ex)"
    by (auto simp: run_ends_def)
  have matches: "result_matches log0 i (status ex i)" using inv assms(4) by (simp add: run_inv_def)
  have blocked: "Blocked i \<in> set log \<longleftrightarrow> i \<in> set (pending ex)"
    using inv by (auto simp: log run_inv_def)
  have "Started (Some i) \<in> set log \<longleftrightarrow> status ex i \<noteq> Pending"
  proof -
    have "Started (Some i) \<in> set log \<longleftrightarrow> Started (Some i) \<in> set log0" by (auto simp: log)
    also have "\<dots> \<longleftrightarrow> status ex i \<noteq> Pending"
      using matches count_list_0_iff [of log0 "Started (Some i)"]
      by (auto simp: result_matches_def split: task_status.splits)
    finally show ?thesis .
  qed
  then show ?thesis
    using blocked run_inv_blocked_failed [OF inv r, of i] exec_status_run_inv(1) [OF inv] assms(4)
    by (auto simp: pending_iff log)
qed

theorem blocked_tasks_have_failed_dependency_witness:
  "\<exists>d. (1, d) \<in> (edges (map t_dependencies (tasks demo_workflow)))\<^sup>+
     \<and> (\<exists>out. results [Started (Some 0), Finished (Some 0) (demo_output 3 []) 0, Blocked 1] d = [out]
            \<and> \<not> po_succeeded out)"
  using blocked_tasks_have_failed_dependency [OF demo_try_from demo_arrives(2) demo_runs(2), of 1]
  by (simp add: demo_workflow_def)

text \<open>C8. A run of a validated workflow fails with an error only when a process could not run: the error
  is that of a task the log reports as failed. It never fails for a placeholder without an output, a
  task that is not ready, or a task that is not running.\<close>

theorem run_error_is_process_error:
  assumes "Workflow_try_from defs = Inr w" and "arrives arrivals"
    and "run_workflow arrivals w log_event [] = (Inl e, log)"
  shows "\<exists>t el. FailedEvent t (io_kind e) el \<in> set log"
proof -
  have "workflow_ok w" using Workflow_try_from_builds [OF assms(1)] represents_workflow_ok by blast
  then have "run_ends w (Inl e, log)" using run_workflow_ends assms(2,3) by metis
  then show ?thesis by (simp add: run_ends_def)
qed

theorem run_error_is_process_error_witness:
  "\<exists>t el. FailedEvent t ''NotFound'' el
     \<in> set [Started (Some 0), FailedEvent (Some 0) ''NotFound'' 0]"
  using run_error_is_process_error [OF demo_try_from demo_arrives(3) demo_runs(3)] by simp

text \<open>The order in which the tasks of a round finish does not matter: the next execution, the
  captured outputs, the exit status and the error are those of any other order.\<close>

theorem record_outcomes_order_irrelevant:
  assumes "mset outcomes = mset outcomes'" and "distinct (map fst outcomes)"
    and "\<forall>p\<in>set outcomes. fst p \<noteq> None"
  shows "record_outcomes ex outcomes reads outputs c = record_outcomes ex outcomes' reads outputs c"
proof -
  let ?key = "\<lambda>(t, _ :: outcome). task_position t"
  have inj: "inj_on ?key (set outcomes)"
  proof (rule inj_onI)
    fix p q assume pq: "p \<in> set outcomes" "q \<in> set outcomes" "?key p = ?key q"
    then have "fst p \<noteq> None" "fst q \<noteq> None" using assms(3) by blast+
    then have "fst p = fst q"
      using pq(3) by (cases "fst p"; cases "fst q") (simp_all add: task_position_def case_prod_unfold)
    then show "p = q" using pq(1,2) assms(2) by (metis distinct_map inj_onD)
  qed
  have "sort_key ?key outcomes = sort_key ?key outcomes'"
    by (rule sort_key_inj_key_eq) (use assms(1) inj in simp_all)
  then show ?thesis by (simp add: record_outcomes_def)
qed

theorem record_outcomes_order_irrelevant_witness:
  "record_outcomes (Workflow_execution demo_workflow)
     [(Some 1, Inr (demo_output 2 [])), (Some 0, Inr (demo_output 1 []))] {} (\<lambda>_. None) 0
   = record_outcomes (Workflow_execution demo_workflow)
     [(Some 0, Inr (demo_output 1 [])), (Some 1, Inr (demo_output 2 []))] {} (\<lambda>_. None) 0"
  by (rule record_outcomes_order_irrelevant) simp_all

end
