(* ===== verification/Run_Log.thy ===== *)
theory Run_Log
  imports Runner_Trace Schedule
begin

text \<open>
  \<open>beez-record/src\<close>: the artifacts of one run. The lines of \<open>run.log\<close>, the bytes of each stream and
  the record of the run are part of the state; a file that cannot be created or written is the
  parameter \<open>fails\<close>, which gives the error of a path. Durations stay in nanoseconds.

  The formats of chrono, of floating-point numbers and of error kinds, and the removal of colours, are
  the record \<open>formats\<close>.
\<close>

record formats =
  f_format :: "instant \<Rightarrow> string \<Rightarrow> string"
  f_seconds :: "nat \<Rightarrow> string"
  f_kind :: "string \<Rightarrow> string"
  f_strip :: "string \<Rightarrow> string"

text \<open>\<open>f_format time pattern\<close> is \<open>DateTime::<Utc>::from(time).format(pattern)\<close>.\<close>

definition utc :: "formats \<Rightarrow> instant \<Rightarrow> string" where
  "utc fm time = f_format fm time ''%Y-%m-%dT%H:%M:%S%.3fZ''"

definition compact_utc :: "formats \<Rightarrow> instant \<Rightarrow> string" where
  "compact_utc fm time = f_format fm time ''%Y%m%dT%H%M%S%3fZ''"

subsection \<open>Lines\<close>

definition VERB_WIDTH :: nat where "VERB_WIDTH = 8"

definition STDOUT_MARK :: string where
  "STDOUT_MARK = map char_of [226, 148, 130 :: nat]"

definition STDERR_MARK :: string where
  "STDERR_MARK = map char_of [226, 148, 138 :: nat]"

definition status_line :: "string \<Rightarrow> string \<Rightarrow> string" where
  "status_line verb message = pad_right VERB_WIDTH verb @ ''  '' @ message"

definition stamped_status_line :: "formats \<Rightarrow> instant \<Rightarrow> string \<Rightarrow> string \<Rightarrow> string" where
  "stamped_status_line fm time verb message = utc fm time @ '' '' @ status_line verb message"

primrec stream_mark :: "output_stream \<Rightarrow> string" where
  "stream_mark StdoutStream = STDOUT_MARK"
| "stream_mark StderrStream = STDERR_MARK"

record labels =
  lb_labels :: "string list"
  lb_width :: nat

definition Labels_new :: "string list \<Rightarrow> labels" where
  "Labels_new ls = \<lparr>lb_labels = ls, lb_width = fold max (map length ls) 0\<rparr>"

definition labels_get :: "labels \<Rightarrow> nat \<Rightarrow> string" where
  "labels_get ls i = (case get_at (lb_labels ls) i of Some l \<Rightarrow> l | None \<Rightarrow> dec i)"

definition trim_newline :: "string \<Rightarrow> string" where
  "trim_newline line =
     (let line = (case strip_suffix [newline] line of Some l \<Rightarrow> l | None \<Rightarrow> line) in
      case strip_suffix [CHR 0x0D] line of Some l \<Rightarrow> l | None \<Rightarrow> line)"

definition int_text :: "int \<Rightarrow> string" where
  "int_text i = (if i < 0 then ''-'' @ dec (nat (- i)) else dec (nat i))"

definition status_text :: "int option \<Rightarrow> string" where
  "status_text exit_code =
     (case exit_code of
        Some code \<Rightarrow> if code = 0 then ''ok'' else ''exit '' @ int_text code
      | None \<Rightarrow> ''signalled'')"

definition log_failure :: "io_error \<Rightarrow> string" where
  "log_failure e = ''run log: '' @ io_text e"

definition counts :: "nat \<Rightarrow> nat \<Rightarrow> nat \<Rightarrow> string" where
  "counts passed failed blocked =
     join '', '' ([dec passed @ '' passed'']
       @ (if 0 < failed then [dec failed @ '' failed''] else [])
       @ (if 0 < blocked then [dec blocked @ '' blocked''] else []))"

subsection \<open>What happened to a task\<close>

datatype task_outcome =
    TaskStarted
  | TaskFinished "int option" nat
  | TaskFailed string nat
  | TaskBlocked

primrec outcome_of :: "run_event \<Rightarrow> task_outcome option" where
  "outcome_of (Output t stream line) = None"
| "outcome_of (Started t) = Some TaskStarted"
| "outcome_of (Blocked i) = Some TaskBlocked"
| "outcome_of (Finished t out elapsed) = Some (TaskFinished (po_status out) elapsed)"
| "outcome_of (FailedEvent t kind elapsed) = Some (TaskFailed kind elapsed)"

definition task_succeeded :: "task_outcome \<Rightarrow> bool" where
  "task_succeeded o' = (case o' of TaskFinished code elapsed \<Rightarrow> code = Some 0 | _ \<Rightarrow> False)"

definition outcome_line :: "formats \<Rightarrow> task_outcome \<Rightarrow> string \<Rightarrow> string \<times> string" where
  "outcome_line fm o' label =
     (case o' of
        TaskStarted \<Rightarrow> (''Running'', label)
      | TaskBlocked \<Rightarrow> (''Blocked'', label)
      | TaskFinished code elapsed \<Rightarrow>
          (if task_succeeded o' then ''Finished'' else ''Failed'',
           label @ '' in '' @ f_seconds fm elapsed @ '' ('' @ status_text code @ '')'')
      | TaskFailed kind elapsed \<Rightarrow>
          (''Failed'', label @ '' in '' @ f_seconds fm elapsed @ '' ('' @ f_kind fm kind @ '')''))"

definition outcome_state :: "task_outcome \<Rightarrow> string" where
  "outcome_state o' =
     (case o' of
        TaskStarted \<Rightarrow> ''running''
      | TaskFinished code elapsed \<Rightarrow> if task_succeeded o' then ''finished'' else ''failed''
      | TaskFailed kind elapsed \<Rightarrow> ''failed''
      | TaskBlocked \<Rightarrow> ''blocked'')"

subsection \<open>The tally\<close>

record run_tally =
  tl_passed :: nat
  tl_failed :: nat
  tl_blocked :: nat

definition RunTally_default :: run_tally where
  "RunTally_default = \<lparr>tl_passed = 0, tl_failed = 0, tl_blocked = 0\<rparr>"

definition tally_add :: "task_outcome \<Rightarrow> run_tally \<Rightarrow> run_tally" where
  "tally_add o' t =
     (case o' of
        TaskFinished code elapsed \<Rightarrow>
          if task_succeeded o' then t\<lparr>tl_passed := tl_passed t + 1\<rparr>
          else t\<lparr>tl_failed := tl_failed t + 1\<rparr>
      | TaskFailed kind elapsed \<Rightarrow> t\<lparr>tl_failed := tl_failed t + 1\<rparr>
      | TaskBlocked \<Rightarrow> t\<lparr>tl_blocked := tl_blocked t + 1\<rparr>
      | TaskStarted \<Rightarrow> t)"

definition tally_record :: "run_event \<Rightarrow> run_tally \<Rightarrow> run_tally" where
  "tally_record e t = (case outcome_of e of Some o' \<Rightarrow> tally_add o' t | None \<Rightarrow> t)"

definition tally_summary :: "formats \<Rightarrow> run_tally \<Rightarrow> nat \<Rightarrow> string" where
  "tally_summary fm t elapsed =
     counts (tl_passed t) (tl_failed t) (tl_blocked t) @ '' in '' @ f_seconds fm elapsed"

subsection \<open>The log of a run\<close>

definition BEEZ_DIRECTORY :: string where "BEEZ_DIRECTORY = ''.beez''"

definition RUNS :: string where "RUNS = ''runs''"

definition TASKS :: string where "TASKS = ''tasks''"

definition RUN_LOG :: string where "RUN_LOG = ''run.log''"

definition RUN_RECORD :: string where "RUN_RECORD = ''run.json''"

definition RECORD_SCHEMA :: nat where "RECORD_SCHEMA = 1"

datatype run_target = WorkflowTarget string workflow | RequestTarget string

primrec target_labels :: "run_target \<Rightarrow> labels" where
  "target_labels (WorkflowTarget path w) = Labels_new (map (\<lambda>t. id_text (t_id t)) (tasks w))"
| "target_labels (RequestTarget name) = Labels_new [name]"

primrec target_manifest :: "run_target \<Rightarrow> string option" where
  "target_manifest (WorkflowTarget path w) = Some path"
| "target_manifest (RequestTarget name) = None"

record log_settings =
  lg_enabled :: bool
  lg_directory :: "string option"

datatype request_record =
    HarnessRecord string string "string option" "string option"
  | CommandRecord string "string list"

record task_record =
  tr_id :: string
  tr_depends_on :: "string list"
  tr_request :: "request_record option"
  tr_sandbox :: bool
  tr_state :: string
  tr_exit_status :: "int option"
  tr_duration :: "nat option"
  tr_error :: "string option"
  tr_stdout :: string
  tr_stderr :: string

record run_record =
  rr_schema :: nat
  rr_id :: string
  rr_arguments :: "string list"
  rr_working_directory :: string
  rr_manifest :: "string option"
  rr_started :: string
  rr_finished :: string
  rr_duration :: nat
  rr_exit_status :: "int option"
  rr_tasks :: "task_record list"

record task_log =
  tg_stdout :: string
  tg_stderr :: string
  tg_record :: task_record

text \<open>\<open>rl_json\<close> is the content of \<open>run.json\<close>, once it is written.\<close>

record run_log =
  rl_directory :: string
  rl_run :: string
  rl_labels :: labels
  rl_tasks :: "task_log list"
  rl_record :: run_record
  rl_started :: instant
  rl_json :: "run_record option"

primrec request_record_of :: "task_request \<Rightarrow> request_record" where
  "request_record_of (HarnessRequest harness prompt options) =
     HarnessRecord (HeadlessHarness_name harness) prompt (ho_model options) (ho_effort options)"
| "request_record_of (CommandRequest program arguments) = CommandRecord program arguments"

definition task_record_of :: "string \<Rightarrow> string list \<Rightarrow> request_record option \<Rightarrow> bool \<Rightarrow> task_record" where
  "task_record_of i depends_on request sandbox =
     \<lparr>tr_id = i, tr_depends_on = depends_on, tr_request = request, tr_sandbox = sandbox,
      tr_state = ''pending'', tr_exit_status = None, tr_duration = None, tr_error = None,
      tr_stdout = TASKS @ ''/'' @ i @ ''.stdout'', tr_stderr = TASKS @ ''/'' @ i @ ''.stderr''\<rparr>"

primrec task_records :: "run_target \<Rightarrow> task_record list" where
  "task_records (WorkflowTarget path w) =
     map (\<lambda>t. task_record_of (id_text (t_id t))
         (map (\<lambda>d. id_text (t_id d)) (List.map_filter (task_at w) (t_dependencies t)))
         (Some (request_record_of (t_request t))) (t_sandbox t \<noteq> None))
       (tasks w)"
| "task_records (RequestTarget name) = [task_record_of name [] None False]"

definition run_name :: "formats \<Rightarrow> instant \<Rightarrow> nat \<Rightarrow> string" where
  "run_name fm started pid = compact_utc fm started @ ''-'' @ dec pid"

definition is_run_name :: "string \<Rightarrow> bool" where
  "is_run_name name =
     (case split_once CHR ''-'' name of
        None \<Rightarrow> False
      | Some (stamp, pid) \<Rightarrow>
          length stamp = 19 \<and> suffix ''Z'' stamp \<and> take 1 (drop 8 stamp) = ''T'' \<and>
          pid \<noteq> [] \<and> list_all ascii_digit pid)"

text \<open>
  \<open>resolve_root\<close>: \<open>is_dir\<close> and \<open>path_exists\<close> ask the file system.
\<close>

definition resolve_root :: "(string \<Rightarrow> bool) \<Rightarrow> (string \<Rightarrow> bool) \<Rightarrow> string \<Rightarrow> string" where
  "resolve_root is_dir path_exists working_directory =
     (case find (\<lambda>a. is_dir (path_join a BEEZ_DIRECTORY) \<or> path_exists (path_join a ''.git''))
         (ancestors working_directory) of
        Some a \<Rightarrow> path_join a BEEZ_DIRECTORY
      | None \<Rightarrow> path_join working_directory BEEZ_DIRECTORY)"

definition open_task :: "(string \<Rightarrow> io_error option) \<Rightarrow> string \<Rightarrow> task_record \<Rightarrow> io_error + task_log" where
  "open_task fails directory r =
     (case fails (path_join directory (tr_stdout r)) of
        Some e \<Rightarrow> Inl e
      | None \<Rightarrow>
          (case fails (path_join directory (tr_stderr r)) of
             Some e \<Rightarrow> Inl e
           | None \<Rightarrow> Inr \<lparr>tg_stdout = [], tg_stderr = [], tg_record = r\<rparr>))"

text \<open>
  \<open>started\<close>, \<open>pid\<close> and \<open>arguments\<close> are the time, the process and its arguments. The link to the latest run
  and the \<open>.gitignore\<close> of a root that was not given are written with their errors ignored; they are in
  \<open>Log_Root\<close>.
\<close>

record log_files =
  lf_fails :: "string \<Rightarrow> io_error option"
  lf_is_dir :: "string \<Rightarrow> bool"
  lf_exists :: "string \<Rightarrow> bool"

definition RunLog_create ::
    "formats \<Rightarrow> log_files \<Rightarrow> instant \<Rightarrow> nat \<Rightarrow> string list \<Rightarrow> string option
     \<Rightarrow> run_target \<Rightarrow> string \<Rightarrow> io_error + run_log" where
  "RunLog_create fm lf started pid arguments root target working_directory =
     (let fails = lf_fails lf;
          resolved = (case root of
             None \<Rightarrow> resolve_root (lf_is_dir lf) (lf_exists lf) working_directory
           | Some r \<Rightarrow> r);
          i = run_name fm started pid;
          directory = path_join (path_join resolved RUNS) i in
      case fails (path_join directory TASKS) of
        Some e \<Rightarrow> Inl e
      | None \<Rightarrow>
          and_then (traverse (open_task fails directory) (task_records target)) (\<lambda>logs.
            case fails (path_join directory RUN_LOG) of
              Some e \<Rightarrow> Inl e
            | None \<Rightarrow> Inr
                \<lparr>rl_directory = directory, rl_run = [], rl_labels = target_labels target, rl_tasks = logs,
                 rl_record =
                   \<lparr>rr_schema = RECORD_SCHEMA, rr_id = i, rr_arguments = arguments,
                    rr_working_directory = working_directory,
                    rr_manifest = map_option (path_join working_directory) (target_manifest target),
                    rr_started = utc fm started, rr_finished = [], rr_duration = 0,
                    rr_exit_status = None, rr_tasks = []\<rparr>,
                 rl_started = started, rl_json = None\<rparr>))"

type_synonym log_action = "(run_log, io_error, unit) action"

definition append_run :: "(string \<Rightarrow> io_error option) \<Rightarrow> string \<Rightarrow> log_action" where
  "append_run fails text = (\<lambda>log.
     case fails (path_join (rl_directory log) RUN_LOG) of
       Some e \<Rightarrow> (Inl e, log)
     | None \<Rightarrow> (Inr (), log\<lparr>rl_run := rl_run log @ text @ [newline]\<rparr>))"

definition log_status ::
    "formats \<Rightarrow> (string \<Rightarrow> io_error option) \<Rightarrow> instant \<Rightarrow> string \<Rightarrow> string \<Rightarrow> log_action" where
  "log_status fm fails now verb message = append_run fails (stamped_status_line fm now verb message)"

definition append_stream :: "output_stream \<Rightarrow> string \<Rightarrow> task_log \<Rightarrow> task_log" where
  "append_stream stream line t =
     (case stream of
        StdoutStream \<Rightarrow> t\<lparr>tg_stdout := tg_stdout t @ line\<rparr>
      | StderrStream \<Rightarrow> t\<lparr>tg_stderr := tg_stderr t @ line\<rparr>)"

definition stream_path :: "output_stream \<Rightarrow> task_record \<Rightarrow> string" where
  "stream_path stream r = (case stream of StdoutStream \<Rightarrow> tr_stdout r | StderrStream \<Rightarrow> tr_stderr r)"

definition log_output ::
    "formats \<Rightarrow> (string \<Rightarrow> io_error option) \<Rightarrow> instant \<Rightarrow> nat \<Rightarrow> output_stream \<Rightarrow> string \<Rightarrow> log_action" where
  "log_output fm fails now i stream line = (\<lambda>log.
     case get_at (rl_tasks log) i of
       None \<Rightarrow> (Inr (), log)
     | Some t \<Rightarrow>
         (case fails (path_join (rl_directory log) (stream_path stream (tg_record t))) of
            Some e \<Rightarrow> (Inl e, log)
          | None \<Rightarrow>
              append_run fails
                (utc fm now @ '' '' @ pad_right (lb_width (rl_labels log)) (tr_id (tg_record t)) @ '' ''
                 @ stream_mark stream @ '' '' @ utf8_lossy (f_strip fm (trim_newline line)))
                (log\<lparr>rl_tasks := (rl_tasks log)[i := append_stream stream line t]\<rparr>)))"

definition record_outcome :: "formats \<Rightarrow> task_outcome \<Rightarrow> task_record \<Rightarrow> task_record" where
  "record_outcome fm o' r =
     (let r = r\<lparr>tr_state := outcome_state o'\<rparr> in
      case o' of
        TaskFinished code elapsed \<Rightarrow> r\<lparr>tr_exit_status := code, tr_duration := Some elapsed\<rparr>
      | TaskFailed kind elapsed \<Rightarrow> r\<lparr>tr_error := Some (f_kind fm kind), tr_duration := Some elapsed\<rparr>
      | _ \<Rightarrow> r)"

definition log_outcome :: "formats \<Rightarrow> nat \<Rightarrow> task_outcome \<Rightarrow> run_log \<Rightarrow> run_log" where
  "log_outcome fm i o' log =
     (case get_at (rl_tasks log) i of
        None \<Rightarrow> log
      | Some t \<Rightarrow>
          log\<lparr>rl_tasks := (rl_tasks log)[i := t\<lparr>tg_record := record_outcome fm o' (tg_record t)\<rparr>]\<rparr>)"

definition log_finish ::
    "formats \<Rightarrow> (string \<Rightarrow> io_error option) \<Rightarrow> instant \<Rightarrow> int option \<Rightarrow> log_action" where
  "log_finish fm fails now exit_status = (\<lambda>log.
     let r = (rl_record log)\<lparr>rr_finished := utc fm now,
               rr_duration := nat (now - rl_started log),
               rr_exit_status := exit_status, rr_tasks := map tg_record (rl_tasks log)\<rparr>;
         log = log\<lparr>rl_record := r\<rparr> in
     case fails (path_join (rl_directory log) RUN_RECORD) of
       Some e \<Rightarrow> (Inl e, log)
     | None \<Rightarrow> (Inr (), log\<lparr>rl_json := Some r\<rparr>))"

definition recorder_event ::
    "formats \<Rightarrow> (string \<Rightarrow> io_error option) \<Rightarrow> instant \<Rightarrow> run_event \<Rightarrow> log_action" where
  "recorder_event fm fails now e =
     (let i = event_position e in
      case e of
        Output t stream line \<Rightarrow> log_output fm fails now i stream line
      | _ \<Rightarrow>
          (case outcome_of e of
             None \<Rightarrow> sreturn ()
           | Some o' \<Rightarrow> (\<lambda>log.
               let log = log_outcome fm i o' log;
                   (verb, message) = outcome_line fm o' (labels_get (rl_labels log) i) in
               log_status fm fails now verb message log)))"

definition recorder_finish ::
    "formats \<Rightarrow> (string \<Rightarrow> io_error option) \<Rightarrow> instant \<Rightarrow> instant \<Rightarrow> string \<Rightarrow> int option
     \<Rightarrow> log_action" where
  "recorder_finish fm fails now finished summary exit_status =
     sbind (log_status fm fails now ''Summary'' summary) (\<lambda>_. log_finish fm fails finished exit_status)"

text \<open>\<open>OpenLog\<close>: a log that is absent or closed is \<open>None\<close>.\<close>

definition OpenLog_open ::
    "log_settings \<Rightarrow> (string option \<Rightarrow> io_error + run_log) \<Rightarrow> run_log option \<times> string option" where
  "OpenLog_open settings create =
     (if \<not> lg_enabled settings then (None, None)
      else case create (lg_directory settings) of
             Inr log \<Rightarrow> (Some log, None)
           | Inl e \<Rightarrow> (None, Some (log_failure e)))"

definition OpenLog_write :: "log_action \<Rightarrow> run_log option \<Rightarrow> run_log option \<times> string option" where
  "OpenLog_write a log =
     (case log of
        None \<Rightarrow> (None, None)
      | Some r \<Rightarrow>
          (case a r of
             (Inr _, r') \<Rightarrow> (Some r', None)
           | (Inl e, r') \<Rightarrow> (None, Some (log_failure e))))"

subsection \<open>What a log holds after the events of a run\<close>

definition record_events ::
    "formats \<Rightarrow> (string \<Rightarrow> io_error option) \<Rightarrow> (instant \<times> run_event) list \<Rightarrow> log_action" where
  "record_events fm fails es = sforeach (\<lambda>(now, e). recorder_event fm fails now e) es"

definition stream_of :: "output_stream \<Rightarrow> task_log \<Rightarrow> string" where
  "stream_of st t = (case st of StdoutStream \<Rightarrow> tg_stdout t | StderrStream \<Rightarrow> tg_stderr t)"

definition line_of :: "nat \<Rightarrow> output_stream \<Rightarrow> run_event \<Rightarrow> string" where
  "line_of i st e =
     (case e of Output t st' l \<Rightarrow> if task_position t = i \<and> st' = st then l else [] | _ \<Rightarrow> [])"

definition outcomes_for :: "nat \<Rightarrow> run_event list \<Rightarrow> task_outcome list" where
  "outcomes_for i es = List.map_filter (\<lambda>e. if event_position e = i then outcome_of e else None) es"

lemma outcomes_for_simps [simp]:
  "outcomes_for i [] = []"
  "outcomes_for i (e # es) =
     (if event_position e = i then (case outcome_of e of None \<Rightarrow> [] | Some o' \<Rightarrow> [o']) else []) @ outcomes_for i es"
  by (simp_all add: outcomes_for_def List.map_filter_def split: option.split)

lemma append_run_keeps [dest!]:
  "append_run fails s log = (Inr u, log') \<Longrightarrow> log' = log\<lparr>rl_run := rl_run log @ s @ [newline]\<rparr>"
  by (auto simp: append_run_def split: option.splits)

lemma stream_of_append:
  "stream_of st (append_stream st' l t) = stream_of st t @ (if st' = st then l else [])"
  "tg_record (append_stream st' l t) = tg_record t"
  by (cases st; cases st'; simp add: stream_of_def append_stream_def)+

lemma stream_of_record [simp]: "stream_of st (t\<lparr>tg_record := r\<rparr>) = stream_of st t"
  by (cases st) (simp_all add: stream_of_def)

lemma recorder_event_task:
  assumes "recorder_event fm fails now e log = (Inr u, log')"
  shows "length (rl_tasks log') = length (rl_tasks log)"
    and "i < length (rl_tasks log) \<Longrightarrow>
      stream_of st (rl_tasks log' ! i) = stream_of st (rl_tasks log ! i) @ line_of i st e
      \<and> tg_record (rl_tasks log' ! i)
         = fold (record_outcome fm) (outcomes_for i [e]) (tg_record (rl_tasks log ! i))"
proof -
  have out: "outcome_of e = None \<longleftrightarrow> (\<exists>t st l. e = Output t st l)" by (cases e) auto
  show "length (rl_tasks log') = length (rl_tasks log)"
    using assms
    by (cases e) (auto simp: recorder_event_def log_output_def log_status_def log_outcome_def Let_def
        split: option.splits prod.splits)
  assume i: "i < length (rl_tasks log)"
  show "stream_of st (rl_tasks log' ! i) = stream_of st (rl_tasks log ! i) @ line_of i st e
      \<and> tg_record (rl_tasks log' ! i)
         = fold (record_outcome fm) (outcomes_for i [e]) (tg_record (rl_tasks log ! i))"
    using assms i
    by (cases e)
      (auto simp: recorder_event_def log_output_def log_status_def log_outcome_def Let_def line_of_def
        nth_list_update stream_of_append event_position_def get_at_def
        split: option.splits prod.splits if_splits)
qed


subsection \<open>The counts that close a run\<close>

definition ends :: "(process_output \<Rightarrow> bool) \<Rightarrow> run_event list \<Rightarrow> nat" where
  "ends P log = length (filter (\<lambda>e. case e of Finished t out el \<Rightarrow> P out | _ \<Rightarrow> False) log)"

lemma ends_Cons [simp]:
  "ends P [] = 0"
  "ends P (e # log) = (case e of Finished t out el \<Rightarrow> if P out then 1 else 0 | _ \<Rightarrow> 0) + ends P log"
  by (simp_all add: ends_def split: run_event.split)

lemma tally_fold:
  assumes "list_all (end_ok w) log"
  shows "fold tally_record log t =
     \<lparr>tl_passed = tl_passed t + ends po_succeeded log,
      tl_failed = tl_failed t + ends (\<lambda>out. \<not> po_succeeded out) log,
      tl_blocked = tl_blocked t + length (filter (\<lambda>e. \<exists>i. e = Blocked i) log)\<rparr>"
  using assms
proof (induction log arbitrary: t)
  case (Cons e log)
  then show ?case
    by (cases e) (auto simp: tally_record_def tally_add_def task_succeeded_def po_succeeded_def)
qed simp

lemma distinct_map_filter: "distinct (map f xs) \<Longrightarrow> distinct (map f (filter P xs))"
  by (induction xs) auto

lemma ends_by_task:
  assumes "list_all (end_ok w) log"
  shows "ends P log = (\<Sum>i<length (tasks w). length (filter P (results log i)))"
  using assms
proof (induction log)
  case (Cons e log)
  then show ?case
  proof (cases e)
    case (Finished t out el)
    with Cons.prems obtain i where i: "t = Some i" "i < length (tasks w)" by auto
    have "(\<Sum>j<length (tasks w). length (filter P (results (e # log) j)))
        = (\<Sum>j<length (tasks w). (if j = i then (if P out then 1 else 0) else 0)
             + length (filter P (results log j)))"
      by (rule sum.cong) (auto simp: Finished i)
    then show ?thesis using Cons i by (simp add: Finished sum.distrib sum.delta)
  qed simp_all
qed simp

lemma sum_status:
  fixes n :: nat
  shows "(\<Sum>i<n. if f i = v then 1 else 0 :: nat) = card {i. i < n \<and> f i = v}"
proof -
  have "{..<n} \<inter> {i. f i = v} = {i. i < n \<and> f i = v}" by auto
  then show ?thesis by (simp add: sum.If_cases)
qed

lemma run_ends_tally:
  assumes inv: "run_inv w log (ex, outputs, c)"
  defines "t \<equiv> fold tally_record (log @ map Blocked (pending ex)) RunTally_default"
  shows "tl_passed t = card {i. i < length (tasks w) \<and> status ex i = Succeeded}"
    and "tl_failed t = card {i. i < length (tasks w) \<and> status ex i = Failed}"
    and "tl_blocked t = card {i. i < length (tasks w) \<and> status ex i = Pending}"
proof -
  have ok: "list_all (end_ok w) log" and blocked: "\<forall>i. Blocked i \<notin> set log"
    and matches: "\<And>i. i < length (tasks w) \<Longrightarrow> result_matches log i (status ex i)"
    using inv by (simp_all add: run_inv_def)
  have all: "list_all (end_ok w) (log @ map Blocked (pending ex))"
    using ok by (auto simp: list_all_iff)
  have quiet: "ends P (map Blocked is) = 0" for P "is" by (induction "is") simp_all
  have ends_append: "ends P (xs @ ys) = ends P xs + ends P ys" for P xs ys by (simp add: ends_def)
  have "length (filter po_succeeded (results log i)) = (if status ex i = Succeeded then 1 else 0)"
    and "length (filter (\<lambda>out. \<not> po_succeeded out) (results log i)) = (if status ex i = Failed then 1 else 0)"
    if "i < length (tasks w)" for i
    using matches [OF that] by (auto simp: result_matches_def split: task_status.splits)
  then have sums: "ends po_succeeded log = card {i. i < length (tasks w) \<and> status ex i = Succeeded}"
    "ends (\<lambda>out. \<not> po_succeeded out) log = card {i. i < length (tasks w) \<and> status ex i = Failed}"
    unfolding ends_by_task [OF ok] by (simp_all add: sum_status cong: sum.cong_simp)
  then show "tl_passed t = card {i. i < length (tasks w) \<and> status ex i = Succeeded}"
    and "tl_failed t = card {i. i < length (tasks w) \<and> status ex i = Failed}"
    by (simp_all add: t_def tally_fold [OF all] RunTally_default_def ends_append quiet del: fold_append)
  have "set (pending ex) = {i. i < length (tasks w) \<and> status ex i = Pending}"
    using exec_status_run_inv(1) [OF inv] by (auto simp: pending_iff)
  moreover have "distinct (pending ex)" by (simp add: pending_def distinct_map_filter)
  ultimately have "length (pending ex) = card {i. i < length (tasks w) \<and> status ex i = Pending}"
    using distinct_card by metis
  moreover have "filter (\<lambda>e. \<exists>i. e = Blocked i) log = []"
    using blocked by (auto simp: filter_empty_conv)
  moreover have "filter (\<lambda>e. \<exists>i. e = Blocked i) (map Blocked is) = map Blocked is" for "is"
    by (induction "is") simp_all
  ultimately show "tl_blocked t = card {i. i < length (tasks w) \<and> status ex i = Pending}"
    by (simp add: t_def tally_fold [OF all] RunTally_default_def del: fold_append)
qed

lemma card_split:
  fixes n :: nat
  assumes "\<And>i. i < n \<Longrightarrow> f i = a \<or> f i = b \<or> f i = c" and "a \<noteq> b" and "a \<noteq> c" and "b \<noteq> c"
  shows "card {i. i < n \<and> f i = a} + card {i. i < n \<and> f i = b} + card {i. i < n \<and> f i = c} = n"
proof -
  let ?S = "\<lambda>v. {i. i < n \<and> f i = v}"
  have "{..<n} = (?S a \<union> ?S b) \<union> ?S c" using assms(1) by auto
  moreover have "card ((?S a \<union> ?S b) \<union> ?S c) = card (?S a \<union> ?S b) + card (?S c)"
    by (rule card_Un_disjoint) (use assms(3,4) in auto)
  moreover have "card (?S a \<union> ?S b) = card (?S a) + card (?S b)"
    by (rule card_Un_disjoint) (use assms(2) in auto)
  ultimately show ?thesis by (metis card_lessThan)
qed

text \<open>The counts that close a run of a validated workflow add up to the number of its tasks, and the
  exit status is zero exactly when every task is counted as passed.\<close>

theorem tally_accounts_for_every_task:
  assumes "Workflow_try_from defs = Inr w" and "arrives arrivals"
    and "run_workflow arrivals w log_event [] = (Inr c, log)"
    and "t = fold tally_record log RunTally_default"
  shows "tl_passed t + tl_failed t + tl_blocked t = length (tasks w)
    \<and> (c = 0 \<longleftrightarrow> tl_passed t = length (tasks w))"
proof -
  have "workflow_ok w" using Workflow_try_from_builds [OF assms(1)] represents_workflow_ok by blast
  then have "run_ends w (Inr c, log)" using run_workflow_ends assms(2,3) by metis
  then obtain log0 ex outputs where inv: "run_inv w log0 (ex, outputs, c)" and "ready ex = []"
    and log: "log = log0 @ map Blocked (pending ex)"
    by (auto simp: run_ends_def)
  note tally = run_ends_tally [OF inv, folded log assms(4)]
  have cases: "status ex i = Succeeded \<or> status ex i = Failed \<or> status ex i = Pending"
    if "i < length (tasks w)" for i
    using exec_status_run_inv(2) [OF inv that] by (cases "status ex i") auto
  have sum: "tl_passed t + tl_failed t + tl_blocked t = length (tasks w)"
    unfolding tally by (rule card_split [OF cases]) simp_all
  have "dep_succeeded log0 i \<longleftrightarrow> status ex i = Succeeded" if "i < length (tasks w)" for i
  proof -
    have "result_matches log0 i (status ex i)" using inv that by (simp add: run_inv_def)
    then show ?thesis
      by (cases "status ex i") (auto simp: result_matches_def dep_succeeded_def)
  qed
  then have "c = 0 \<longleftrightarrow> (\<forall>i<length (tasks w). status ex i = Succeeded)"
    using run_inv_status [OF inv \<open>ready ex = []\<close>] by simp
  also have "\<dots> \<longleftrightarrow> {i. i < length (tasks w) \<and> status ex i = Succeeded} = {..<length (tasks w)}"
    by auto
  also have "\<dots> \<longleftrightarrow> tl_passed t = length (tasks w)"
    unfolding tally by (metis (no_types, lifting) card_lessThan card_subset_eq finite_lessThan
        lessThan_iff mem_Collect_eq subsetI)
  finally show ?thesis using sum by simp
qed

theorem tally_accounts_for_every_task_witness:
  "tl_passed (fold tally_record demo_log RunTally_default) = 2"
proof -
  have "tl_passed (fold tally_record demo_log RunTally_default) = length (tasks demo_workflow)"
    using tally_accounts_for_every_task [OF demo_try_from demo_arrives(1) demo_runs(1) refl] by simp
  then show ?thesis by (simp add: demo_workflow_def)
qed

subsection \<open>A log that fails\<close>

fun write_all :: "log_action list \<Rightarrow> run_log option \<Rightarrow> run_log option \<times> string list" where
  "write_all [] log = (log, [])"
| "write_all (a # as) log =
     (let (log1, failure) = OpenLog_write a log;
          (log2, failures) = write_all as log1
      in (log2, (case failure of Some f \<Rightarrow> [f] | None \<Rightarrow> []) @ failures))"

lemma write_all_closed [simp]: "write_all as None = (None, [])"
  by (induction as) (simp_all add: OpenLog_write_def)

text \<open>However many writes a run makes, a log that fails is reported exactly once: one failure is
  reported when a write closed the log, and none otherwise.\<close>

theorem log_failure_reported_once:
  "length (snd (write_all as log)) = (if log \<noteq> None \<and> fst (write_all as log) = None then 1 else 0)"
proof (induction as arbitrary: log)
  case (Cons a as)
  show ?case
  proof (cases log)
    case (Some r)
    obtain res r' where res: "a r = (res, r')" by (cases "a r")
    show ?thesis
    proof (cases res)
      case (Inr u)
      with Cons [of "Some r'"] res Some show ?thesis by (simp add: OpenLog_write_def split: prod.splits)
    qed (simp add: Some res OpenLog_write_def)
  qed simp
next
  case Nil
  show ?case by (cases log) simp_all
qed

text \<open>A concrete log.\<close>

definition demo_formats :: formats where
  "demo_formats = \<lparr>f_format = (\<lambda>_ pattern. if CHR ''-'' \<in> set pattern then ''t'' else ''20260910T030000004Z''),
     f_seconds = (\<lambda>_. ''0.0s''), f_kind = id, f_strip = id\<rparr>"

definition demo_files :: log_files where
  "demo_files = \<lparr>lf_fails = (\<lambda>_. None), lf_is_dir = (\<lambda>_. False), lf_exists = (\<lambda>_. False)\<rparr>"

definition demo_run_log :: run_log where
  "demo_run_log =
     (case RunLog_create demo_formats demo_files 0 7 [''beez''] None (RequestTarget ''a'') ''/w'' of
        Inr log \<Rightarrow> log)"

definition demo_events :: "(instant \<times> run_event) list" where
  "demo_events = [(0, Started None), (1, Output None StdoutStream ''hi''), (2, Output None StderrStream ''no''),
     (3, Output None StdoutStream [newline])]"


end
