(* ===== verification/Observers.thy ===== *)
theory Observers
  imports Runner_Trace
begin

text \<open>
  A run reports what it does through the callback \<open>on_event\<close>. The locale \<open>observer\<close> is the contract of a
  callback that never fails, such as the daemon's: such a callback sees the same events in the same
  order as any other and has no influence on the run. Its state at the end is the fold of what it
  notes over the events of the plain log.
\<close>

locale observer =
  fixes on_event :: "'s callback" and noted :: "run_event \<Rightarrow> 's \<Rightarrow> 's"
  assumes never_fails: "on_event e s = (Inr (), noted e s)"
begin

definition seen_alike :: "(run_event list, io_error, 'a) action \<Rightarrow> ('s, io_error, 'a) action \<Rightarrow> bool" where
  "seen_alike A B \<longleftrightarrow> (\<exists>r es. (\<forall>log. A log = (r, log @ es)) \<and> (\<forall>s. B s = (r, fold noted es s)))"

lemma seen_event [intro!]: "seen_alike (log_event e) (on_event e)"
  unfolding seen_alike_def by (rule exI [of _ "Inr ()"], rule exI [of _ "[e]"])
    (simp add: log_event_def never_fails)

lemma seen_lift [intro!]: "seen_alike (slift r) (slift r)"
  unfolding seen_alike_def by (rule exI [of _ r], rule exI [of _ "[]"]) simp

lemma seen_return [intro!]: "seen_alike (sreturn x) (sreturn x)"
  using seen_lift [of "Inr x"] by (simp add: sreturn_def slift_def)

lemma seen_fail [intro!]: "seen_alike (sfail e) (sfail e)"
  using seen_lift [of "Inl e"] by (simp add: sfail_def slift_def)

lemma seen_bind [intro]:
  assumes "seen_alike A B" and "\<And>x. seen_alike (F x) (G x)"
  shows "seen_alike (sbind A F) (sbind B G)"
proof -
  obtain r es where A: "\<forall>log. A log = (r, log @ es)" and B: "\<forall>s. B s = (r, fold noted es s)"
    using assms(1) by (auto simp: seen_alike_def)
  show ?thesis
  proof (cases r)
    case (Inl e)
    then show ?thesis using A B unfolding seen_alike_def
      by (intro exI [of _ "Inl e"] exI [of _ es]) (simp add: sbind_def)
  next
    case (Inr x)
    obtain r' es' where "\<forall>log. F x log = (r', log @ es')" "\<forall>s. G x s = (r', fold noted es' s)"
      using assms(2) [of x] by (auto simp: seen_alike_def)
    then show ?thesis using A B Inr unfolding seen_alike_def
      by (intro exI [of _ r'] exI [of _ "es @ es'"]) (simp add: sbind_def)
  qed
qed

lemma seen_foreach: "(\<And>x. seen_alike (f x) (g x)) \<Longrightarrow> seen_alike (sforeach f xs) (sforeach g xs)"
  by (induction xs) auto

lemma seen_receive: "seen_alike (receive log_event ms rs) (receive on_event ms rs)"
proof (induction ms arbitrary: rs)
  case (Cons m ms)
  have next_message: "seen_alike (sbind (log_event e) (\<lambda>_. receive log_event ms rs))
      (sbind (on_event e) (\<lambda>_. receive on_event ms rs))" for e rs
    by (rule seen_bind) (auto simp: Cons)
  show ?case
  proof (cases m)
    case (Done t r el)
    then show ?thesis by (cases r) (simp_all add: next_message del: sbind_log_event)
  qed (simp add: next_message del: sbind_log_event)
qed auto

lemma seen_start_each: "seen_alike (start_each log_event is ex) (start_each on_event is ex)"
proof (induction "is" arbitrary: ex)
  case (Cons i "is")
  obtain started ex' where s: "start_task ex i = (started, ex')" by (cases "start_task ex i")
  show ?case
  proof (cases started)
    case (Some t)
    show ?thesis unfolding start_each.simps s Some option.case prod.case
      by (intro seen_bind seen_event Cons.IH) (auto split: prod.split)
  next
    case None
    show ?thesis unfolding start_each.simps s None option.case prod.case by (rule seen_fail)
  qed
qed auto

lemma seen_round: "seen_alike (run_round arrivals log_event w st) (run_round arrivals on_event w st)"
  unfolding run_round_def start_ready_tasks_def run_requests_concurrently_def
  by (auto split: prod.split intro!: seen_bind seen_start_each seen_receive seen_foreach)

lemma seen_loop: "seen_alike (run_loop arrivals log_event w st) (run_loop arrivals on_event w st)"
proof (induction "pending_count (fst st)" arbitrary: st rule: less_induct)
  case less
  obtain ex outputs c where st: "st = (ex, outputs, c)" by (cases st)
  obtain r es where A: "\<forall>log. run_round arrivals log_event w (ex, outputs, c) log = (r, log @ es)"
    and B: "\<forall>s. run_round arrivals on_event w (ex, outputs, c) s = (r, fold noted es s)"
    using seen_round [of arrivals w "(ex, outputs, c)"] by (auto simp: seen_alike_def)
  show ?case
  proof (cases "has_pending ex")
    case False
    then show ?thesis unfolding seen_alike_def
      by (intro exI [of _ "Inr c"] exI [of _ "[]"]) (simp add: run_loop.simps st)
  next
    case pending: True
    consider e where "r = Inl e" | c' where "r = Inr (Stop c')" | st' where "r = Inr (Continue st')"
      by (metis round_end.exhaust sum.exhaust)
    then show ?thesis
    proof cases
      case (3 st')
      obtain ex' outputs' c' where st': "st' = (ex', outputs', c')" by (cases st')
      have "run_round arrivals log_event w (ex, outputs, c) [] = (Inr (Continue (ex', outputs', c')), es)"
        using A 3 st st' by simp
      then have "pending_count (fst st') < pending_count (fst st)"
        using run_round_pending by (fastforce simp: st st')
      from less [OF this] obtain r' es' where
        "\<forall>log. run_loop arrivals log_event w st' log = (r', log @ es')"
        "\<forall>s. run_loop arrivals on_event w st' s = (r', fold noted es' s)"
        by (auto simp: seen_alike_def)
      then show ?thesis using A B 3 pending unfolding seen_alike_def
        by (intro exI [of _ r'] exI [of _ "es @ es'"])
          (simp add: run_loop.simps [of _ _ _ "(ex, outputs, c)"] st)
    qed (use A B pending in \<open>auto simp: seen_alike_def run_loop.simps [of _ _ _ "(ex, outputs, c)"] st\<close>)
  qed
qed

lemma run_seen:
  assumes "run_workflow arrivals w log_event [] = (r, log)"
  shows "run_workflow arrivals w on_event s = (r, fold noted log s)"
proof -
  have "seen_alike (run_workflow arrivals w log_event) (run_workflow arrivals w on_event)"
    unfolding run_workflow_def by (rule seen_loop)
  then show ?thesis using assms by (auto simp: seen_alike_def)
qed

end

text \<open>The plain log is itself such a callback.\<close>

interpretation plain_log: observer log_event "\<lambda>e log. log @ [e]"
  by unfold_locales (simp add: log_event_def)

end
