(* ===== verification/Prune.thy ===== *)
theory Prune
  imports Run_Log "HOL-Library.List_Lexorder" "HOL-Library.Char_ord"
begin

text \<open>
  \<open>beez-daemon/src/prune.rs\<close>: the sweep of old runs. The directory of the runs is what reading it gives:
  an error, or its entries, each an error or a name with its type. \<open>removable\<close> tells the runs whose
  directory can be removed; the result comes with the names that went. Names are compared as Rust
  compares strings, byte by byte.
\<close>

type_synonym entry = "io_error + string \<times> (io_error + bool)"

fun runs_in :: "entry list \<Rightarrow> io_error + string list" where
  "runs_in [] = Inr []"
| "runs_in (Inl e # entries) = Inl e"
| "runs_in (Inr (name, is_dir) # entries) =
     (if is_run_name (utf8_lossy name) then
        and_then is_dir (\<lambda>dir.
          and_then (runs_in entries) (\<lambda>names.
            Inr (if dir then utf8_lossy name # names else names)))
      else runs_in entries)"

definition prune ::
    "(string \<Rightarrow> bool) \<Rightarrow> io_error + entry list \<Rightarrow> nat \<Rightarrow> (io_error + nat) \<times> string list" where
  "prune removable read_dir keep =
     (if keep = 0 then (Inr 0, [])
      else case read_dir of
             Inl e \<Rightarrow> (if io_kind e = ''NotFound'' then Inr 0 else Inl e, [])
           | Inr entries \<Rightarrow>
               (case runs_in entries of
                  Inl e \<Rightarrow> (Inl e, [])
                | Inr names \<Rightarrow>
                    if length names \<le> keep then (Inr 0, [])
                    else let removing = length names - keep;
                             removed = filter removable (take removing (sort names))
                         in (Inr (length removed), removed)))"

lemma runs_in_names: "runs_in entries = Inr names \<Longrightarrow> n \<in> set names \<Longrightarrow> is_run_name n"
proof (induction entries arbitrary: names rule: runs_in.induct)
  case (3 name is_dir entries)
  show ?case
  proof (cases "is_run_name (utf8_lossy name)")
    case True
    with "3.prems" obtain dir names' where "is_dir = Inr dir" "runs_in entries = Inr names'"
      "names = (if dir then utf8_lossy name # names' else names')"
      by (auto simp: and_then_Inr_iff)
    then show ?thesis using "3.IH"(1) [OF True, of dir names'] "3.prems"(2) True by (auto split: if_splits)
  qed (use 3 in simp)
qed simp_all

text \<open>In a sorted list of distinct elements, the position tells how many are at least as large.\<close>

lemma as_large_iff:
  fixes xs :: "'a :: linorder list"
  assumes "sorted xs" and "distinct xs" and "i < length xs"
  shows "length (filter (\<lambda>y. xs ! i \<le> y) xs) = length xs - i"
proof -
  have strict: "sorted_wrt (<) xs" using assms(1,2) by (simp add: strict_sorted_iff)
  have "filter (\<lambda>y. xs ! i \<le> y) (take i xs) = []"
    using sorted_wrt_nth_less [OF strict] assms(3)
    by (auto simp: filter_empty_conv in_set_conv_nth not_le)
  moreover have "filter (\<lambda>y. xs ! i \<le> y) (drop i xs) = drop i xs"
    using sorted_nth_mono [OF assms(1)] assms(3) by (auto simp: filter_id_conv in_set_conv_nth)
  moreover have "filter (\<lambda>y. xs ! i \<le> y) xs
      = filter (\<lambda>y. xs ! i \<le> y) (take i xs) @ filter (\<lambda>y. xs ! i \<le> y) (drop i xs)"
    by (metis append_take_drop_id filter_append)
  ultimately show ?thesis by simp
qed

lemma in_take_iff:
  fixes xs :: "'a :: linorder list"
  assumes "sorted xs" and "distinct xs" and "x \<in> set xs"
  shows "x \<in> set (take (length xs - keep) xs) \<longleftrightarrow> keep < length (filter (\<lambda>y. x \<le> y) xs)"
proof -
  obtain i where i: "i < length xs" "x = xs ! i" using assms(3) by (auto simp: in_set_conv_nth)
  have "x \<in> set (take (length xs - keep) xs) \<longleftrightarrow> i < length xs - keep"
    using i nth_eq_iff_index_eq [OF assms(2)] by (auto simp: in_set_conv_nth)
  then show ?thesis using as_large_iff [OF assms(1,2) i(1)] i by auto
qed

text \<open>A sweep that keeps \<open>keep\<close> runs removes a run exactly when it can be removed and more than
  \<open>keep\<close> runs are at least as new; what it removes are runs, and the count it reports is theirs.\<close>

theorem prune_keeps_the_newest:
  assumes "prune removable (Inr entries) keep = (Inr gone, removed)" and "0 < keep"
    and "runs_in entries = Inr names" and "distinct names"
  shows "gone = length removed \<and> set removed \<subseteq> set names \<and>
    (n \<in> set names \<longrightarrow>
       (n \<in> set removed \<longleftrightarrow> removable n \<and> keep < length (filter (\<lambda>m. n \<le> m) names)))"
proof (cases "length names \<le> keep")
  case True
  have "length (filter (\<lambda>m. n \<le> m) names) \<le> keep" using True length_filter_le order.trans by blast
  with True assms show ?thesis by (auto simp: prune_def)
next
  case False
  then have removed: "removed = filter removable (take (length names - keep) (sort names))"
    "gone = length removed" using assms(1-3) by (auto simp: prune_def Let_def)
  have "length (filter (\<lambda>m. n \<le> m) (sort names)) = length (filter (\<lambda>m. n \<le> m) names)"
    by (simp add: filter_sort)
  then have "n \<in> set (take (length names - keep) (sort names))
      \<longleftrightarrow> keep < length (filter (\<lambda>m. n \<le> m) names)" if "n \<in> set names"
    using in_take_iff [of "sort names" n keep] assms(4) that by simp
  moreover have "set (take (length names - keep) (sort names)) \<subseteq> set names"
    by (metis set_sort set_take_subset)
  ultimately show ?thesis using removed by auto
qed

definition demo_runs_dir :: "entry list" where
  "demo_runs_dir = map (\<lambda>n. Inr (n, Inr True))
     [''20260909T030000000Z-2'', ''latest'', ''20260908T030000000Z-1'', ''20260910T030000000Z-3'']"

theorem prune_keeps_the_newest_witness:
  "''20260908T030000000Z-1'' \<in> set (snd (prune (\<lambda>_. True) (Inr demo_runs_dir) 2))"
proof -
  have names: "runs_in demo_runs_dir
      = Inr [''20260909T030000000Z-2'', ''20260908T030000000Z-1'', ''20260910T030000000Z-3'']"
    by code_simp
  obtain gone removed where prune: "prune (\<lambda>_. True) (Inr demo_runs_dir) 2 = (Inr gone, removed)"
    by (simp add: prune_def names Let_def)
  show ?thesis
    using prune_keeps_the_newest [OF prune _ names, of "''20260908T030000000Z-1''"] by (simp add: prune)
qed

end
