(* ===== verification/Execute.thy ===== *)
theory Execute
  imports Run_Log Observers Daemon Prune
begin

text \<open>
  \<open>beez-daemon/src/run.rs\<close>: one run of one job. What changes while it runs is the record \<open>run_progress\<close>:
  the counts, the open log, the lines reported, and how often the clock was read, twice for every write
  to the log. The manifest, the clock and the processes are what they are while the run lasts.
\<close>

record run_progress =
  rp_tally :: run_tally
  rp_log :: "run_log option"
  rp_reports :: "(string \<times> string) list"
  rp_ticks :: nat

definition warn :: "string \<Rightarrow> string \<Rightarrow> run_progress \<Rightarrow> run_progress" where
  "warn i failure p = p\<lparr>rp_reports := rp_reports p @ [(''Warning'', i @ '': '' @ failure)]\<rparr>"

definition record_action ::
    "(nat \<Rightarrow> instant) \<Rightarrow> string \<Rightarrow> (instant \<Rightarrow> instant \<Rightarrow> log_action) \<Rightarrow> run_progress \<Rightarrow> run_progress" where
  "record_action clock i a p =
     (let n = rp_ticks p;
          (log, failure) = OpenLog_write (a (clock n) (clock (n + 1))) (rp_log p);
          p = p\<lparr>rp_log := log, rp_ticks := n + 2\<rparr> in
      case failure of None \<Rightarrow> p | Some f \<Rightarrow> warn i f p)"

definition record_event ::
    "formats \<Rightarrow> (string \<Rightarrow> io_error option) \<Rightarrow> (nat \<Rightarrow> instant) \<Rightarrow> string \<Rightarrow> run_event
     \<Rightarrow> run_progress \<Rightarrow> run_progress" where
  "record_event fm fails clock i e p =
     record_action clock i (\<lambda>now _. recorder_event fm fails now e)
       (p\<lparr>rp_tally := tally_record e (rp_tally p)\<rparr>)"

definition on_run_event ::
    "formats \<Rightarrow> (string \<Rightarrow> io_error option) \<Rightarrow> (nat \<Rightarrow> instant) \<Rightarrow> string \<Rightarrow> run_progress callback" where
  "on_run_event fm fails clock i e = (\<lambda>p. (Inr (), record_event fm fails clock i e p))"

definition run_failure :: "string \<Rightarrow> run_outcome" where
  "run_failure e = \<lparr>ro_directory = None, ro_status = None, ro_summary = ''0 passed'', ro_error = Some e\<rparr>"

text \<open>
  \<open>pid\<close> and \<open>arguments\<close> are those of the process, \<open>elapsed\<close> the time the run took. The result comes with
  the progress at its end.
\<close>

definition execute ::
    "formats \<Rightarrow> log_files \<Rightarrow> (nat \<Rightarrow> instant) \<Rightarrow> arrivals \<Rightarrow> nat \<Rightarrow> string list \<Rightarrow> nat
     \<Rightarrow> ('p, 'z, 'm) outside_scheme \<Rightarrow> job_run \<Rightarrow> run_outcome \<times> run_progress" where
  "execute fm lf clock arrivals pid arguments elapsed out run =
     (let fails = lf_fails lf;
          p = \<lparr>rp_tally = RunTally_default, rp_log = None, rp_reports = [], rp_ticks = 0\<rparr> in
      case load_manifest out (run_manifest run) of
        Inl e \<Rightarrow> (run_failure (ManifestError_text e), p)
      | Inr m \<Rightarrow>
          let w = mft_workflow m;
              target = WorkflowTarget (run_manifest run) w;
              settings = \<lparr>lg_enabled = True, lg_directory = Some (run_log_directory run)\<rparr>;
              (log, failure) = OpenLog_open settings
                 (\<lambda>root. RunLog_create fm lf (clock 0) pid arguments root target
                           (run_working_directory run));
              p = p\<lparr>rp_log := log, rp_ticks := 1\<rparr>;
              p = (case failure of None \<Rightarrow> p | Some f \<Rightarrow> warn (run_id run) f p);
              directory = (case log of
                  None \<Rightarrow> None
                | Some l \<Rightarrow> map_option utf8_lossy (file_name (rl_directory l)));
              p = (case directory of
                  None \<Rightarrow> p
                | Some d \<Rightarrow> p\<lparr>rp_reports := rp_reports p @ [(''Logging'', run_id run @ '': runs/'' @ d)]\<rparr>);
              p = record_action clock (run_id run)
                    (\<lambda>now _. log_status fm fails now ''Trigger''
                       (run_id run @ '' scheduled for '' @ format_instant (o_calendar out) (run_fire run))) p;
              (result, p) = run_workflow arrivals w (on_run_event fm fails clock (run_id run)) p;
              summary = tally_summary fm (rp_tally p) elapsed;
              exit_code = (case result of Inr c \<Rightarrow> Some c | Inl _ \<Rightarrow> None);
              p = record_action clock (run_id run)
                    (\<lambda>now later. recorder_finish fm fails now later summary exit_code) p
          in (\<lparr>ro_directory = directory, ro_status = exit_code, ro_summary = summary,
               ro_error = (case result of Inl e \<Rightarrow> Some (io_text e) | Inr _ \<Rightarrow> None)\<rparr>, p))"

text \<open>The callback of a run never fails, so it has no influence on the run.\<close>

interpretation recorded: observer "on_run_event fm fails clock i" "record_event fm fails clock i"
  for fm fails clock i
  by unfold_locales (simp add: on_run_event_def)

lemma record_action_tally [simp]: "rp_tally (record_action clock i a p) = rp_tally p"
  by (auto simp: record_action_def warn_def Let_def split: prod.split option.split)

lemma record_event_tally:
  "rp_tally (fold (record_event fm fails clock i) es p) = fold tally_record es (rp_tally p)"
  by (induction es arbitrary: p) (simp_all add: record_event_def)

lemma execute_result:
  assumes "execute fm lf clock arrivals pid arguments elapsed out run = (outcome, p)"
  shows "case load_manifest out (run_manifest run) of
      Inl e \<Rightarrow> outcome = run_failure (ManifestError_text e)
    | Inr m \<Rightarrow>
        (case run_workflow arrivals (mft_workflow m) log_event [] of (result, log) \<Rightarrow>
           ro_summary outcome = tally_summary fm (fold tally_record log RunTally_default) elapsed \<and>
           (case result of
              Inr c \<Rightarrow> ro_status outcome = Some c \<and> ro_error outcome = None
            | Inl e \<Rightarrow> ro_status outcome = None \<and> ro_error outcome = Some (io_text e)))"
proof (cases "load_manifest out (run_manifest run)")
  case (Inl e)
  with assms show ?thesis by (simp add: execute_def Let_def)
next
  case (Inr m)
  obtain result log where plain: "run_workflow arrivals (mft_workflow m) log_event [] = (result, log)"
    by (cases "run_workflow arrivals (mft_workflow m) log_event []")
  note seen = recorded.run_seen [OF plain]
  from assms show ?thesis
    by (auto simp: execute_def Let_def Inr plain seen record_event_tally warn_def
        split: prod.splits option.splits sum.splits)
qed

text \<open>C22. A run of a job refines the run of its workflow: whatever the writes to its log do, it has the
  status or the error of the workflow run on its own, its summary counts the events of that run, and a
  manifest that does not load gives its error and no status.\<close>

theorem execute_refines_run:
  assumes "execute fm lf clock arrivals pid arguments elapsed out run = (outcome, p)"
  shows "case load_manifest out (run_manifest run) of
      Inl e \<Rightarrow> outcome = run_failure (ManifestError_text e)
    | Inr m \<Rightarrow>
        (case run_workflow arrivals (mft_workflow m) log_event [] of (result, log) \<Rightarrow>
           ro_summary outcome = tally_summary fm (fold tally_record log RunTally_default) elapsed \<and>
           (case result of
              Inr c \<Rightarrow> ro_status outcome = Some c \<and> ro_error outcome = None
            | Inl e \<Rightarrow> ro_status outcome = None \<and> ro_error outcome = Some (io_text e)))"
  by (rule execute_result [OF assms])

definition demo_job_run :: job_run where
  "demo_job_run = \<lparr>run_id = ''f'', run_manifest = ''/f.yaml'', run_working_directory = ''/'',
     run_log_directory = ''/.beez'', run_fire = 0\<rparr>"

lemma fst_eq_iff_pair: "fst p = x \<longleftrightarrow> (\<exists>y. p = (x, y))"
  by (cases p) simp

lemma demo_execute_run:
  "\<exists>m log. load_manifest demo_outside (run_manifest demo_job_run) = Inr m
    \<and> run_workflow all_succeed (mft_workflow m) log_event [] = (Inr 0, log)"
proof -
  have "map_sum id (\<lambda>m. fst (run_workflow all_succeed (mft_workflow m) log_event []))
      (load_manifest demo_outside (run_manifest demo_job_run)) = Inr (Inr 0)"
    by code_simp
  then show ?thesis by (cases "load_manifest demo_outside (run_manifest demo_job_run)") (auto simp: fst_eq_iff_pair)
qed

theorem execute_refines_run_witness:
  "ro_status (fst (execute demo_formats demo_files (\<lambda>_. 0) all_succeed 7 [] 0 demo_outside demo_job_run)) = Some 0"
proof -
  obtain outcome p where run:
    "execute demo_formats demo_files (\<lambda>_. 0) all_succeed 7 [] 0 demo_outside demo_job_run = (outcome, p)"
    by (cases "execute demo_formats demo_files (\<lambda>_. 0) all_succeed 7 [] 0 demo_outside demo_job_run")
  then show ?thesis using execute_refines_run [OF run] demo_execute_run
    by (auto split: prod.splits)
qed

end
