(* ===== verification/Report.thy ===== *)
theory Report
  imports Execute
begin

text \<open>
  \<open>beez-cli/src/report.rs\<close>: how the events of a run are drawn on a terminal. The bytes handed to each of the
  two streams are part of the state, with the log, the spinners and the collected output of each task.
  The record \<open>shell\<close> holds what does not change: the formats, the clock, the escape sequences of a
  style, and which stream is broken. Whether escape sequences are kept is \<open>stream_choice\<close>, and
  \<open>stream_bytes\<close> is what reaches a stream; how the spinners are drawn lies behind this model.
\<close>

subsection \<open>Options\<close>

datatype output_mode = StreamMode | GroupedMode

datatype timestamps = DateTime | Elapsed

datatype color_mode = AutoColor | AlwaysColor | NeverColor

record render_options =
  rn_output :: output_mode
  rn_color :: color_mode
  rn_timestamps :: "timestamps option"

definition RenderOptions_default :: render_options where
  "RenderOptions_default = \<lparr>rn_output = StreamMode, rn_color = AutoColor, rn_timestamps = None\<rparr>"

text \<open>\<open>anstream::ColorChoice\<close>, of which \<open>GlobalChoice\<close> is the one of the process.\<close>

datatype stream_choice = GlobalChoice | AlwaysAnsi | NeverAnsi

definition color_choice :: "color_mode \<Rightarrow> stream_choice" where
  "color_choice color =
     (case color of AutoColor \<Rightarrow> GlobalChoice | AlwaysColor \<Rightarrow> AlwaysAnsi | NeverColor \<Rightarrow> NeverAnsi)"

datatype layout = StreamLayout | GroupedLayout | PlainLayout

datatype out_target = Out | Err

definition resolve_layout :: "output_mode \<Rightarrow> nat \<Rightarrow> layout" where
  "resolve_layout mode n =
     (if n < 2 then PlainLayout
      else case mode of StreamMode \<Rightarrow> StreamLayout | GroupedMode \<Rightarrow> GroupedLayout)"

datatype ansi_color = Cyan | Magenta | Green | Yellow | Blue | Red | BrightMagenta

datatype style = Bold ansi_color | Dimmed

definition PALETTE :: "ansi_color list" where
  "PALETTE = [Cyan, Magenta, Green, Yellow, Blue, BrightMagenta]"

definition BLOCK_INDENT :: string where "BLOCK_INDENT = ''    ''"

subsection \<open>State\<close>

record shell =
  sh_formats :: formats
  sh_log_fails :: "string \<Rightarrow> io_error option"
  sh_broken :: "out_target \<Rightarrow> io_error option"
  sh_clock :: "nat \<Rightarrow> instant"
  sh_elapsed :: "nat \<Rightarrow> nat"
  sh_open :: "style \<Rightarrow> string"
  sh_close :: "style \<Rightarrow> string"
  sh_reset :: string

record reporter =
  rt_layout :: layout
  rt_labels :: labels
  rt_timestamps :: "timestamps option"
  rt_out :: string
  rt_err :: string
  rt_log :: "run_log option"
  rt_spinners :: "bool list"
  rt_buffers :: "string list"
  rt_tally :: run_tally
  rt_ticks :: nat

type_synonym 'a reporting = "(reporter, io_error, 'a) Prelude.action"

definition paint :: "shell \<Rightarrow> style \<Rightarrow> string \<Rightarrow> string" where
  "paint sh st s = sh_open sh st @ s @ sh_close sh st"

definition styled_status :: "shell \<Rightarrow> style \<Rightarrow> string \<Rightarrow> string \<Rightarrow> string" where
  "styled_status sh st verb message = sh_reset sh @ paint sh st (pad_right VERB_WIDTH verb) @ ''  '' @ message"

definition style_of :: "string \<Rightarrow> style" where
  "style_of verb =
     (if verb = ''Finished'' then Bold Green
      else if verb = ''Failed'' then Bold Red
      else if verb = ''Blocked'' then Bold Yellow
      else Bold Cyan)"

definition is_blank :: "string \<Rightarrow> bool" where
  "is_blank line \<longleftrightarrow> list_all (\<lambda>b. b = newline \<or> b = CHR 0x0D \<or> b = CHR '' '' \<or> b = CHR 0x09) line"

definition label_prefix :: "shell \<Rightarrow> labels \<Rightarrow> nat \<Rightarrow> string" where
  "label_prefix sh ls i =
     paint sh (Bold (PALETTE ! (i mod length PALETTE))) (pad_right (lb_width ls) (labels_get ls i))"

text \<open>What goes in front of a line. Each call reads the clock once.\<close>

definition pad_left :: "nat \<Rightarrow> string \<Rightarrow> string" where
  "pad_left w s = replicate (w - length (chars s)) CHR '' '' @ s"

definition stamp :: "shell \<Rightarrow> reporter \<Rightarrow> string" where
  "stamp sh r =
     (case rt_timestamps r of
        None \<Rightarrow> []
      | Some t \<Rightarrow>
          paint sh Dimmed
            (case t of
               DateTime \<Rightarrow> utc (sh_formats sh) (sh_clock sh (rt_ticks r))
             | Elapsed \<Rightarrow> pad_left 8 (f_seconds (sh_formats sh) (sh_elapsed sh (rt_ticks r)))) @ '' '')"

definition tick :: "reporter \<Rightarrow> reporter" where
  "tick r = r\<lparr>rt_ticks := rt_ticks r + 1\<rparr>"

subsection \<open>The terminal\<close>

definition put :: "out_target \<Rightarrow> string \<Rightarrow> reporter \<Rightarrow> reporter" where
  "put t s r =
     (case t of Out \<Rightarrow> r\<lparr>rt_out := rt_out r @ s\<rparr> | Err \<Rightarrow> r\<lparr>rt_err := rt_err r @ s\<rparr>)"

definition write_to :: "shell \<Rightarrow> out_target \<Rightarrow> string \<Rightarrow> unit reporting" where
  "write_to sh t s = (\<lambda>r. case sh_broken sh t of Some e \<Rightarrow> (Inl e, r) | None \<Rightarrow> (Inr (), put t s r))"

definition terminal_line :: "shell \<Rightarrow> out_target \<Rightarrow> string \<Rightarrow> unit reporting" where
  "terminal_line sh t s = (\<lambda>r. write_to sh t (stamp sh r @ s @ [newline]) (tick r))"

definition captured :: "shell \<Rightarrow> process_output \<Rightarrow> unit reporting" where
  "captured sh out = sbind (write_to sh Out (po_stdout out)) (\<lambda>_. write_to sh Err (po_stderr out))"

definition report_warn :: "shell \<Rightarrow> string \<Rightarrow> reporter \<Rightarrow> reporter" where
  "report_warn sh failure r = snd (terminal_line sh Err (styled_status sh (Bold Yellow) ''Warning'' failure) r)"

definition terminal_log :: "shell \<Rightarrow> (instant \<Rightarrow> instant \<Rightarrow> log_action) \<Rightarrow> reporter \<Rightarrow> reporter" where
  "terminal_log sh a r =
     (let n = rt_ticks r;
          (log, failure) = OpenLog_write (a (sh_clock sh n) (sh_clock sh (n + 1))) (rt_log r);
          r = r\<lparr>rt_log := log, rt_ticks := n + 2\<rparr> in
      case failure of None \<Rightarrow> r | Some f \<Rightarrow> report_warn sh f r)"

definition diagnostic_sink :: "shell \<Rightarrow> string \<Rightarrow> reporter \<Rightarrow> reporter" where
  "diagnostic_sink sh message r =
     snd (terminal_line sh Err (styled_status sh (Bold Yellow) ''Sandbox'' message)
       (terminal_log sh (\<lambda>now _. log_status (sh_formats sh) (sh_log_fails sh) now ''Sandbox'' message) r))"

subsection \<open>The reporter\<close>

definition announce :: "shell \<Rightarrow> (string \<Rightarrow> string) \<Rightarrow> string option \<Rightarrow> string option \<Rightarrow> reporter \<Rightarrow> reporter" where
  "announce sh display directory failure r =
     (let r = (case directory of
            None \<Rightarrow> r
          | Some d \<Rightarrow> snd (terminal_line sh Err (styled_status sh (Bold Cyan) ''Logging'' (display d)) r)) in
      case failure of None \<Rightarrow> r | Some f \<Rightarrow> report_warn sh f r)"

text \<open>\<open>display\<close> words a directory from the working directory, and \<open>create\<close> opens the log.\<close>

definition Reporter_new ::
    "shell \<Rightarrow> (string \<Rightarrow> string) \<Rightarrow> run_target \<Rightarrow> render_options \<Rightarrow> log_settings
     \<Rightarrow> (string option \<Rightarrow> io_error + run_log) \<Rightarrow> reporter" where
  "Reporter_new sh display target opts settings create =
     (let ls = target_labels target;
          n = length (lb_labels ls);
          layout = resolve_layout (rn_output opts) n;
          (log, failure) = OpenLog_open settings create;
          r = \<lparr>rt_layout = layout, rt_labels = ls, rt_timestamps = rn_timestamps opts, rt_out = [], rt_err = [],
               rt_log = log, rt_spinners = replicate n False, rt_buffers = replicate n [],
               rt_tally = RunTally_default, rt_ticks = 1\<rparr> in
      if layout \<noteq> PlainLayout then announce sh display (map_option rl_directory log) failure r else r)"

text \<open>
  What leaves the process: each stream goes through an \<open>AutoStream\<close> with the choice of the options, and
  \<open>adapt\<close> is what that library makes of the bytes it is given.
\<close>

definition stream_bytes ::
    "(stream_choice \<Rightarrow> out_target \<Rightarrow> string \<Rightarrow> string) \<Rightarrow> render_options \<Rightarrow> reporter \<Rightarrow> out_target \<Rightarrow> string" where
  "stream_bytes adapt opts r t =
     adapt (color_choice (rn_color opts)) t (case t of Out \<Rightarrow> rt_out r | Err \<Rightarrow> rt_err r)"

definition start_spinner :: "nat \<Rightarrow> reporter \<Rightarrow> reporter" where
  "start_spinner i r =
     (if rt_layout r = StreamLayout then r\<lparr>rt_spinners := (rt_spinners r)[i := True]\<rparr> else r)"

definition stop_spinner :: "nat \<Rightarrow> reporter \<Rightarrow> reporter" where
  "stop_spinner i r = r\<lparr>rt_spinners := (rt_spinners r)[i := False]\<rparr>"

definition grouped_line :: "shell \<Rightarrow> reporter \<Rightarrow> string \<Rightarrow> string" where
  "grouped_line sh r line =
     (if is_blank line then [newline]
      else stamp sh r @ BLOCK_INDENT @ utf8_lossy (trim_newline line) @ [newline])"

definition stream_line :: "shell \<Rightarrow> labels \<Rightarrow> nat \<Rightarrow> output_stream \<Rightarrow> string \<Rightarrow> string" where
  "stream_line sh ls i stream line =
     label_prefix sh ls i @ '' '' @ paint sh Dimmed (stream_mark stream) @ '' '' @ utf8_lossy (trim_newline line)"

definition report_output :: "shell \<Rightarrow> nat \<Rightarrow> output_stream \<Rightarrow> string \<Rightarrow> unit reporting" where
  "report_output sh i stream line = (\<lambda>r.
     case rt_layout r of
       PlainLayout \<Rightarrow> (Inr (), r)
     | GroupedLayout \<Rightarrow>
         (Inr (), (tick r)\<lparr>rt_buffers :=
            (case get_at (rt_buffers r) i of
               None \<Rightarrow> rt_buffers r
             | Some b \<Rightarrow> (rt_buffers r)[i := b @ grouped_line sh r line])\<rparr>)
     | StreamLayout \<Rightarrow> terminal_line sh Out (stream_line sh (rt_labels r) i stream line) r)"

definition show_status :: "shell \<Rightarrow> style \<Rightarrow> string \<Rightarrow> string \<Rightarrow> unit reporting" where
  "show_status sh st verb message = (\<lambda>r.
     if rt_layout r = PlainLayout then (Inr (), r)
     else terminal_line sh Err (styled_status sh st verb message) r)"

definition report_status :: "shell \<Rightarrow> run_event \<Rightarrow> unit reporting" where
  "report_status sh e = (\<lambda>r.
     case outcome_of e of
       None \<Rightarrow> (Inr (), r)
     | Some o' \<Rightarrow>
         (case outcome_line (sh_formats sh) o' (labels_get (rt_labels r) (event_position e)) of
            (verb, message) \<Rightarrow> show_status sh (style_of verb) verb message r))"

definition reporter_event :: "shell \<Rightarrow> run_event \<Rightarrow> unit reporting" where
  "reporter_event sh e = (\<lambda>r.
     let r = terminal_log sh (\<lambda>now _. recorder_event (sh_formats sh) (sh_log_fails sh) now e) r;
         i = event_position e;
         r = r\<lparr>rt_tally := tally_record e (rt_tally r)\<rparr> in
     case e of
       Output t stream line \<Rightarrow> report_output sh i stream line r
     | Finished t out elapsed \<Rightarrow>
         if rt_layout r = PlainLayout then captured sh out r
         else
           sbind (\<lambda>r. if rt_layout r = GroupedLayout
               then write_to sh Out (case get_at (rt_buffers r) i of Some b \<Rightarrow> b | None \<Rightarrow> []) r
               else (Inr (), r)) (\<lambda>_. report_status sh e) (stop_spinner i r)
     | Started t \<Rightarrow>
         if rt_layout r = StreamLayout then (Inr (), start_spinner i r) else report_status sh e r
     | _ \<Rightarrow> report_status sh e (stop_spinner i r))"

definition reporter_finish :: "shell \<Rightarrow> int option \<Rightarrow> unit reporting" where
  "reporter_finish sh exit_status = (\<lambda>r.
     let st = (if 0 < tl_failed (rt_tally r) then Bold Red else Bold Green);
         message = tally_summary (sh_formats sh) (rt_tally r) (sh_elapsed sh (rt_ticks r));
         r = terminal_log sh
               (\<lambda>now later. recorder_finish (sh_formats sh) (sh_log_fails sh) now later message exit_status)
               (tick r) in
     show_status sh st ''Summary'' message r)"

subsection \<open>What reaches the terminal\<close>

definition unbroken :: "shell \<Rightarrow> shell" where
  "unbroken sh = sh\<lparr>sh_broken := (\<lambda>_. None)\<rparr>"

definition shown_event :: "shell \<Rightarrow> run_event \<Rightarrow> reporter \<Rightarrow> reporter" where
  "shown_event sh e r = snd (reporter_event (unbroken sh) e r)"

lemma unbroken_simps [simp]:
  "sh_broken (unbroken sh) t = None" "sh_formats (unbroken sh) = sh_formats sh"
  "sh_log_fails (unbroken sh) = sh_log_fails sh" "sh_clock (unbroken sh) = sh_clock sh"
  "sh_elapsed (unbroken sh) = sh_elapsed sh" "paint (unbroken sh) = paint sh" "stamp (unbroken sh) = stamp sh"
  "sh_reset (unbroken sh) = sh_reset sh"
  by (simp_all add: unbroken_def paint_def stamp_def fun_eq_iff split: option.split timestamps.split)

lemma write_unbroken [simp]: "write_to (unbroken sh) t s r = (Inr (), put t s r)"
  by (simp add: write_to_def)

lemma line_unbroken [simp]:
  "terminal_line (unbroken sh) t s r = (Inr (), put t (stamp sh r @ s @ [newline]) (tick r))"
  by (simp add: terminal_line_def)

lemma put_keeps [simp]:
  "rt_layout (put t s r) = rt_layout r" "rt_labels (put t s r) = rt_labels r" "rt_timestamps (put t s r) = rt_timestamps r"
  "rt_log (put t s r) = rt_log r" "rt_spinners (put t s r) = rt_spinners r" "rt_buffers (put t s r) = rt_buffers r"
  "rt_tally (put t s r) = rt_tally r" "rt_out (put Out s r) = rt_out r @ s" "rt_out (put Err s r) = rt_out r"
  by (cases t; simp add: put_def)+

lemma tick_keeps [simp]:
  "rt_layout (tick r) = rt_layout r" "rt_labels (tick r) = rt_labels r" "rt_timestamps (tick r) = rt_timestamps r"
  "rt_log (tick r) = rt_log r" "rt_spinners (tick r) = rt_spinners r" "rt_buffers (tick r) = rt_buffers r"
  "rt_tally (tick r) = rt_tally r" "rt_out (tick r) = rt_out r" "rt_err (tick r) = rt_err r"
  by (simp_all add: tick_def)

lemma terminal_log_keeps [simp]:
  "rt_layout (terminal_log (unbroken sh) a r) = rt_layout r" "rt_labels (terminal_log (unbroken sh) a r) = rt_labels r"
  "rt_timestamps (terminal_log (unbroken sh) a r) = rt_timestamps r"
  "rt_spinners (terminal_log (unbroken sh) a r) = rt_spinners r"
  "rt_buffers (terminal_log (unbroken sh) a r) = rt_buffers r" "rt_tally (terminal_log (unbroken sh) a r) = rt_tally r"
  "rt_out (terminal_log (unbroken sh) a r) = rt_out r"
  by (auto simp: terminal_log_def report_warn_def Let_def split: prod.split option.split)

lemma spinners_keep [simp]:
  "rt_out (start_spinner i r) = rt_out r" "rt_layout (start_spinner i r) = rt_layout r"
  "rt_labels (start_spinner i r) = rt_labels r" "rt_timestamps (start_spinner i r) = rt_timestamps r"
  "rt_buffers (start_spinner i r) = rt_buffers r" "rt_tally (start_spinner i r) = rt_tally r"
  "rt_out (stop_spinner i r) = rt_out r" "rt_layout (stop_spinner i r) = rt_layout r"
  "rt_labels (stop_spinner i r) = rt_labels r" "rt_timestamps (stop_spinner i r) = rt_timestamps r"
  "rt_buffers (stop_spinner i r) = rt_buffers r" "rt_tally (stop_spinner i r) = rt_tally r"
  by (simp_all add: start_spinner_def stop_spinner_def)

lemma report_status_unbroken:
  "fst (report_status (unbroken sh) e r) = Inr ()"
  "rt_out (snd (report_status (unbroken sh) e r)) = rt_out r"
  "rt_layout (snd (report_status (unbroken sh) e r)) = rt_layout r"
  "rt_labels (snd (report_status (unbroken sh) e r)) = rt_labels r"
  "rt_timestamps (snd (report_status (unbroken sh) e r)) = rt_timestamps r"
  "rt_buffers (snd (report_status (unbroken sh) e r)) = rt_buffers r"
  "rt_tally (snd (report_status (unbroken sh) e r)) = rt_tally r"
  by (simp_all add: report_status_def show_status_def split: option.split prod.split)

text \<open>A reporter whose streams work never fails, so it has no influence on the run.\<close>

lemma reporter_event_unbroken: "reporter_event (unbroken sh) e r = (Inr (), shown_event sh e r)"
proof -
  have "fst (reporter_event (unbroken sh) e r) = Inr ()"
    by (cases e)
      (simp_all add: reporter_event_def Let_def report_output_def captured_def sbind_def report_status_unbroken
        split: layout.split)
  then show ?thesis by (cases "reporter_event (unbroken sh) e r") (simp add: shown_event_def)
qed

interpretation shown: observer "reporter_event (unbroken sh)" "shown_event sh" for sh
  by unfold_locales (rule reporter_event_unbroken)

text \<open>The text of a line in each layout, and all text of a run, with the events already seen.\<close>

definition grouped_text :: "string \<Rightarrow> string" where
  "grouped_text line =
     (if is_blank line then [newline] else BLOCK_INDENT @ utf8_lossy (trim_newline line) @ [newline])"

definition lines_of :: "nat \<Rightarrow> run_event list \<Rightarrow> string" where
  "lines_of i es = concat (map (\<lambda>e. case e of
       Output t stream line \<Rightarrow> if task_position t = i then grouped_text line else [] | _ \<Rightarrow> []) es)"

definition event_text :: "shell \<Rightarrow> labels \<Rightarrow> layout \<Rightarrow> run_event list \<Rightarrow> run_event \<Rightarrow> string" where
  "event_text sh ls l seen e =
     (case l of
        PlainLayout \<Rightarrow> (case e of Finished t out el \<Rightarrow> po_stdout out | _ \<Rightarrow> [])
      | GroupedLayout \<Rightarrow> (case e of Finished t out el \<Rightarrow> lines_of (task_position t) seen | _ \<Rightarrow> [])
      | StreamLayout \<Rightarrow>
          (case e of
             Output t stream line \<Rightarrow> stream_line sh ls (task_position t) stream line @ [newline]
           | _ \<Rightarrow> []))"

fun run_text :: "shell \<Rightarrow> labels \<Rightarrow> layout \<Rightarrow> run_event list \<Rightarrow> run_event list \<Rightarrow> string" where
  "run_text sh ls l seen [] = []"
| "run_text sh ls l seen (e # es) = event_text sh ls l seen e @ run_text sh ls l (seen @ [e]) es"

definition collected :: "nat \<Rightarrow> run_event list \<Rightarrow> reporter \<Rightarrow> bool" where
  "collected n seen r \<longleftrightarrow>
     rt_timestamps r = None
     \<and> rt_buffers r = (if rt_layout r = GroupedLayout then map (\<lambda>i. lines_of i seen) [0..<n] else replicate n [])"

lemma lines_of_snoc: "lines_of i (seen @ [e]) = lines_of i seen
    @ (case e of Output t stream line \<Rightarrow> if task_position t = i then grouped_text line else [] | _ \<Rightarrow> [])"
  by (simp add: lines_of_def)

lemma stream_line_unbroken [simp]: "stream_line (unbroken sh) = stream_line sh"
  by (simp add: stream_line_def [abs_def] label_prefix_def)

lemma shown_event_step:
  assumes "collected n seen r" and "event_position e < n"
  shows "collected n (seen @ [e]) (shown_event sh e r)
    \<and> rt_out (shown_event sh e r) = rt_out r @ event_text sh (rt_labels r) (rt_layout r) seen e
    \<and> rt_layout (shown_event sh e r) = rt_layout r \<and> rt_labels (shown_event sh e r) = rt_labels r"
proof (cases e)
  case (Output t stream line)
  then show ?thesis using assms
    by (cases "rt_layout r")
      (auto simp: shown_event_def reporter_event_def Let_def report_output_def collected_def event_text_def
        lines_of_snoc event_position_def get_at_def grouped_line_def grouped_text_def stamp_def
        nth_list_update intro!: nth_equalityI)
next
  case (Finished t out el)
  then show ?thesis using assms
    by (cases "rt_layout r")
      (auto simp: shown_event_def reporter_event_def Let_def captured_def collected_def event_text_def
        lines_of_snoc event_position_def get_at_def sbind_def report_status_unbroken)
qed (use assms in \<open>auto simp: shown_event_def reporter_event_def Let_def collected_def event_text_def
  lines_of_snoc report_status_unbroken split: layout.split\<close>)


text \<open>Two tasks that write in turn, grouped.\<close>

definition demo_shell :: shell where
  "demo_shell = \<lparr>sh_formats = demo_formats, sh_log_fails = (\<lambda>_. None), sh_broken = (\<lambda>_. None), sh_clock = (\<lambda>_. 0),
     sh_elapsed = (\<lambda>_. 0), sh_open = (\<lambda>_. []), sh_close = (\<lambda>_. []), sh_reset = []\<rparr>"

definition demo_reporter :: reporter where
  "demo_reporter = \<lparr>rt_layout = GroupedLayout, rt_labels = Labels_new [''a'', ''b''], rt_timestamps = None,
     rt_out = [], rt_err = [], rt_log = None, rt_spinners = [False, False], rt_buffers = [[], []],
     rt_tally = RunTally_default, rt_ticks = 0\<rparr>"

definition demo_interleaving :: "run_event list" where
  "demo_interleaving = [Started (Some 0), Started (Some 1), Output (Some 0) StdoutStream ''x'',
     Output (Some 1) StdoutStream ''y'', Output (Some 0) StderrStream ''z'',
     Finished (Some 1) \<lparr>po_stdout = ''y'', po_stderr = [], po_status = Some 0\<rparr> 0,
     Finished (Some 0) \<lparr>po_stdout = ''x'', po_stderr = ''z'', po_status = Some 0\<rparr> 0]"


text \<open>The output a task wrote before its process failed is not shown when it is grouped: only a task that
  finished is printed.\<close>

lemma failed_task_shows_nothing:
  "rt_out (fold (shown_event demo_shell)
     [Started (Some 0), Output (Some 0) StdoutStream ''x'', FailedEvent (Some 0) ''BrokenPipe'' 0] demo_reporter) = []"
  by code_simp

end
