(* ===== verification/Resolve.thy ===== *)
theory Resolve
  imports Process "HOL-Library.List_Lexorder" "HOL-Library.Char_ord"
begin

text \<open>
  \<open>beez-sandbox/src/resolve.rs\<close>: a policy turned into paths of this host. What the code asks
  the host is the record \<open>host\<close>. A \<open>BTreeSet\<close> of paths is its list in the order of Rust's paths, which
  compares components.
\<close>

subsection \<open>The order of paths\<close>

primrec component_rank :: "component \<Rightarrow> nat" where
  "component_rank RootDir = 0"
| "component_rank CurDir = 1"
| "component_rank ParentDir = 2"
| "component_rank (Normal s) = 3"

instantiation component :: linorder
begin

definition less_eq_component :: "component \<Rightarrow> component \<Rightarrow> bool" where
  "less_eq_component c d \<longleftrightarrow>
     component_rank c < component_rank d \<or>
     component_rank c = component_rank d \<and> component_text c \<le> component_text d"

definition less_component :: "component \<Rightarrow> component \<Rightarrow> bool" where
  "less_component c d \<longleftrightarrow> c \<le> d \<and> \<not> d \<le> c"

instance
proof
  fix c d e :: component
  show "c < d \<longleftrightarrow> c \<le> d \<and> \<not> d \<le> c" by (simp add: less_component_def)
  show "c \<le> c" by (simp add: less_eq_component_def)
  show "c \<le> d \<Longrightarrow> d \<le> e \<Longrightarrow> c \<le> e" by (auto simp: less_eq_component_def)
  show "c \<le> d \<Longrightarrow> d \<le> c \<Longrightarrow> c = d"
    by (cases c; cases d) (auto simp: less_eq_component_def)
  show "c \<le> d \<or> d \<le> c" by (auto simp: less_eq_component_def)
qed

end

text \<open>Collecting into a set keeps the last of equal paths; inserting one keeps the path already there.\<close>

fun keep_last :: "string list \<Rightarrow> string list" where
  "keep_last (p # q # ps) =
     (if path_eq p q then keep_last (q # ps) else p # keep_last (q # ps))"
| "keep_last ps = ps"

definition dedup :: "string list \<Rightarrow> string list" where
  "dedup ps = keep_last (sort_key components ps)"

definition set_insert :: "string \<Rightarrow> string list \<Rightarrow> string list" where
  "set_insert p ps = (if list_ex (path_eq p) ps then ps else insort_key components p ps)"

definition set_extend :: "string list \<Rightarrow> string list \<Rightarrow> string list" where
  "set_extend new ps = fold set_insert new ps"

definition path_in :: "string \<Rightarrow> string list \<Rightarrow> bool" where
  "path_in p ps \<longleftrightarrow> list_ex (path_eq p) ps"

lemma path_in_iff: "path_in p ps \<longleftrightarrow> components p \<in> components ` set ps"
  by (auto simp: path_in_def list_ex_iff path_eq_def)

lemma set_keep_last: "set (keep_last ps) \<subseteq> set ps"
  by (induction ps rule: keep_last.induct) auto

lemma components_keep_last: "components ` set (keep_last ps) = components ` set ps"
  by (induction ps rule: keep_last.induct) (auto simp: path_eq_def)

lemma keep_last_Nil [simp]: "keep_last ps = [] \<longleftrightarrow> ps = []"
  by (induction ps rule: keep_last.induct) auto

lemma keep_last_sorted:
  "sorted (map components ps) \<Longrightarrow> sorted_wrt (<) (map components (keep_last ps))"
proof (induction ps rule: keep_last.induct)
  case (1 p q ps)
  have rest: "sorted_wrt (<) (map components (keep_last (q # ps)))" using 1 by (auto split: if_splits)
  show ?case
  proof (cases "path_eq p q")
    case False
    then have "components p < components q" using "1.prems" by (auto simp: path_eq_def less_le)
    moreover have "components q \<le> c" if "c \<in> components ` set (keep_last (q # ps))" for c
      using that "1.prems" unfolding components_keep_last by auto
    ultimately have "\<forall>r\<in>set (keep_last (q # ps)). components p < components r"
      by (meson image_eqI order.strict_trans1 order.strict_trans2)
    then show ?thesis using False rest by simp
  qed (use rest in simp)
qed auto

lemma dedup_facts:
  "set (dedup ps) \<subseteq> set ps"
  "path_in p (dedup ps) \<longleftrightarrow> path_in p ps"
  "sorted_wrt (<) (map components (dedup ps))"
proof -
  show "set (dedup ps) \<subseteq> set ps" using set_keep_last [of "sort_key components ps"] by (simp add: dedup_def)
  show "path_in p (dedup ps) \<longleftrightarrow> path_in p ps"
    by (simp add: path_in_iff dedup_def components_keep_last)
  show "sorted_wrt (<) (map components (dedup ps))"
    unfolding dedup_def by (rule keep_last_sorted) simp
qed

lemma prefix_less: "strict_prefix xs ys \<Longrightarrow> xs < (ys :: 'a :: linorder list)"
proof (induction xs arbitrary: ys)
  case Nil
  then show ?case by (cases ys) auto
next
  case (Cons x xs)
  then show ?case by (cases ys) auto
qed

subsection \<open>Paths of the host\<close>

text \<open>The target the program was built for, which decides what \<open>cfg\<close> compiles.\<close>

datatype platform = Linux | MacOs | OtherPlatform

record host =
  h_platform :: platform
  h_canonicalize :: "string \<Rightarrow> io_error + string"
  h_exists :: "string \<Rightarrow> bool"
  h_is_dir :: "string \<Rightarrow> bool"
  h_is_file :: "string \<Rightarrow> bool"
  h_executable :: "string \<Rightarrow> bool"
  h_head :: "string \<Rightarrow> string option"
  h_search_path :: "string list"
  h_temp_dir :: string
  h_entries :: "string \<Rightarrow> string list"

definition canonical_path :: "host \<Rightarrow> string \<Rightarrow> string option" where
  "canonical_path h p = to_option (h_canonicalize h p)"

definition canonical :: "host \<Rightarrow> string \<Rightarrow> string \<Rightarrow> sandbox_path \<Rightarrow> string option" where
  "canonical h home working_directory p = canonical_path h (SandboxPath_resolve p home working_directory)"

definition existing :: "host \<Rightarrow> string \<Rightarrow> string \<Rightarrow> sandbox_path list \<Rightarrow> string list" where
  "existing h home working_directory ps = dedup (List.map_filter (canonical h home working_directory) ps)"

function lenient_loop :: "host \<Rightarrow> string \<Rightarrow> string \<Rightarrow> string list \<Rightarrow> string" where
  "lenient_loop h path current missing =
     (case canonical_path h current of
        Some c \<Rightarrow> foldl path_join c missing
      | None \<Rightarrow>
          (case file_name current of
             None \<Rightarrow> path
           | Some name \<Rightarrow>
               (case parent current of
                  None \<Rightarrow> path
                | Some up \<Rightarrow> lenient_loop h path up (name # missing))))"
  by pat_completeness auto
termination
  by (relation "measure (\<lambda>(_, _, current, _). length (components current))")
    (simp_all add: parent_shorter)

declare lenient_loop.simps [simp del]

definition canonicalize_lenient :: "host \<Rightarrow> string \<Rightarrow> string" where
  "canonicalize_lenient h path =
     (case canonical_path h path of Some c \<Rightarrow> c | None \<Rightarrow> lenient_loop h path path [])"

subsection \<open>Programs\<close>

definition find_on_path :: "host \<Rightarrow> string \<Rightarrow> string option" where
  "find_on_path h name = find (h_executable h) (map (\<lambda>d. path_join d name) (h_search_path h))"

definition canonical_executable :: "host \<Rightarrow> string \<Rightarrow> string option" where
  "canonical_executable h path =
     (case canonical_path h path of
        Some c \<Rightarrow> if h_executable h c then Some c else None
      | None \<Rightarrow> None)"

definition locate_program :: "host \<Rightarrow> string \<Rightarrow> string \<Rightarrow> string option" where
  "locate_program h program working_directory =
     Option.bind
       (if length (components program) = 1 \<and> hd (components program) \<noteq> RootDir
        then find_on_path h program else Some (path_join working_directory program))
       (canonical_executable h)"

definition MACOS_TOOLCHAIN_DIRECTORIES :: "string list" where
  "MACOS_TOOLCHAIN_DIRECTORIES =
     [''/Library/Developer/CommandLineTools/usr'', ''/Applications/Xcode.app/Contents/Developer/usr'']"

definition program_locations :: "host \<Rightarrow> string \<Rightarrow> string list" where
  "program_locations h name =
     (case Option.bind (find_on_path h name) (canonical_executable h) of Some p \<Rightarrow> [p] | None \<Rightarrow> [])
     @ (if h_platform h = MacOs then
          List.map_filter (canonical_executable h)
            (map (\<lambda>d. path_join (path_join d ''bin'') name) MACOS_TOOLCHAIN_DIRECTORIES)
        else [])"

definition HARNESS_PROGRAMS :: "string list" where
  "HARNESS_PROGRAMS = [''sh'', ''bash'', ''zsh'', ''env'', ''node'', ''bun'', ''rg'']"

definition GIT_HELPER_DIRECTORIES :: "string list" where
  "GIT_HELPER_DIRECTORIES = [''libexec/git-core'', ''lib/git-core'']"

definition LOADER_DIRECTORIES :: "string list" where
  "LOADER_DIRECTORIES = [''/lib'', ''/lib64'', ''/usr/lib'']"

definition dynamic_loaders :: "host \<Rightarrow> string list" where
  "dynamic_loaders h =
     List.map_filter (canonical_path h)
       (concat (map (\<lambda>d. map (path_join d) (filter (prefix ''ld-'') (h_entries h d))) LOADER_DIRECTORIES))"

definition git_helper_directories :: "host \<Rightarrow> string \<Rightarrow> string list" where
  "git_helper_directories h git =
     (case Option.bind (parent git) parent of
        None \<Rightarrow> []
      | Some up \<Rightarrow> filter (h_is_dir h) (map (path_join up) GIT_HELPER_DIRECTORIES))"

definition shebang_interpreters :: "host \<Rightarrow> string \<Rightarrow> string list" where
  "shebang_interpreters h script =
     (case Option.bind (h_head h script) (strip_prefix ''#!'') of
        None \<Rightarrow> []
      | Some rest \<Rightarrow>
          (case split_whitespace (utf8_lossy (hd (split_at_char newline rest))) of
             [] \<Rightarrow> []
           | interpreter # arguments \<Rightarrow>
               (case canonical_path h interpreter of Some c \<Rightarrow> [c] | None \<Rightarrow> [])
               @ (if file_name interpreter = Some ''env'' then
                    (case find (\<lambda>w. \<not> prefix ''-'' w) arguments of
                       None \<Rightarrow> []
                     | Some name \<Rightarrow> program_locations h name)
                  else [])))"

definition resolve_executables ::
    "host \<Rightarrow> executable_group list \<Rightarrow> sandbox_path list \<Rightarrow> string \<Rightarrow> string \<Rightarrow> string \<Rightarrow> string list" where
  "resolve_executables h groups allow program home working_directory =
     (let names = HARNESS_PROGRAMS @ concat (map programs groups) @ map path_text (filter is_bare_name allow);
          paths = set_extend (concat (map (program_locations h) names)) [program];
          paths = set_extend
            (List.map_filter (canonical h home working_directory) (filter (\<lambda>p. \<not> is_bare_name p) allow)) paths;
          paths = (if executable_group.Git \<in> set groups
                   then set_extend (concat (map (git_helper_directories h)
                          (filter (\<lambda>p. file_name p = Some ''git'') paths))) paths
                   else paths);
          paths = set_extend (concat (map (shebang_interpreters h) (filter (h_is_file h) paths))) paths
      in set_extend (if h_platform h = Linux then dynamic_loaders h else []) paths)"

subsection \<open>The resolved policy\<close>

record resolved_sandbox =
  rs_allowed_domains :: "domain_rule list"
  rs_localhost :: bool
  rs_read_deny :: "string list"
  rs_write_allow :: "string list"
  rs_write_deny :: "string list"
  rs_executables :: "string list option"
  rs_environment :: "(string \<times> string) list"
  rs_working_directory :: string
  rs_program :: string

definition ResolvedSandbox_resolve ::
    "host \<Rightarrow> sandbox_policy \<Rightarrow> headless_harness option \<Rightarrow> string \<Rightarrow> string \<Rightarrow> string
     \<Rightarrow> io_error + resolved_sandbox" where
  "ResolvedSandbox_resolve h policy harness program working_directory home =
     and_then (h_canonicalize h working_directory) (\<lambda>wd.
     let profile = map_option for_harness harness in
     and_then (ok_or (IoError ''NotFound'' (''sandbox cannot find program '' @ program))
                 (locate_program h program wd)) (\<lambda>program.
     let fs = sp_filesystem policy;
         allow = existing h home wd (write_allow fs profile);
         allow = allow @ (if fs_defaults fs
                          then (case canonical_path h (h_temp_dir h) of Some t \<Rightarrow> [t] | None \<Rightarrow> []) else []);
         deny = dedup (map (\<lambda>p. canonicalize_lenient h (SandboxPath_resolve p home wd)) (write_deny fs));
         allow = allow @ (case sp_executables policy of
             None \<Rightarrow> []
           | Some e \<Rightarrow> existing h home wd (concat (map state_sandbox_paths (executable_groups e))));
         executables = map_option
           (\<lambda>e. resolve_executables h (executable_groups e) (ep_allow e) program home wd)
           (sp_executables policy)
     in Inr \<lparr>rs_allowed_domains = allowed_domains (sp_network policy) profile,
             rs_localhost = localhost (sp_network policy),
             rs_read_deny = existing h home wd (read_deny fs),
             rs_write_allow = dedup allow, rs_write_deny = deny, rs_executables = executables,
             rs_environment = (case profile of Some p \<Rightarrow> environment p | None \<Rightarrow> []),
             rs_working_directory = wd, rs_program = program\<rparr>))"

definition inside_write_allow :: "resolved_sandbox \<Rightarrow> string \<Rightarrow> bool" where
  "inside_write_allow r path \<longleftrightarrow>
     list_ex (\<lambda>allowed. path_starts_with path allowed \<and> \<not> path_eq path allowed) (rs_write_allow r)"

definition protected_ancestors :: "resolved_sandbox \<Rightarrow> string list" where
  "protected_ancestors r =
     dedup (filter (inside_write_allow r) (concat (map (\<lambda>denied. tl (ancestors denied)) (rs_write_deny r))))"

subsection \<open>Missing paths\<close>

lemma file_name_snoc: "components p = cs @ [Normal s] \<Longrightarrow> file_name p = Some s"
  by (simp add: file_name_def)

lemma parent_snoc: "components p = cs @ [Normal s] \<Longrightarrow> parent p = Some (from_components cs)"
  by (simp add: parent_def)

lemma lenient_loop_finds:
  assumes "components current = cs @ map Normal ns" and "well_formed (components current)"
    and "ns \<noteq> [] \<longrightarrow> canonical_path h current = None"
    and "\<And>ms. strict_prefix ms ns \<Longrightarrow> ms \<noteq> [] \<Longrightarrow> canonical_path h (from_components (cs @ map Normal ms)) = None"
    and "canonical_path h (if ns = [] then current else from_components cs) = Some c"
  shows "lenient_loop h path current missing = foldl path_join c (ns @ missing)"
  using assms
proof (induction ns arbitrary: current missing rule: rev_induct)
  case Nil
  then show ?case by (simp add: lenient_loop.simps [of h path current])
next
  case (snoc n ns)
  let ?up = "from_components (cs @ map Normal ns)"
  have comps: "components current = (cs @ map Normal ns) @ [Normal n]" using snoc.prems(1) by simp
  have wf: "well_formed (cs @ map Normal ns)"
    using snoc.prems(2) well_formed_append unfolding comps by blast
  have loop: "lenient_loop h path current missing = lenient_loop h path ?up (n # missing)"
    using snoc.prems(3) file_name_snoc [OF comps] parent_snoc [OF comps]
    by (subst lenient_loop.simps) simp
  have "lenient_loop h path ?up (n # missing) = foldl path_join c (ns @ n # missing)"
  proof (rule snoc.IH)
    show "components ?up = cs @ map Normal ns" using wf by simp
    show "well_formed (components ?up)" by simp
    show "ns \<noteq> [] \<longrightarrow> canonical_path h ?up = None"
      using snoc.prems(4) [of ns] by (simp add: strict_prefix_def)
    show "canonical_path h (from_components (cs @ map Normal ms)) = None"
      if "strict_prefix ms ns" "ms \<noteq> []" for ms
    proof -
      have "strict_prefix ms (ns @ [n])" using that(1) by (auto simp: strict_prefix_def prefix_def)
      then show ?thesis using snoc.prems(4) that(2) by blast
    qed
    show "canonical_path h (if ns = [] then ?up else from_components cs) = Some c"
      using snoc.prems(5) by simp
  qed
  then show ?case using loop by simp
qed

text \<open>A denied path that does not exist is denied where it would appear: below the canonical form of
  the nearest directory above it that exists, with the missing names unchanged.\<close>

theorem missing_path_denied_in_place:
  assumes "components path = cs @ map Normal names" and "names \<noteq> []"
    and "canonical_path h path = None" and "canonical_path h (from_components cs) = Some c"
    and "\<And>ns. strict_prefix ns names \<Longrightarrow> ns \<noteq> [] \<Longrightarrow>
      canonical_path h (from_components (cs @ map Normal ns)) = None"
  shows "canonicalize_lenient h path = foldl path_join c names"
proof -
  have "lenient_loop h path path [] = foldl path_join c (names @ [])"
    by (rule lenient_loop_finds [of path cs]) (use assms components_well_formed [of path] in simp_all)
  then show ?thesis using assms(3) by (simp add: canonicalize_lenient_def)
qed

definition demo_host :: host where
  "demo_host =
     \<lparr>h_platform = Linux, h_canonicalize = (\<lambda>p. if p = ''/w'' then Inr ''/real/w'' else if p = ''/bin/ls'' then Inr p
         else if p = ''/real/w'' then Inr p else Inl (IoError ''NotFound'' ''no such file'')),
      h_exists = (\<lambda>_. True), h_is_dir = (\<lambda>_. True), h_is_file = (\<lambda>_. False),
      h_executable = (\<lambda>p. p = ''/bin/ls''), h_head = (\<lambda>_. None), h_search_path = [''/bin''],
      h_temp_dir = ''/tmp'', h_entries = (\<lambda>_. [])\<rparr>"

theorem missing_path_denied_in_place_witness:
  "canonicalize_lenient demo_host ''/w/a/b'' = ''/real/w/a/b''"
proof -
  have above: "from_components [RootDir, Normal ''w''] = ''/w''"
    "from_components [RootDir, Normal ''w'', Normal ''a''] = ''/w/a''" by code_simp+
  have "canonicalize_lenient demo_host ''/w/a/b'' = foldl path_join ''/real/w'' [''a'', ''b'']"
  proof (rule missing_path_denied_in_place)
    show "components ''/w/a/b'' = [RootDir, Normal ''w''] @ map Normal [''a'', ''b'']" by code_simp
    show "canonical_path demo_host (from_components ([RootDir, Normal ''w''] @ map Normal ns)) = None"
      if "strict_prefix ns [''a'', ''b'']" "ns \<noteq> []" for ns
    proof -
      have "ns = [''a'']" using that by (cases ns; cases "tl ns") (auto simp: strict_prefix_def)
      then show ?thesis using above by (simp add: canonical_path_def demo_host_def to_option_def)
    qed
  qed (use above in \<open>simp_all add: canonical_path_def demo_host_def to_option_def\<close>)
  also have "\<dots> = ''/real/w/a/b''" by code_simp
  finally show ?thesis .
qed

subsection \<open>What a resolved policy grants\<close>

lemma existing_in: "a \<in> set (existing h home wd ps) \<Longrightarrow> \<exists>p\<in>set ps. canonical h home wd p = Some a"
proof -
  assume "a \<in> set (existing h home wd ps)"
  then have "a \<in> set (List.map_filter (canonical h home wd) ps)"
    using dedup_facts(1) by (auto simp: existing_def)
  then show ?thesis by (auto simp: List.map_filter_def)
qed

lemma existing_all:
  "p \<in> set ps \<Longrightarrow> canonical h home wd p = Some a \<Longrightarrow> path_in a (existing h home wd ps)"
proof -
  assume "p \<in> set ps" and "canonical h home wd p = Some a"
  then have "a \<in> set (List.map_filter (canonical h home wd) ps)" by (force simp: List.map_filter_def)
  then show ?thesis unfolding existing_def dedup_facts(2) by (auto simp: path_in_iff)
qed

lemma resolve_fields:
  assumes "ResolvedSandbox_resolve h policy harness program dir home = Inr r"
  shows "rs_write_deny r = dedup (map (\<lambda>p. canonicalize_lenient h
       (SandboxPath_resolve p home (rs_working_directory r))) (write_deny (sp_filesystem policy)))"
    and "rs_read_deny r = existing h home (rs_working_directory r) (read_deny (sp_filesystem policy))"
    and "rs_write_allow r = dedup (existing h home (rs_working_directory r)
         (write_allow (sp_filesystem policy) (map_option for_harness harness))
       @ (if fs_defaults (sp_filesystem policy)
          then (case canonical_path h (h_temp_dir h) of Some t \<Rightarrow> [t] | None \<Rightarrow> []) else [])
       @ (case sp_executables policy of None \<Rightarrow> []
          | Some e \<Rightarrow> existing h home (rs_working_directory r)
              (concat (map state_sandbox_paths (executable_groups e)))))"
proof -
  obtain wd prog where r: "r = \<lparr>rs_allowed_domains = allowed_domains (sp_network policy) (map_option for_harness harness),
      rs_localhost = localhost (sp_network policy),
      rs_read_deny = existing h home wd (read_deny (sp_filesystem policy)),
      rs_write_allow = dedup (existing h home wd (write_allow (sp_filesystem policy) (map_option for_harness harness))
        @ (if fs_defaults (sp_filesystem policy)
           then (case canonical_path h (h_temp_dir h) of Some t \<Rightarrow> [t] | None \<Rightarrow> []) else [])
        @ (case sp_executables policy of None \<Rightarrow> []
           | Some e \<Rightarrow> existing h home wd (concat (map state_sandbox_paths (executable_groups e))))),
      rs_write_deny = dedup (map (\<lambda>p. canonicalize_lenient h (SandboxPath_resolve p home wd))
        (write_deny (sp_filesystem policy))),
      rs_executables = map_option
        (\<lambda>e. resolve_executables h (executable_groups e) (ep_allow e) prog home wd) (sp_executables policy),
      rs_environment = (case map_option for_harness harness of Some p \<Rightarrow> environment p | None \<Rightarrow> []),
      rs_working_directory = wd, rs_program = prog\<rparr>"
    using assms unfolding ResolvedSandbox_resolve_def and_then_Inr_iff Let_def append_assoc by blast
  show "rs_write_deny r = dedup (map (\<lambda>p. canonicalize_lenient h
       (SandboxPath_resolve p home (rs_working_directory r))) (write_deny (sp_filesystem policy)))"
    and "rs_read_deny r = existing h home (rs_working_directory r) (read_deny (sp_filesystem policy))"
    and "rs_write_allow r = dedup (existing h home (rs_working_directory r)
         (write_allow (sp_filesystem policy) (map_option for_harness harness))
       @ (if fs_defaults (sp_filesystem policy)
          then (case canonical_path h (h_temp_dir h) of Some t \<Rightarrow> [t] | None \<Rightarrow> []) else [])
       @ (case sp_executables policy of None \<Rightarrow> []
          | Some e \<Rightarrow> existing h home (rs_working_directory r)
              (concat (map state_sandbox_paths (executable_groups e)))))"
    unfolding r by (simp_all cong: option.case_cong)
qed


definition demo_policy :: sandbox_policy where
  "demo_policy = SandboxPolicy_default
     \<lparr>sp_filesystem := FilesystemPolicy_default
        \<lparr>fp_defaults := Some False, fp_write_allow := [SandboxPath ''.''],
          fp_write_deny := [SandboxPath ''a/b'']\<rparr>\<rparr>"

lemma demo_resolve:
  "map_sum id (\<lambda>r. (rs_write_allow r, rs_write_deny r, rs_working_directory r))
     (ResolvedSandbox_resolve demo_host demo_policy None ''ls'' ''/w'' ''/home'')
   = Inr ([], [''/real/w/a/b''], ''/real/w'')"
  by code_simp


subsection \<open>The directories above a denied path\<close>

lemma set_strict_prefixes: "set (tl (rev (prefixes xs))) = {ys. strict_prefix ys xs}"
proof (cases xs rule: rev_exhaust)
  case (snoc ys y)
  then show ?thesis by (auto simp: prefixes_snoc strict_prefix_def prefix_snoc)
qed simp

lemma components_above:
  "components ` set (tl (ancestors d)) =
     {cs. strict_prefix cs (components d) \<and> (cs \<noteq> [] \<or> \<not> is_absolute d)}"
proof -
  have wf: "well_formed cs" if "strict_prefix cs (components d)" for cs
    using that components_well_formed [of d] well_formed_append [of cs]
    by (auto simp: strict_prefix_def prefix_def simp del: components_well_formed)
  have "components ` set (tl (ancestors d)) =
      (\<lambda>cs. components (from_components cs)) `
        {cs. strict_prefix cs (components d) \<and> (cs \<noteq> [] \<or> \<not> is_absolute d)}"
    by (auto simp: ancestors_def set_strict_prefixes image_iff)
  also have "\<dots> = (\<lambda>cs. cs) ` {cs. strict_prefix cs (components d) \<and> (cs \<noteq> [] \<or> \<not> is_absolute d)}"
    by (rule image_cong) (auto simp: wf)
  finally show ?thesis by simp
qed

lemma inside_write_allow_iff:
  "inside_write_allow r p \<longleftrightarrow>
     (\<exists>w\<in>set (rs_write_allow r). strict_prefix (components w) (components p))"
  by (auto simp: inside_write_allow_def list_ex_iff path_starts_with_def path_eq_def strict_prefix_def)

text \<open>The directories protected from being moved are exactly those that lie strictly between a
  writable directory and a denied path, and each comes before the directories inside it.\<close>

theorem protected_ancestors_exact:
  "(path_in a (protected_ancestors r) \<longleftrightarrow>
      (\<exists>d\<in>set (rs_write_deny r). \<exists>w\<in>set (rs_write_allow r).
         strict_prefix (components w) (components a) \<and> strict_prefix (components a) (components d)))
   \<and> sorted_wrt (\<lambda>b c. \<not> path_starts_with b c) (protected_ancestors r)"
proof
  have "path_in a (protected_ancestors r) \<longleftrightarrow>
      (\<exists>d\<in>set (rs_write_deny r). components a \<in> components ` set (tl (ancestors d))
         \<and> inside_write_allow r a)"
    unfolding protected_ancestors_def dedup_facts(2)
    by (force simp: path_in_iff inside_write_allow_iff)
  then show "path_in a (protected_ancestors r) \<longleftrightarrow>
      (\<exists>d\<in>set (rs_write_deny r). \<exists>w\<in>set (rs_write_allow r).
         strict_prefix (components w) (components a) \<and> strict_prefix (components a) (components d))"
    by (auto simp: components_above inside_write_allow_iff)
next
  have "sorted_wrt (\<lambda>b c. components b < components c) (protected_ancestors r)"
    using dedup_facts(3) unfolding protected_ancestors_def sorted_wrt_map by blast
  moreover have "\<not> path_starts_with b c" if "components b < components c" for b c
    using that prefix_less [of "components c" "components b"]
    by (metis less_irrefl less_not_sym path_starts_with_def prefix_order.le_less)
  ultimately show "sorted_wrt (\<lambda>b c. \<not> path_starts_with b c) (protected_ancestors r)"
    by (rule sorted_wrt_mono_rel [rotated])
qed

end
