(* ===== verification/Bubblewrap.thy ===== *)
theory Bubblewrap
  imports Resolve
begin

text \<open>
  \<open>beez-sandbox/src/bubblewrap.rs\<close>: the arguments of \<open>bwrap\<close> and the directories that mask a denied path
  which does not exist, and the relay arguments of \<open>init.rs\<close>. \<open>read_bwrap\<close> reads the arguments as the
  documentation of \<open>bwrap\<close> says it does, and \<open>governing\<close> is the mount a path is on: mounts are made in
  order, and a mount covers what was mounted at or below its target before.
\<close>

subsection \<open>Relays\<close>

definition relay_argument :: "nat \<Rightarrow> string \<Rightarrow> string" where
  "relay_argument port socket = dec port @ ''='' @ socket"

definition invalid_input :: "string \<Rightarrow> io_error" where
  "invalid_input message = IoError ''InvalidInput'' message"

definition parse_relay :: "string \<Rightarrow> io_error + nat \<times> string" where
  "parse_relay argument =
     (case find_position (\<lambda>c. c = CHR ''='') argument of
        None \<Rightarrow> Inl (invalid_input ''relay must be PORT=SOCKET'')
      | Some separator \<Rightarrow>
          (case Option.bind (if valid_utf8 (take separator argument) then Some (take separator argument) else None)
                  (parse_unsigned 65535) of
             None \<Rightarrow> Inl (invalid_input ''relay port must be a number from 1 to 65535'')
           | Some port \<Rightarrow>
               if port = 0 then Inl (invalid_input ''relay port must be a number from 1 to 65535'')
               else if drop (separator + 1) argument = [] then Inl (invalid_input ''relay must name a socket'')
               else Inr (port, drop (separator + 1) argument)))"

subsection \<open>The bridge\<close>

definition HTTP_PORT :: nat where "HTTP_PORT = 3128"

definition SOCKS_PORT :: nat where "SOCKS_PORT = 1080"

record bridge =
  br_directory :: string
  br_empty :: string
  br_http_socket :: string
  br_socks_socket :: string

definition Bridge_at :: "string \<Rightarrow> nat \<Rightarrow> nat \<Rightarrow> bridge" where
  "Bridge_at temp_dir pid sequence =
     (let path = path_join temp_dir (''beez-sandbox-'' @ dec pid @ ''-'' @ dec sequence)
      in \<lparr>br_directory = path, br_empty = path_join path ''empty'',
          br_http_socket = path_join path ''http.sock'', br_socks_socket = path_join path ''socks.sock''\<rparr>)"

subsection \<open>Masks\<close>

definition MARKER_PREFIX :: string where "MARKER_PREFIX = ''.beez-mask-''"

definition is_marked :: "host \<Rightarrow> string \<Rightarrow> bool" where
  "is_marked h directory \<longleftrightarrow> list_ex (prefix MARKER_PREFIX) (h_entries h directory)"

definition mask_directories :: "host \<Rightarrow> string \<Rightarrow> string list" where
  "mask_directories h path = takeWhile (\<lambda>d. \<not> h_exists h d \<or> is_marked h d) (ancestors path)"

type_synonym mask_plan = "(string \<times> string list) list"

definition MaskPlan_of :: "host \<Rightarrow> resolved_sandbox \<Rightarrow> mask_plan" where
  "MaskPlan_of h r =
     filter (\<lambda>(_, directories). directories \<noteq> [])
       (map (\<lambda>path. (path, mask_directories h path)) (filter (inside_write_allow r) (rs_write_deny r)))"

definition plan_covers :: "mask_plan \<Rightarrow> string \<Rightarrow> bool" where
  "plan_covers plan path \<longleftrightarrow> list_ex (\<lambda>(masked, _). path_eq masked path) plan"

subsection \<open>The arguments\<close>

definition option_args :: "string \<Rightarrow> string \<Rightarrow> string list" where
  "option_args name v = [name, v]"

definition bind_args :: "string \<Rightarrow> string \<Rightarrow> string \<Rightarrow> string list" where
  "bind_args mode source target = option_args mode source @ [target]"

definition bwrap_arguments ::
    "host \<Rightarrow> resolved_sandbox \<Rightarrow> bridge \<Rightarrow> string \<Rightarrow> string list \<Rightarrow> mask_plan \<Rightarrow> string list" where
  "bwrap_arguments h r bridge beez program_arguments plan =
     [''--new-session'', ''--die-with-parent'', ''--unshare-net'', ''--unshare-pid'',
      ''--ro-bind'', ''/'', ''/'', ''--dev'', ''/dev'', ''--proc'', ''/proc'']
     @ (if \<not> list_ex (\<lambda>path. path_eq path ''/tmp'') (rs_write_allow r) then [''--tmpfs'', ''/tmp''] else [])
     @ concat (map (\<lambda>path. bind_args ''--bind'' path path) (rs_write_allow r))
     @ concat (map (\<lambda>path. if h_exists h path then bind_args ''--bind'' path path else [])
         (protected_ancestors r))
     @ concat (map (\<lambda>path.
         if plan_covers plan path then bind_args ''--ro-bind'' (br_empty bridge) path
         else if h_exists h path then bind_args ''--ro-bind'' path path
         else []) (rs_write_deny r))
     @ concat (map (\<lambda>path.
         if h_is_dir h path then option_args ''--tmpfs'' path
         else bind_args ''--ro-bind'' ''/dev/null'' path) (rs_read_deny r))
     @ bind_args ''--bind'' (br_directory bridge) (br_directory bridge)
     @ option_args ''--chdir'' (rs_working_directory r)
     @ [''--'', beez, ''sandbox-init'']
     @ concat (map (\<lambda>(port, socket). [''--relay'', relay_argument port socket])
         [(HTTP_PORT, br_http_socket bridge), (SOCKS_PORT, br_socks_socket bridge)])
     @ concat (map (option_args ''--exec'') (case rs_executables r of Some es \<Rightarrow> es | None \<Rightarrow> []))
     @ [''--'', rs_program r]
     @ program_arguments"

definition bwrap_command ::
    "host \<Rightarrow> resolved_sandbox \<Rightarrow> bridge \<Rightarrow> io_error + string \<Rightarrow> string list \<Rightarrow> io_error + string \<times> string list" where
  "bwrap_command h r bridge current_exe arguments =
     and_then (ok_or (IoError ''NotFound'' ''sandbox requires bubblewrap; install the bwrap package'')
                 (find_on_path h ''bwrap'')) (\<lambda>bwrap.
     and_then current_exe (\<lambda>beez.
       Inr (bwrap, bwrap_arguments h r bridge beez arguments (MaskPlan_of h r))))"

subsection \<open>What bwrap does with them\<close>

datatype mount = Bind string string | RoBind string string | Tmpfs string | Special string

primrec target :: "mount \<Rightarrow> string" where
  "target (Bind source t) = t"
| "target (RoBind source t) = t"
| "target (Tmpfs t) = t"
| "target (Special t) = t"

fun read_bwrap :: "string list \<Rightarrow> mount list \<times> string list" where
  "read_bwrap (a # b # c # rest) =
     (if a = ''--'' then ([], b # c # rest)
      else if a = ''--bind'' then apfst ((#) (Bind b c)) (read_bwrap rest)
      else if a = ''--ro-bind'' then apfst ((#) (RoBind b c)) (read_bwrap rest)
      else if a = ''--tmpfs'' then apfst ((#) (Tmpfs b)) (read_bwrap (c # rest))
      else if a = ''--dev'' \<or> a = ''--proc'' then apfst ((#) (Special b)) (read_bwrap (c # rest))
      else if a = ''--chdir'' then read_bwrap (c # rest)
      else read_bwrap (b # c # rest))"
| "read_bwrap rest = ([], rest)"

definition governing :: "mount list \<Rightarrow> string \<Rightarrow> mount option" where
  "governing mounts path = find (\<lambda>m. path_starts_with path (target m)) (rev mounts)"

definition opening_mounts :: "host \<Rightarrow> resolved_sandbox \<Rightarrow> mount list" where
  "opening_mounts h r =
     [RoBind ''/'' ''/'', Special ''/dev'', Special ''/proc'']
     @ (if \<not> list_ex (\<lambda>path. path_eq path ''/tmp'') (rs_write_allow r) then [Tmpfs ''/tmp''] else [])
     @ map (\<lambda>path. Bind path path) (rs_write_allow r)
     @ map (\<lambda>path. Bind path path) (filter (h_exists h) (protected_ancestors r))"

definition deny_mounts :: "host \<Rightarrow> resolved_sandbox \<Rightarrow> bridge \<Rightarrow> mask_plan \<Rightarrow> mount list" where
  "deny_mounts h r bridge plan =
     List.map_filter (\<lambda>path.
         if plan_covers plan path then Some (RoBind (br_empty bridge) path)
         else if h_exists h path then Some (RoBind path path)
         else None) (rs_write_deny r)"

definition read_mounts :: "host \<Rightarrow> resolved_sandbox \<Rightarrow> mount list" where
  "read_mounts h r =
     map (\<lambda>path. if h_is_dir h path then Tmpfs path else RoBind ''/dev/null'' path) (rs_read_deny r)"

definition mounts :: "host \<Rightarrow> resolved_sandbox \<Rightarrow> bridge \<Rightarrow> mask_plan \<Rightarrow> mount list" where
  "mounts h r bridge plan =
     opening_mounts h r @ (deny_mounts h r bridge plan @ read_mounts h r)
     @ [Bind (br_directory bridge) (br_directory bridge)]"

lemma map_filter_simps [simp]:
  "List.map_filter f [] = []"
  "List.map_filter f (x # xs) = (case f x of None \<Rightarrow> [] | Some y \<Rightarrow> [y]) @ List.map_filter f xs"
  by (simp_all add: List.map_filter_def split: option.split)

text \<open>Reading whole groups of arguments, when at least three more follow.\<close>

definition long :: "'a list \<Rightarrow> bool" where "long xs \<longleftrightarrow> 3 \<le> length xs"

lemma longE: "long xs \<Longrightarrow> (\<And>a b c ys. xs = a # b # c # ys \<Longrightarrow> P) \<Longrightarrow> P"
  by (cases xs; cases "tl xs"; cases "tl (tl xs)") (auto simp: long_def)

lemma long_append [simp]: "long ys \<Longrightarrow> long (xs @ ys)" "long xs \<Longrightarrow> long (x # xs)"
  by (simp_all add: long_def)

lemma read_option_one:
  "long rest \<Longrightarrow> read_bwrap (''--tmpfs'' # p # rest) = apfst ((#) (Tmpfs p)) (read_bwrap rest)"
  "long rest \<Longrightarrow> read_bwrap (''--chdir'' # p # rest) = read_bwrap rest"
  "long rest \<Longrightarrow> read_bwrap (''--dev'' # p # rest) = apfst ((#) (Special p)) (read_bwrap rest)"
  "long rest \<Longrightarrow> read_bwrap (''--proc'' # p # rest) = apfst ((#) (Special p)) (read_bwrap rest)"
  "read_bwrap (''--bind'' # p # q # rest) = apfst ((#) (Bind p q)) (read_bwrap rest)"
  "read_bwrap (''--ro-bind'' # p # q # rest) = apfst ((#) (RoBind p q)) (read_bwrap rest)"
  by (auto elim!: longE)

lemma read_groups:
  assumes "\<And>x rest. long rest \<Longrightarrow> read_bwrap (f x @ rest) = apfst ((@) (g x)) (read_bwrap rest)"
    and "long rest"
  shows "read_bwrap (concat (map f xs) @ rest) = apfst ((@) (concat (map g xs))) (read_bwrap rest)"
proof (induction xs)
  case (Cons x xs)
  have "read_bwrap (f x @ (concat (map f xs) @ rest)) = apfst ((@) (g x)) (read_bwrap (concat (map f xs) @ rest))"
    by (rule assms(1)) (use assms(2) in simp)
  then show ?case using Cons by (cases "read_bwrap rest") simp
qed (cases "read_bwrap rest"; simp)

text \<open>What follows the mounts: the command run inside, which \<open>sandbox-init\<close> reads.\<close>

definition inner_arguments :: "resolved_sandbox \<Rightarrow> bridge \<Rightarrow> string \<Rightarrow> string list \<Rightarrow> string list" where
  "inner_arguments r bridge beez program_arguments =
     [beez, ''sandbox-init'', ''--relay'', relay_argument HTTP_PORT (br_http_socket bridge),
      ''--relay'', relay_argument SOCKS_PORT (br_socks_socket bridge)]
     @ concat (map (option_args ''--exec'') (case rs_executables r of Some es \<Rightarrow> es | None \<Rightarrow> []))
     @ [''--'', rs_program r] @ program_arguments"

lemma concat_option:
  "concat (map (\<lambda>x. case f x of None \<Rightarrow> [] | Some y \<Rightarrow> [y]) xs) = List.map_filter f xs"
  by (induction xs) (simp_all split: option.split)

lemma concat_if: "concat (map (\<lambda>x. if P x then [f x] else []) xs) = map f (filter P xs)"
  by (induction xs) simp_all

lemma concat_single: "concat (map (\<lambda>x. [f x]) xs) = map f xs"
  by (induction xs) simp_all

lemma read_bwrap_arguments:
  "read_bwrap (bwrap_arguments h r bridge beez args plan)
     = (mounts h r bridge plan, inner_arguments r bridge beez args)"
proof -
  define inner where "inner = inner_arguments r bridge beez args"
  define tail where "tail = bind_args ''--bind'' (br_directory bridge) (br_directory bridge)
     @ option_args ''--chdir'' (rs_working_directory r) @ ''--'' # inner"
  have long_inner: "long inner" by (simp add: inner_def inner_arguments_def long_def)
  then have long_tail: "long tail" by (simp add: tail_def)
  have tail: "read_bwrap tail = ([Bind (br_directory bridge) (br_directory bridge)], inner)"
    using long_inner by (auto simp: tail_def bind_args_def option_args_def read_option_one elim!: longE)
  let ?reads = "\<lambda>path. if h_is_dir h path then option_args ''--tmpfs'' path
         else bind_args ''--ro-bind'' ''/dev/null'' path"
  let ?denies = "\<lambda>path. if plan_covers plan path then bind_args ''--ro-bind'' (br_empty bridge) path
         else if h_exists h path then bind_args ''--ro-bind'' path path else []"
  let ?holds = "\<lambda>path. if h_exists h path then bind_args ''--bind'' path path else []"
  let ?allows = "\<lambda>path. bind_args ''--bind'' path path"
  let ?tmp = "if \<not> list_ex (\<lambda>path. path_eq path ''/tmp'') (rs_write_allow r) then [''--tmpfs'', ''/tmp''] else []"
  define rest3 where "rest3 = concat (map ?reads (rs_read_deny r)) @ tail"
  define rest2 where "rest2 = concat (map ?denies (rs_write_deny r)) @ rest3"
  define rest1 where "rest1 = concat (map ?holds (protected_ancestors r)) @ rest2"
  define rest0 where "rest0 = concat (map ?allows (rs_write_allow r)) @ rest1"
  have long3: "long rest3" and long2: "long rest2" and long1: "long rest1" and long0: "long rest0"
    using long_tail by (simp_all add: rest3_def rest2_def rest1_def rest0_def)
  have s3: "read_bwrap (?reads path @ rest)
      = apfst ((@) [if h_is_dir h path then Tmpfs path else RoBind ''/dev/null'' path]) (read_bwrap rest)"
    if "long rest" for path rest
    using that by (cases "read_bwrap rest") (simp add: bind_args_def option_args_def read_option_one)
  have s2: "read_bwrap (?denies path @ rest)
      = apfst ((@) (case (if plan_covers plan path then Some (RoBind (br_empty bridge) path)
         else if h_exists h path then Some (RoBind path path) else None)
         of None \<Rightarrow> [] | Some m \<Rightarrow> [m])) (read_bwrap rest)"
    if "long rest" for path rest
    by (cases "read_bwrap rest") (simp add: bind_args_def option_args_def read_option_one)
  have s1: "read_bwrap (?holds path @ rest)
      = apfst ((@) (if h_exists h path then [Bind path path] else [])) (read_bwrap rest)"
    if "long rest" for path rest
    by (cases "read_bwrap rest") (simp add: bind_args_def option_args_def read_option_one)
  have s0: "read_bwrap (?allows path @ rest) = apfst ((@) [Bind path path]) (read_bwrap rest)"
    if "long rest" for path rest
    by (cases "read_bwrap rest") (simp add: bind_args_def option_args_def read_option_one)
  have r3: "read_bwrap (concat (map ?reads (rs_read_deny r)) @ tail)
      = apfst ((@) (concat (map (\<lambda>path. [if h_is_dir h path then Tmpfs path else RoBind ''/dev/null'' path]) (rs_read_deny r)))) (read_bwrap tail)"
    by (rule read_groups [OF s3 long_tail])
  have r2: "read_bwrap (concat (map ?denies (rs_write_deny r)) @ rest3)
      = apfst ((@) (concat (map (\<lambda>path. (case (if plan_covers plan path then Some (RoBind (br_empty bridge) path)
         else if h_exists h path then Some (RoBind path path) else None)
         of None \<Rightarrow> [] | Some m \<Rightarrow> [m])) (rs_write_deny r)))) (read_bwrap rest3)"
    by (rule read_groups [OF s2 long3])
  have r1: "read_bwrap (concat (map ?holds (protected_ancestors r)) @ rest2)
      = apfst ((@) (concat (map (\<lambda>path. (if h_exists h path then [Bind path path] else [])) (protected_ancestors r)))) (read_bwrap rest2)"
    by (rule read_groups [OF s1 long2])
  have r0: "read_bwrap (concat (map ?allows (rs_write_allow r)) @ rest1)
      = apfst ((@) (concat (map (\<lambda>path. [Bind path path]) (rs_write_allow r)))) (read_bwrap rest1)"
    by (rule read_groups [OF s0 long1])
  have groups: "read_bwrap rest0 = (map (\<lambda>path. Bind path path) (rs_write_allow r)
     @ map (\<lambda>path. Bind path path) (filter (h_exists h) (protected_ancestors r))
     @ List.map_filter (\<lambda>path.
         if plan_covers plan path then Some (RoBind (br_empty bridge) path)
         else if h_exists h path then Some (RoBind path path)
         else None) (rs_write_deny r)
     @ map (\<lambda>path. if h_is_dir h path then Tmpfs path else RoBind ''/dev/null'' path) (rs_read_deny r)
     @ [Bind (br_directory bridge) (br_directory bridge)], inner)"
    unfolding rest0_def r0 unfolding rest1_def r1 unfolding rest2_def r2 unfolding rest3_def r3 tail
    unfolding concat_single concat_option concat_if by simp
  have all: "bwrap_arguments h r bridge beez args plan =
      [''--new-session'', ''--die-with-parent'', ''--unshare-net'', ''--unshare-pid'',
       ''--ro-bind'', ''/'', ''/'', ''--dev'', ''/dev'', ''--proc'', ''/proc''] @ ?tmp @ rest0"
    by (simp add: bwrap_arguments_def rest0_def rest1_def rest2_def rest3_def tail_def inner_def
        inner_arguments_def)
  have tmp: "read_bwrap (?tmp @ rest0) = apfst ((@) (if \<not> list_ex (\<lambda>path. path_eq path ''/tmp'') (rs_write_allow r)
      then [Tmpfs ''/tmp''] else [])) (read_bwrap rest0)"
    using long0 by (cases "read_bwrap rest0") (simp add: read_option_one)
  have long_tmp: "long (?tmp @ rest0)" using long0 by simp
  show ?thesis unfolding all
    using long_tmp by (auto simp: read_option_one tmp groups mounts_def opening_mounts_def deny_mounts_def
        read_mounts_def inner_def)
qed

lemma set_map_filter_iff: "y \<in> set (List.map_filter f xs) \<longleftrightarrow> (\<exists>x\<in>set xs. f x = Some y)"
  by (induction xs) (auto split: option.splits)

lemma governing_append:
  "governing (xs @ ys) p = (case governing ys p of Some m \<Rightarrow> Some m | None \<Rightarrow> governing xs p)"
  unfolding governing_def rev_append by (rule find_append)

lemma governing_SomeD: "governing ms p = Some m \<Longrightarrow> m \<in> set ms \<and> path_starts_with p (target m)"
  unfolding governing_def by (drule find_Some_memD) simp

lemma governing_None_iff: "governing ms p = None \<longleftrightarrow> (\<forall>m\<in>set ms. \<not> path_starts_with p (target m))"
  by (auto simp: governing_def find_None_iff)

lemma governing_last:
  assumes "m \<in> set ys" and "path_starts_with p (target m)" and "\<forall>m\<in>set zs. \<not> path_starts_with p (target m)"
  shows "\<exists>m'. governing (xs @ ys @ zs) p = Some m' \<and> m' \<in> set ys"
proof -
  have "governing zs p = None" using assms(3) by (simp add: governing_None_iff)
  moreover obtain m' where "governing ys p = Some m'"
    using assms(1,2) by (cases "governing ys p") (auto simp: governing_None_iff)
  ultimately show ?thesis using governing_SomeD by (fastforce simp: governing_append)
qed

lemma ancestors_first: "ancestors p = p # tl (ancestors p)"
  by (simp add: ancestors_def)

lemma mask_covers:
  assumes "d \<in> set (rs_write_deny r)" and "inside_write_allow r d" and "\<not> h_exists h d"
  shows "plan_covers (MaskPlan_of h r) d"
proof -
  have "mask_directories h d \<noteq> []"
    using assms(3) ancestors_first [of d] unfolding mask_directories_def
    by (metis takeWhile.simps(2) list.distinct(1))
  then show ?thesis using assms(1,2)
    by (force simp: plan_covers_def MaskPlan_of_def list_ex_iff path_eq_def)
qed

definition writable :: "mount \<Rightarrow> bool" where
  "writable m \<longleftrightarrow> (case m of Bind source t \<Rightarrow> True | _ \<Rightarrow> False)"

definition hidden :: "mount \<Rightarrow> bool" where
  "hidden m \<longleftrightarrow> (case m of Tmpfs t \<Rightarrow> True | RoBind source t \<Rightarrow> source = ''/dev/null'' | _ \<Rightarrow> False)"

definition sandbox_mounts :: "host \<Rightarrow> resolved_sandbox \<Rightarrow> bridge \<Rightarrow> string \<Rightarrow> string list \<Rightarrow> mount list" where
  "sandbox_mounts h r bridge beez args =
     fst (read_bwrap (bwrap_arguments h r bridge beez args (MaskPlan_of h r)))"

lemma sandbox_mounts_eq: "sandbox_mounts h r bridge beez args = mounts h r bridge (MaskPlan_of h r)"
  by (simp add: sandbox_mounts_def read_bwrap_arguments)

text \<open>In the sandbox a path below a denied path is not writable, although the directory around it may
  be: the denied path exists or is masked, and no later mount but that of the bridge is writable.\<close>

theorem denied_path_not_writable:
  assumes "d \<in> set (rs_write_deny r)" and "inside_write_allow r d \<or> h_exists h d"
    and "path_starts_with p d" and "\<not> path_starts_with p (br_directory bridge)"
  shows "\<exists>m. governing (sandbox_mounts h r bridge beez args) p = Some m \<and> \<not> writable m"
proof -
  let ?denies = "deny_mounts h r bridge (MaskPlan_of h r) @ read_mounts h r"
  have "plan_covers (MaskPlan_of h r) d \<or> h_exists h d" using assms(1,2) mask_covers by blast
  then have "(if plan_covers (MaskPlan_of h r) d then RoBind (br_empty bridge) d else RoBind d d) \<in> set ?denies"
    using assms(1) by (force simp: deny_mounts_def set_map_filter_iff)
  then obtain m where m: "m \<in> set ?denies" "target m = d" by (auto split: if_splits)
  have "\<exists>m'. governing (mounts h r bridge (MaskPlan_of h r)) p = Some m' \<and> m' \<in> set ?denies"
    unfolding mounts_def by (rule governing_last [OF m(1)]) (use assms(3,4) m(2) in simp_all)
  moreover have "\<not> writable m" if "m \<in> set ?denies" for m
    using that by (auto simp: deny_mounts_def read_mounts_def writable_def set_map_filter_iff split: if_splits)
  ultimately show ?thesis by (auto simp: sandbox_mounts_eq)
qed

definition demo_resolved :: resolved_sandbox where
  "demo_resolved =
     \<lparr>rs_allowed_domains = [], rs_localhost = False, rs_read_deny = [''/home/.ssh''],
      rs_write_allow = [''/w''], rs_write_deny = [''/w/.git''], rs_executables = None,
      rs_environment = [], rs_working_directory = ''/w'', rs_program = ''/bin/ls''\<rparr>"

definition demo_bridge :: bridge where
  "demo_bridge = Bridge_at ''/tmp'' 7 0"

theorem denied_path_not_writable_witness:
  "\<exists>m. governing (sandbox_mounts demo_host demo_resolved demo_bridge ''/beez'' []) ''/w/.git/config'' = Some m
     \<and> \<not> writable m"
proof (rule denied_path_not_writable)
  show "''/w/.git'' \<in> set (rs_write_deny demo_resolved)" by (simp add: demo_resolved_def)
  show "inside_write_allow demo_resolved ''/w/.git'' \<or> h_exists demo_host ''/w/.git''"
    by (simp add: demo_host_def)
  show "path_starts_with ''/w/.git/config'' ''/w/.git''" by code_simp
  show "\<not> path_starts_with ''/w/.git/config'' (br_directory demo_bridge)" by code_simp
qed

lemma writable_mount:
  assumes "m \<in> set (mounts h r bridge plan)" and "writable m"
  shows "target m \<in> set (rs_write_allow r) \<or> target m \<in> set (protected_ancestors r)
    \<or> target m = br_directory bridge"
proof (cases m)
  case (Bind source t)
  have "Bind source t \<notin> set (deny_mounts h r bridge plan @ read_mounts h r)"
    by (auto simp: deny_mounts_def read_mounts_def set_map_filter_iff)
  then show ?thesis using assms(1) by (auto simp: Bind mounts_def opening_mounts_def)
qed (use assms(2) in \<open>simp_all add: writable_def\<close>)



text \<open>A relay argument is read back as the port and the socket it was made of.\<close>

theorem relay_argument_roundtrip:
  assumes "0 < port" and "port \<le> 65535" and "socket \<noteq> []"
  shows "parse_relay (relay_argument port socket) = Inr (port, socket)"
proof -
  have digits: "CHR ''='' \<notin> set (dec port)"
  proof -
    have "\<not> ascii_digit CHR ''=''" by code_simp
    then show ?thesis using dec_digits [of port] by (auto simp: list_all_iff)
  qed
  have "find_position (\<lambda>c. c = CHR ''='') (dec port @ CHR ''='' # socket) = Some (length (dec port))"
    using digits by (auto simp: find_position_Some_iff nth_append in_set_conv_nth)
  moreover have "valid_utf8 (dec port)"
    using dec_digits [of port] by (intro valid_utf8_ascii) (auto simp: is_ascii_def list_all_iff ascii_digit_def)
  ultimately show ?thesis using assms by (simp add: parse_relay_def relay_argument_def)
qed

theorem relay_argument_roundtrip_witness:
  "parse_relay (relay_argument HTTP_PORT ''/tmp/http.sock'') = Inr (HTTP_PORT, ''/tmp/http.sock'')"
  by (rule relay_argument_roundtrip) (simp_all add: HTTP_PORT_def)

end
