(* ===== verification/Seatbelt.thy ===== *)
theory Seatbelt
  imports Bubblewrap
begin

text \<open>
  \<open>beez-sandbox/src/seatbelt.rs\<close>: the profile of the macOS sandbox. \<open>sb_rule\<close> is a rule of the profile
  language, \<open>rule_text\<close> its text, and \<open>decide\<close> its meaning: of the rules that apply to an operation on a
  path, the last one wins. What a regular expression matches is a parameter.
\<close>

subsection \<open>The profile\<close>

definition double_quote :: char where "double_quote = CHR 0x22"

definition backslash :: char where "backslash = CHR 0x5C"

definition quote :: "string \<Rightarrow> string" where
  "quote path =
     [double_quote]
     @ concat (map (\<lambda>c. if c = [double_quote] \<or> c = [backslash] then backslash # c else c)
         (chars (utf8_lossy path)))
     @ [double_quote]"

definition write_rule :: "string \<Rightarrow> string list \<Rightarrow> string \<Rightarrow> string" where
  "write_rule action ps filter_name =
     (if ps = [] then []
      else ''('' @ action @ concat (map (\<lambda>p. '' ('' @ filter_name @ '' '' @ quote p @ '')'') ps) @ '')'' @ [newline])"

definition profile :: "host \<Rightarrow> resolved_sandbox \<Rightarrow> nat \<Rightarrow> nat \<Rightarrow> string" where
  "profile h r http_port socks_port =
     (let line = (\<lambda>s. s @ [newline]); dq = (\<lambda>s. [double_quote] @ s @ [double_quote]) in
      line ''(version 1)''
      @ line ''(deny default)''
      @ line ''(allow process-fork)''
      @ line ''(allow process-info* (target same-sandbox))''
      @ line ''(allow signal (target same-sandbox))''
      @ line ''(allow sysctl-read)''
      @ line ''(allow mach-lookup)''
      @ line ''(allow ipc-posix*)''
      @ line ''(allow pseudo-tty)''
      @ line ''(allow user-preference-read)''
      @ line ''(allow file-ioctl)''
      @ line ''(allow file-read*)''
      @ write_rule ''deny file-read*'' (rs_read_deny r) ''subpath''
      @ line ''(allow file-read-metadata)''
      @ write_rule ''allow file-write*'' (rs_write_allow r) ''subpath''
      @ line (''(allow file-write* (literal '' @ dq ''/dev/null'' @ '') (literal '' @ dq ''/dev/zero''
          @ '') (literal '' @ dq ''/dev/tty'' @ '') (literal '' @ dq ''/dev/ptmx''
          @ '') (literal '' @ dq ''/dev/dtracehelper'' @ '') (regex #'' @ dq ''^/dev/ttys[0-9]+$''
          @ '') (regex #'' @ dq ''^/dev/fd/[0-9]+$'' @ ''))'')
      @ write_rule ''deny file-write*'' (rs_write_deny r) ''subpath''
      @ write_rule ''deny file-write-unlink'' (protected_ancestors r) ''literal''
      @ line (''(allow network-bind (local ip '' @ dq ''localhost:*'' @ ''))'')
      @ line (''(allow network-inbound (local ip '' @ dq ''localhost:*'' @ ''))'')
      @ line (''(allow network-outbound (remote ip '' @ dq (''localhost:'' @ dec http_port)
          @ '') (remote ip '' @ dq (''localhost:'' @ dec socks_port) @ ''))'')
      @ (if rs_localhost r then line (''(allow network-outbound (remote ip '' @ dq ''localhost:*'' @ ''))'') else [])
      @ (case rs_executables r of
           None \<Rightarrow> line ''(allow process-exec*)''
         | Some executables \<Rightarrow>
             line (''(allow process-exec*''
               @ concat (map (\<lambda>path. '' ('' @ (if h_is_dir h path then ''subpath'' else ''literal'') @ '' ''
                   @ quote path @ '')'') executables)
               @ '')'')))"

definition SANDBOX_EXEC :: string where "SANDBOX_EXEC = ''/usr/bin/sandbox-exec''"

definition seatbelt_command ::
    "host \<Rightarrow> resolved_sandbox \<Rightarrow> nat \<Rightarrow> nat \<Rightarrow> string list \<Rightarrow> string \<times> string list" where
  "seatbelt_command h r http_port socks_port arguments =
     (SANDBOX_EXEC, [''-p'', profile h r http_port socks_port, rs_program r] @ arguments)"

subsection \<open>Quoted paths\<close>

text \<open>A character of valid UTF-8 is one byte, or bytes outside ASCII.\<close>

lemma continuations_all: "continuations n s = n \<Longrightarrow> n \<le> length s \<and> list_all continuation (take n s)"
  by (induction n s rule: continuations.induct) (auto split: if_splits)

lemma utf8_head_whole:
  assumes "fst (utf8_head b s)"
  shows "snd (utf8_head b s) = char_width b"
    and "char_width b = 1 \<or> (128 \<le> byte b \<and> (\<forall>c\<in>set (take (char_width b - 1) s). 128 \<le> byte c))"
proof -
  have "snd (utf8_head b s) = char_width b
    \<and> (char_width b = 1 \<or> (128 \<le> byte b \<and> (\<forall>c\<in>set (take (char_width b - 1) s). 128 \<le> byte c)))"
  proof (cases "byte b < 128")
    case True
    then show ?thesis by (simp add: utf8_head_def encoded_width_def char_width_def)
  next
    case False
    let ?w = "encoded_width b"
    from assms False have w: "?w = char_width b" "2 \<le> ?w"
      by (auto simp: utf8_head_def encoded_width_def char_width_def Let_def split: if_splits)
    with assms obtain c s' where s: "s = c # s'" "second_ok b c" "continuations (?w - 2) s' = ?w - 2"
      by (auto simp: utf8_head_def Let_def split: if_splits list.splits)
    have "128 \<le> byte c" using s(2) by (auto simp: second_ok_def continuation_def split: if_splits)
    moreover have "\<forall>d\<in>set (take (?w - 2) s'). 128 \<le> byte d"
      using continuations_all [OF s(3)] by (auto simp: list_all_iff continuation_def)
    moreover have "take (?w - 1) s = c # take (?w - 2) s'"
      using w(2) s(1) by (simp add: take_Cons' numeral_2_eq_2)
    moreover have "snd (utf8_head b s) = ?w" using w(2) s by (simp add: utf8_head_def Let_def)
    ultimately show ?thesis using False w(1) by auto
  qed
  then show "snd (utf8_head b s) = char_width b"
    and "char_width b = 1 \<or> (128 \<le> byte b \<and> (\<forall>c\<in>set (take (char_width b - 1) s). 128 \<le> byte c))"
    by blast+
qed

lemma chars_clean:
  "valid_utf8 s \<Longrightarrow> c \<in> set (chars s) \<Longrightarrow> (\<exists>b. c = [b]) \<or> (\<forall>b\<in>set c. 128 \<le> byte b)"
proof (induction s rule: chars.induct)
  case (2 b s)
  from "2.prems"(1) have head: "fst (utf8_head b s)"
    and tail: "valid_utf8 (drop (snd (utf8_head b s)) (b # s))" by simp_all
  have "drop (char_width b) (b # s) = drop (char_width b - 1) s"
    by (simp add: drop_Cons' char_width_def)
  with tail have rest: "valid_utf8 (drop (char_width b - 1) s)"
    by (simp only: utf8_head_whole(1) [OF head])
  from "2.prems"(2) have "c = b # take (char_width b - 1) s \<or> c \<in> set (chars (drop (char_width b - 1) s))"
    by simp
  then show ?case
  proof
    assume "c = b # take (char_width b - 1) s"
    then show ?thesis using utf8_head_whole(2) [OF head] by auto
  qed (rule "2.IH" [OF rest])
qed simp

fun read_quoted :: "string \<Rightarrow> (string \<times> string) option" where
  "read_quoted [] = None"
| "read_quoted (c # s) =
     (if c = double_quote then Some ([], s)
      else if c = backslash then
        (case s of [] \<Rightarrow> None | d # s \<Rightarrow> map_option (apfst ((#) d)) (read_quoted s))
      else map_option (apfst ((#) c)) (read_quoted s))"

lemma read_quoted_plain:
  "\<forall>b\<in>set c. b \<noteq> double_quote \<and> b \<noteq> backslash \<Longrightarrow>
     read_quoted (c @ s) = map_option (apfst ((@) c)) (read_quoted s)"
  by (induction c) (auto simp: option.map_comp comp_def apfst_def map_prod_def split_def option.map_ident)

lemma read_quoted_chars:
  "\<forall>c\<in>set cs. (\<exists>b. c = [b]) \<or> (\<forall>b\<in>set c. 128 \<le> byte b) \<Longrightarrow>
     read_quoted (concat (map (\<lambda>c. if c = [double_quote] \<or> c = [backslash] then backslash # c else c) cs)
       @ double_quote # s) = Some (concat cs, s)"
proof (induction cs)
  case (Cons c cs)
  show ?case
  proof (cases "c = [double_quote] \<or> c = [backslash]")
    case True
    then show ?thesis using Cons by (auto simp: double_quote_def backslash_def)
  next
    case False
    have "\<forall>b\<in>set c. b \<noteq> double_quote \<and> b \<noteq> backslash"
    proof (cases "\<exists>b. c = [b]")
      case False
      then show ?thesis using Cons.prems by (auto simp: double_quote_def backslash_def byte_def)
    qed (use False in auto)
    then show ?thesis using Cons False by (simp add: read_quoted_plain)
  qed
qed simp

text \<open>C33. A path written into the profile is read back as the path, whatever quotes and backslashes it holds
  and whatever follows it, so a path can never end its rule or add one.\<close>

theorem quoted_path_stays_one_string:
  assumes "valid_utf8 path"
  shows "\<exists>body. quote path = double_quote # body \<and> read_quoted (body @ rest) = Some (path, rest)"
proof -
  have "\<forall>c\<in>set (chars path). (\<exists>b. c = [b]) \<or> (\<forall>b\<in>set c. 128 \<le> byte b)"
    using chars_clean [OF assms] by blast
  from read_quoted_chars [OF this, of rest] show ?thesis
    by (simp add: quote_def utf8_lossy_valid [OF assms])
qed

theorem quoted_path_stays_one_string_witness:
  "\<exists>body. quote (''/a '' @ [double_quote] @ '') (allow default'') = double_quote # body
     \<and> read_quoted (body @ '')'') = Some (''/a '' @ [double_quote] @ '') (allow default'', '')'')"
proof -
  have "valid_utf8 (''/a '' @ [double_quote] @ '') (allow default'')"
    by (rule valid_utf8_ascii) (simp add: is_ascii_def double_quote_def byte_def)
  from quoted_path_stays_one_string [OF this] show ?thesis .
qed

subsection \<open>What the profile allows\<close>

datatype sb_filter = Subpath string | Literal string | Pattern string | Condition string

primrec filter_text :: "sb_filter \<Rightarrow> string" where
  "filter_text (Subpath p) = ''(subpath '' @ quote p @ '')''"
| "filter_text (Literal p) = ''(literal '' @ quote p @ '')''"
| "filter_text (Pattern p) = ''(regex #'' @ [double_quote] @ p @ [double_quote] @ '')''"
| "filter_text (Condition c) = ''('' @ c @ '')''"

datatype sb_rule = Rule (rule_allows: bool) (rule_operation: string) (rule_filters: "sb_filter list")

definition rule_text :: "sb_rule \<Rightarrow> string" where
  "rule_text rule =
     ''('' @ (if rule_allows rule then ''allow'' else ''deny'') @ '' '' @ rule_operation rule
     @ concat (map (\<lambda>f. '' '' @ filter_text f) (rule_filters rule)) @ '')'' @ [newline]"

text \<open>A rule without a path is not written.\<close>

definition path_rule :: "bool \<Rightarrow> string \<Rightarrow> (string \<Rightarrow> sb_filter) \<Rightarrow> string list \<Rightarrow> sb_rule list" where
  "path_rule allows operation f ps = (if ps = [] then [] else [Rule allows operation (map f ps)])"

definition DEVICES :: "sb_filter list" where
  "DEVICES = map Literal [''/dev/null'', ''/dev/zero'', ''/dev/tty'', ''/dev/ptmx'', ''/dev/dtracehelper'']
     @ map Pattern [''^/dev/ttys[0-9]+$'', ''^/dev/fd/[0-9]+$'']"

definition opening_rules :: "sb_rule list" where
  "opening_rules =
     [Rule False ''default'' [], Rule True ''process-fork'' [],
      Rule True ''process-info*'' [Condition ''target same-sandbox''],
      Rule True ''signal'' [Condition ''target same-sandbox''], Rule True ''sysctl-read'' [],
      Rule True ''mach-lookup'' [], Rule True ''ipc-posix*'' [], Rule True ''pseudo-tty'' [],
      Rule True ''user-preference-read'' [], Rule True ''file-ioctl'' [], Rule True ''file-read*'' []]"

definition file_rules :: "resolved_sandbox \<Rightarrow> sb_rule list" where
  "file_rules r =
     path_rule False ''file-read*'' Subpath (rs_read_deny r)
     @ [Rule True ''file-read-metadata'' []]
     @ path_rule True ''file-write*'' Subpath (rs_write_allow r)
     @ [Rule True ''file-write*'' DEVICES]
     @ path_rule False ''file-write*'' Subpath (rs_write_deny r)
     @ path_rule False ''file-write-unlink'' Literal (protected_ancestors r)"

definition localhost_at :: "string \<Rightarrow> string \<Rightarrow> sb_filter" where
  "localhost_at which port = Condition (which @ '' ip '' @ [double_quote] @ ''localhost:'' @ port @ [double_quote])"

definition other_rules :: "host \<Rightarrow> resolved_sandbox \<Rightarrow> nat \<Rightarrow> nat \<Rightarrow> sb_rule list" where
  "other_rules h r http_port socks_port =
     [Rule True ''network-bind'' [localhost_at ''local'' ''*''],
      Rule True ''network-inbound'' [localhost_at ''local'' ''*''],
      Rule True ''network-outbound'' [localhost_at ''remote'' (dec http_port), localhost_at ''remote'' (dec socks_port)]]
     @ (if rs_localhost r then [Rule True ''network-outbound'' [localhost_at ''remote'' ''*'']] else [])
     @ [Rule True ''process-exec*''
          (case rs_executables r of
             None \<Rightarrow> []
           | Some executables \<Rightarrow> map (\<lambda>p. if h_is_dir h p then Subpath p else Literal p) executables)]"

definition profile_rules :: "host \<Rightarrow> resolved_sandbox \<Rightarrow> nat \<Rightarrow> nat \<Rightarrow> sb_rule list" where
  "profile_rules h r http_port socks_port = opening_rules @ file_rules r @ other_rules h r http_port socks_port"

lemma rule_text_path_rule:
  "concat (map rule_text (path_rule allows operation Subpath ps)) =
     write_rule ((if allows then ''allow '' else ''deny '') @ operation) ps ''subpath''"
  "concat (map rule_text (path_rule allows operation Literal ps)) =
     write_rule ((if allows then ''allow '' else ''deny '') @ operation) ps ''literal''"
  by (simp_all add: path_rule_def write_rule_def rule_text_def comp_def)

lemma quote_plain: "is_ascii p \<Longrightarrow> double_quote \<notin> set p \<Longrightarrow> backslash \<notin> set p \<Longrightarrow>
    quote p = [double_quote] @ p @ [double_quote]"
proof -
  assume p: "is_ascii p" "double_quote \<notin> set p" "backslash \<notin> set p"
  have "concat (map (\<lambda>c. if c = [double_quote] \<or> c = [backslash] then backslash # c else c) (map (\<lambda>c. [c]) p)) = p"
    using p(2,3) by (induction p) auto
  then show ?thesis using p(1) by (simp add: quote_def utf8_lossy_valid valid_utf8_ascii chars_ascii)
qed

lemma device_text:
  "quote ''/dev/null'' = [double_quote] @ ''/dev/null'' @ [double_quote]"
  "quote ''/dev/zero'' = [double_quote] @ ''/dev/zero'' @ [double_quote]"
  "quote ''/dev/tty'' = [double_quote] @ ''/dev/tty'' @ [double_quote]"
  "quote ''/dev/ptmx'' = [double_quote] @ ''/dev/ptmx'' @ [double_quote]"
  "quote ''/dev/dtracehelper'' = [double_quote] @ ''/dev/dtracehelper'' @ [double_quote]"
  by (rule quote_plain; simp add: is_ascii_def byte_def double_quote_def backslash_def)+

lemma profile_is_rules:
  "profile h r http_port socks_port =
     ''(version 1)'' @ [newline]
     @ concat (map rule_text (profile_rules h r http_port socks_port))"
proof -
  have execs: "filter_text (if b then Subpath p else Literal p) =
      ''('' @ (if b then ''subpath'' else ''literal'') @ '' '' @ quote p @ '')''" for b p
    by simp
  show ?thesis
    unfolding profile_def profile_rules_def Let_def map_append concat_append file_rules_def rule_text_path_rule
    by (simp add: opening_rules_def other_rules_def localhost_at_def rule_text_def DEVICES_def device_text execs comp_def
        split: option.split)
qed

text \<open>\<open>rx\<close> is what the profile's regular expressions match.\<close>

definition filter_holds :: "(string \<Rightarrow> string \<Rightarrow> bool) \<Rightarrow> string \<Rightarrow> sb_filter \<Rightarrow> bool" where
  "filter_holds rx path f =
     (case f of Subpath p \<Rightarrow> path_starts_with path p | Literal p \<Rightarrow> path_eq path p
      | Pattern e \<Rightarrow> rx e path | Condition c \<Rightarrow> False)"

definition operation_covers :: "string \<Rightarrow> string \<Rightarrow> bool" where
  "operation_covers rule operation \<longleftrightarrow>
     rule = ''default'' \<or> rule = operation
     \<or> (rule \<noteq> [] \<and> last rule = CHR ''*'' \<and> prefix (butlast rule) operation)"

definition applies :: "(string \<Rightarrow> string \<Rightarrow> bool) \<Rightarrow> string \<Rightarrow> string \<Rightarrow> sb_rule \<Rightarrow> bool" where
  "applies rx operation path rule \<longleftrightarrow>
     operation_covers (rule_operation rule) operation
     \<and> (rule_filters rule = [] \<or> list_ex (filter_holds rx path) (rule_filters rule))"

definition decide :: "(string \<Rightarrow> string \<Rightarrow> bool) \<Rightarrow> sb_rule list \<Rightarrow> string \<Rightarrow> string \<Rightarrow> bool \<Rightarrow> bool" where
  "decide rx rules operation path =
     fold (\<lambda>rule d. if applies rx operation path rule then rule_allows rule else d) rules"

lemma decide_append: "decide rx (xs @ ys) operation path d = decide rx ys operation path (decide rx xs operation path d)"
  by (simp add: decide_def)

lemma decide_path_rule:
  "decide rx (path_rule allows rule_op f ps) operation path d =
     (if operation_covers rule_op operation \<and> list_ex (\<lambda>p. filter_holds rx path (f p)) ps then allows else d)"
  by (auto simp: decide_def path_rule_def applies_def list_ex_iff)

lemma decide_opening:
  "decide rx opening_rules ''file-read-data'' path d" "\<not> decide rx opening_rules ''file-write-data'' path d"
  "\<not> decide rx opening_rules ''file-write-unlink'' path d"
  by (simp_all add: decide_def opening_rules_def applies_def operation_covers_def filter_holds_def)

lemma decide_other:
  assumes "prefix ''file-'' operation"
  shows "decide rx (other_rules h r http_port socks_port) operation path d = d"
  using assms
  by (auto simp: decide_def other_rules_def applies_def operation_covers_def filter_holds_def localhost_at_def prefix_def)

definition below :: "string \<Rightarrow> string list \<Rightarrow> bool" where
  "below path ps \<longleftrightarrow> list_ex (path_starts_with path) ps"

definition is_device :: "(string \<Rightarrow> string \<Rightarrow> bool) \<Rightarrow> string \<Rightarrow> bool" where
  "is_device rx path \<longleftrightarrow> list_ex (filter_holds rx path) DEVICES"

text \<open>C32. The profile is the text of a list of rules by which a process may read a path exactly when no denied
  path is above it, and may write one exactly when it is a device or below a writable path, and below no
  denied one; to move or remove it, it must also not be a directory above a denied path.\<close>

theorem profile_enforces_policy:
  "profile h r http_port socks_port =
      ''(version 1)'' @ [newline] @ concat (map rule_text (profile_rules h r http_port socks_port))
    \<and> (decide rx (profile_rules h r http_port socks_port) ''file-read-data'' path False \<longleftrightarrow> \<not> below path (rs_read_deny r))
    \<and> (decide rx (profile_rules h r http_port socks_port) ''file-write-data'' path False \<longleftrightarrow>
         (below path (rs_write_allow r) \<or> is_device rx path) \<and> \<not> below path (rs_write_deny r))
    \<and> (decide rx (profile_rules h r http_port socks_port) ''file-write-unlink'' path False \<longleftrightarrow>
         (below path (rs_write_allow r) \<or> is_device rx path) \<and> \<not> below path (rs_write_deny r)
         \<and> \<not> list_ex (path_eq path) (protected_ancestors r))"
proof (intro conjI)
  let ?rules = "profile_rules h r http_port socks_port"
  have holds: "list_ex (\<lambda>p. filter_holds rx path (Subpath p)) ps \<longleftrightarrow> below path ps"
    "list_ex (\<lambda>p. filter_holds rx path (Literal p)) ps \<longleftrightarrow> list_ex (path_eq path) ps" for ps
    by (simp_all add: filter_holds_def below_def)
  have covers:
    "operation_covers ''file-read*'' ''file-read-data''" "\<not> operation_covers ''file-read*'' ''file-write-data''"
    "\<not> operation_covers ''file-read*'' ''file-write-unlink''" "\<not> operation_covers ''file-write*'' ''file-read-data''"
    "operation_covers ''file-write*'' ''file-write-data''" "operation_covers ''file-write*'' ''file-write-unlink''"
    "\<not> operation_covers ''file-write-unlink'' ''file-read-data''"
    "\<not> operation_covers ''file-write-unlink'' ''file-write-data''"
    "operation_covers ''file-write-unlink'' ''file-write-unlink''"
    "\<not> operation_covers ''file-read-metadata'' ''file-read-data''"
    "\<not> operation_covers ''file-read-metadata'' ''file-write-data''"
    "\<not> operation_covers ''file-read-metadata'' ''file-write-unlink''"
    by (simp_all add: operation_covers_def)
  have devices: "decide rx (Rule True rule_op DEVICES # rs) operation path d =
      decide rx rs operation path (if operation_covers rule_op operation \<and> is_device rx path then True else d)"
    "decide rx (Rule True rule_op [] # rs) operation path d =
      decide rx rs operation path (if operation_covers rule_op operation then True else d)"
    for rule_op operation d rs
    by (auto simp: decide_def applies_def is_device_def DEVICES_def)
  note eval = profile_rules_def decide_append decide_path_rule decide_opening decide_other file_rules_def holds covers devices
  show "profile h r http_port socks_port = ''(version 1)'' @ [newline] @ concat (map rule_text ?rules)"
    by (rule profile_is_rules)
  show "decide rx ?rules ''file-read-data'' path False \<longleftrightarrow> \<not> below path (rs_read_deny r)"
    by (simp add: eval)
  show "decide rx ?rules ''file-write-data'' path False \<longleftrightarrow>
         (below path (rs_write_allow r) \<or> is_device rx path) \<and> \<not> below path (rs_write_deny r)"
    by (simp add: eval)
  show "decide rx ?rules ''file-write-unlink'' path False \<longleftrightarrow>
         (below path (rs_write_allow r) \<or> is_device rx path) \<and> \<not> below path (rs_write_deny r)
         \<and> \<not> list_ex (path_eq path) (protected_ancestors r)"
    by (simp add: eval)
qed

end
