(* ===== verification/Proxy.thy ===== *)
theory Proxy
  imports Process "HOL-Library.Word"
begin

text \<open>
  \<open>beez-sandbox/src/proxy.rs\<close>: the allowlist of the two proxies and the connection to an allowed host.
  What a proxy does while it serves one client is the record \<open>exchange\<close>: the targets reported, which all
  clients share, the addresses it tried to connect to, the bytes it wrote to the client, and the bytes it
  wrote to the host it connected to before both are piped. The resolver, the network and the text of an
  address are the record \<open>network\<close>; \<open>n_client\<close> and \<open>n_upstream\<close> are the errors of writing.
\<close>

subsection \<open>Addresses\<close>

datatype ip = V4 "32 word" | V6 "128 word"

unbundle bit_operations_syntax

definition is_local_v4 :: "32 word \<Rightarrow> bool" where
  "is_local_v4 a \<longleftrightarrow>
     drop_bit 24 a = 127 \<or> drop_bit 16 a = 0xa9fe \<or> a = 0 \<or> a = 0xffffffff"

text \<open>\<open>to_ipv4_mapped\<close>: an address of \<open>::ffff:0:0/96\<close>.\<close>

definition to_ipv4_mapped :: "128 word \<Rightarrow> 32 word option" where
  "to_ipv4_mapped a = (if drop_bit 32 a = 0xffff then Some (ucast a) else None)"

definition is_local :: "ip \<Rightarrow> bool" where
  "is_local address =
     (case address of
        V4 a \<Rightarrow> is_local_v4 a
      | V6 a \<Rightarrow>
          (case to_ipv4_mapped a of
             Some mapped \<Rightarrow> is_local_v4 mapped
           | None \<Rightarrow> a = 1 \<or> a = 0 \<or> drop_bit 112 a AND 0xffc0 = 0xfe80))"

subsection \<open>The allowlist\<close>

record rules =
  ru_domains :: "domain_rule list"
  ru_localhost :: bool

record network =
  n_resolve :: "string \<Rightarrow> nat \<Rightarrow> io_error + (ip \<times> nat) list"
  n_reach :: "ip \<times> nat \<Rightarrow> io_error option"
  n_ip_text :: "ip \<Rightarrow> string"
  n_client :: "io_error option"
  n_upstream :: "io_error option"

record exchange =
  ex_reported :: "string set"
  ex_lines :: "string list"
  ex_tried :: "(ip \<times> nat) list"
  ex_client :: string
  ex_upstream :: "((ip \<times> nat) \<times> string) option"
  ex_piped :: bool

type_synonym 'a serving = "(exchange, io_error, 'a) action"

definition report_target :: "string \<Rightarrow> exchange \<Rightarrow> exchange" where
  "report_target t st =
     (if t \<in> ex_reported st then st
      else st\<lparr>ex_reported := insert t (ex_reported st),
              ex_lines := ex_lines st @ [''denied connection to '' @ t]\<rparr>)"

definition permits :: "rules \<Rightarrow> string \<Rightarrow> nat \<Rightarrow> bool serving" where
  "permits rules host port = (\<lambda>st.
     if list_ex (\<lambda>rule. DomainRule_matches rule host port) (ru_domains rules) then (Inr True, st)
     else (Inr False, report_target (host @ '':'' @ dec port) st))"

definition permits_address :: "network \<Rightarrow> rules \<Rightarrow> string \<Rightarrow> ip \<Rightarrow> bool serving" where
  "permits_address n rules host address = (\<lambda>st.
     if ru_localhost rules \<or> \<not> is_local address then (Inr True, st)
     else (Inr False, report_target (host @ '' ('' @ n_ip_text n address @ '')'') st))"

fun try_addresses ::
    "network \<Rightarrow> rules \<Rightarrow> string \<Rightarrow> (ip \<times> nat) list \<Rightarrow> io_error \<Rightarrow> (ip \<times> nat) serving" where
  "try_addresses n rules host [] last_error = sfail last_error"
| "try_addresses n rules host (address # rest) last_error =
     sbind (permits_address n rules host (fst address)) (\<lambda>permitted.
       if \<not> permitted then
         try_addresses n rules host rest (IoError ''PermissionDenied''
           (host @ '' resolves to local address '' @ n_ip_text n (fst address)))
       else (\<lambda>st.
         let st = st\<lparr>ex_tried := ex_tried st @ [address]\<rparr> in
         case n_reach n address of
           None \<Rightarrow> (Inr address, st\<lparr>ex_upstream := Some (address, [])\<rparr>)
         | Some e \<Rightarrow> try_addresses n rules host rest e st))"

definition connect :: "network \<Rightarrow> rules \<Rightarrow> string \<Rightarrow> nat \<Rightarrow> (ip \<times> nat) serving" where
  "connect n rules host port =
     sbind (slift (n_resolve n host port)) (\<lambda>addresses.
       try_addresses n rules host addresses (IoError ''NotFound'' (host @ '' did not resolve'')))"

definition to_client :: "network \<Rightarrow> string \<Rightarrow> unit serving" where
  "to_client n bytes = (\<lambda>st.
     case n_client n of
       Some e \<Rightarrow> (Inl e, st)
     | None \<Rightarrow> (Inr (), st\<lparr>ex_client := ex_client st @ bytes\<rparr>))"

definition to_upstream :: "network \<Rightarrow> string \<Rightarrow> unit serving" where
  "to_upstream n bytes = (\<lambda>st.
     case n_upstream n of
       Some e \<Rightarrow> (Inl e, st)
     | None \<Rightarrow> (Inr (), st\<lparr>ex_upstream := map_option (\<lambda>(a, sent). (a, sent @ bytes)) (ex_upstream st)\<rparr>))"

definition pipe :: "unit serving" where
  "pipe = (\<lambda>st. (Inr (), st\<lparr>ex_piped := True\<rparr>))"

text \<open>An operation whose error is dropped.\<close>

definition attempt :: "'a serving \<Rightarrow> (io_error + 'a) serving" where
  "attempt a = (\<lambda>st. case a st of (r, st) \<Rightarrow> (Inr r, st))"

subsection \<open>What a proxy may reach\<close>

text \<open>
  \<open>reaches rules n st\<close>: every address tried, and the one connected to, is an address of a host and port
  that a rule allows, and it is not local unless the policy opens localhost.
\<close>

definition allowed_address :: "rules \<Rightarrow> network \<Rightarrow> ip \<times> nat \<Rightarrow> bool" where
  "allowed_address rules n a \<longleftrightarrow>
     (\<exists>host port addresses.
        (\<exists>rule\<in>set (ru_domains rules). DomainRule_matches rule host port)
        \<and> n_resolve n host port = Inr addresses \<and> a \<in> set addresses)
     \<and> (ru_localhost rules \<or> \<not> is_local (fst a))"

definition reaches :: "rules \<Rightarrow> network \<Rightarrow> exchange \<Rightarrow> bool" where
  "reaches rules n st \<longleftrightarrow>
     (\<forall>a\<in>set (ex_tried st). allowed_address rules n a)
     \<and> (\<forall>a sent. ex_upstream st = Some (a, sent) \<longrightarrow> allowed_address rules n a)"

text \<open>
  The steps of a proxy keep that promise. A step is \<open>safe\<close> when it does, and composed steps are safe.
\<close>

definition safe :: "rules \<Rightarrow> network \<Rightarrow> 'a serving \<Rightarrow> bool" where
  "safe rules n a \<longleftrightarrow> (\<forall>st. reaches rules n st \<longrightarrow> reaches rules n (snd (a st)))"

lemma safe_bind [intro]:
  assumes "safe rules n a" and "\<And>x. safe rules n (f x)"
  shows "safe rules n (sbind a f)"
  using assms by (auto simp: safe_def sbind_def split: prod.split sum.split)

lemma safe_return [intro!]: "safe rules n (sreturn x)" "safe rules n (sfail e)" "safe rules n (slift r)"
  by (simp_all add: safe_def)

lemma safe_attempt [intro]: "safe rules n a \<Longrightarrow> safe rules n (attempt a)"
  by (auto simp: safe_def attempt_def split: prod.split)

lemma report_keeps [simp]: "reaches rules n (report_target t st) = reaches rules n st"
  by (simp add: reaches_def report_target_def)

lemma safe_permits [intro!]: "safe rules n (permits rules host port)"
  by (simp add: safe_def permits_def)

lemma safe_to_client [intro!]: "safe rules n (to_client n bytes)"
  by (simp add: safe_def to_client_def reaches_def split: option.split)

lemma safe_to_upstream [intro!]: "safe rules n (to_upstream n bytes)"
  by (auto simp: safe_def to_upstream_def reaches_def split: option.split)

lemma safe_pipe [intro!]: "safe rules n pipe"
  by (simp add: safe_def pipe_def reaches_def)

lemma try_addresses_safe:
  assumes "\<exists>rule\<in>set (ru_domains rules). DomainRule_matches rule host port"
    and "n_resolve n host port = Inr addresses"
  shows "set rest \<subseteq> set addresses \<Longrightarrow> reaches rules n st \<Longrightarrow>
    reaches rules n (snd (try_addresses n rules host rest e st))"
proof (induction rest arbitrary: st e)
  case (Cons a rest)
  let ?tried = "st\<lparr>ex_tried := ex_tried st @ [a]\<rparr>"
  show ?case
  proof (cases "ru_localhost rules \<or> \<not> is_local (fst a)")
    case True
    then have a: "allowed_address rules n a"
      using assms Cons.prems(1) by (auto simp: allowed_address_def)
    then have "reaches rules n ?tried"
      and "reaches rules n (?tried\<lparr>ex_upstream := Some (a, [])\<rparr>)"
      using Cons.prems(2) by (auto simp: reaches_def)
    then show ?thesis using True Cons.IH [of ?tried] Cons.prems(1)
      by (auto simp: sbind_def permits_address_def Let_def split: option.split)
  next
    case False
    then show ?thesis using Cons.IH Cons.prems by (simp add: sbind_def permits_address_def)
  qed
qed simp

lemma connect_safe:
  assumes "\<exists>rule\<in>set (ru_domains rules). DomainRule_matches rule host port" and "reaches rules n st"
  shows "reaches rules n (snd (connect n rules host port st))"
proof (cases "n_resolve n host port")
  case (Inl e)
  then show ?thesis using assms(2) by (simp add: connect_def sbind_def)
next
  case (Inr addresses)
  then show ?thesis
    using try_addresses_safe [OF assms(1) Inr subset_refl assms(2)] by (simp add: connect_def sbind_def)
qed

text \<open>The shape of both proxies: once a target is permitted, connect to it and go on.\<close>

lemma safe_target:
  assumes "\<And>a. safe rules n (served a)" and "\<And>e. safe rules n (failed e)" and "safe rules n denied"
  shows "safe rules n
    (sbind (permits rules host port) (\<lambda>permitted.
       if \<not> permitted then denied
       else sbind (attempt (connect n rules host port)) (\<lambda>r. case r of Inl e \<Rightarrow> failed e | Inr a \<Rightarrow> served a)))"
  unfolding safe_def
proof (intro allI impI)
  fix st assume st: "reaches rules n st"
  show "reaches rules n (snd (sbind (permits rules host port) (\<lambda>permitted.
       if \<not> permitted then denied
       else sbind (attempt (connect n rules host port)) (\<lambda>r. case r of Inl e \<Rightarrow> failed e | Inr a \<Rightarrow> served a)) st))"
  proof (cases "list_ex (\<lambda>rule. DomainRule_matches rule host port) (ru_domains rules)")
    case True
    obtain r st' where c: "connect n rules host port st = (r, st')" by (cases "connect n rules host port st")
    have "reaches rules n st'" using connect_safe [OF _ st] True c by (metis list_ex_iff snd_conv)
    then show ?thesis using assms True
      by (cases r) (auto simp: sbind_def permits_def attempt_def c safe_def)
  next
    case False
    then show ?thesis using assms(3) st by (simp add: sbind_def permits_def safe_def)
  qed
qed

end
