(* ===== verification/Server.thy ===== *)
theory Server
  imports Proxy
begin

text \<open>
  \<open>beez-sandbox/src/server.rs\<close>: the accept loop that serves each connection on its own thread, and its
  end. The loop, the handlers, the owner and the clients are threads, so a step of the server is one atomic
  step of any of them. Connections are numbers; what a handler does with one is left open, also that it
  panics, since its slot is given back either way.
\<close>

definition MAX_CONNECTIONS :: nat where "MAX_CONNECTIONS = 256"

text \<open>Where the loop is: \<open>Claiming\<close>, \<open>Refusing\<close> and \<open>Starting\<close> lie around the two halves of
  \<open>ConnectionSlot::claim\<close> and the spawn of the handler.\<close>

datatype phase =
    Checking
  | Accepting
  | Accepted nat
  | Claiming nat
  | Refusing nat
  | ReportingLimit nat
  | Starting nat
  | Returned

text \<open>What the owner does. \<open>Stopping joins\<close> has set the flag and still has to wake the loop.\<close>

datatype owner = Serving | WaitingForEnd | Stopping bool | Joining | Gone

record server =
  sv_stop :: bool
  sv_live :: "64 word"
  sv_limit_reported :: bool
  sv_lines :: "string list"
  sv_backlog :: "nat list"
  sv_loop :: phase
  sv_handlers :: "nat list"
  sv_owner :: owner

definition Server_spawn :: "nat list \<Rightarrow> server" where
  "Server_spawn queue =
     \<lparr>sv_stop = False, sv_live = 0, sv_limit_reported = False, sv_lines = [], sv_backlog = queue,
      sv_loop = Checking, sv_handlers = [], sv_owner = Serving\<rparr>"

definition transient :: "io_error \<Rightarrow> bool" where
  "transient e \<longleftrightarrow> io_kind e = ''Interrupted'' \<or> io_kind e = ''ConnectionAborted''"

definition limit_line :: string where
  "limit_line = ''refused a connection, '' @ dec MAX_CONNECTIONS @ '' are already open''"

text \<open>The two halves of a claim, and the drop of a slot.\<close>

definition claim_slot :: "nat \<Rightarrow> server \<Rightarrow> server" where
  "claim_slot c s =
     s\<lparr>sv_live := sv_live s + 1,
       sv_loop := (if MAX_CONNECTIONS \<le> unat (sv_live s) then Refusing c else Starting c)\<rparr>"

definition drop_slot :: "server \<Rightarrow> server" where
  "drop_slot s = s\<lparr>sv_live := sv_live s - 1\<rparr>"

definition report_limit :: "server \<Rightarrow> server" where
  "report_limit s =
     (if sv_limit_reported s then s
      else s\<lparr>sv_limit_reported := True, sv_lines := sv_lines s @ [limit_line]\<rparr>)"

inductive loop_step :: "server \<Rightarrow> server \<Rightarrow> bool" where
  check: "sv_loop s = Checking \<Longrightarrow>
    loop_step s (s\<lparr>sv_loop := if sv_stop s then Returned else Accepting\<rparr>)"
| accept: "sv_loop s = Accepting \<Longrightarrow> sv_backlog s = c # rest \<Longrightarrow>
    loop_step s (s\<lparr>sv_backlog := rest, sv_loop := Accepted c\<rparr>)"
| accept_again: "sv_loop s = Accepting \<Longrightarrow> transient e \<Longrightarrow> loop_step s (s\<lparr>sv_loop := Checking\<rparr>)"
| accept_fails: "sv_loop s = Accepting \<Longrightarrow> \<not> transient e \<Longrightarrow>
    loop_step s (s\<lparr>sv_lines := sv_lines s @ [''stopped accepting connections: '' @ io_text e],
                   sv_loop := Returned\<rparr>)"
| recheck: "sv_loop s = Accepted c \<Longrightarrow>
    loop_step s (s\<lparr>sv_loop := if sv_stop s then Returned else Claiming c\<rparr>)"
| claim: "sv_loop s = Claiming c \<Longrightarrow> loop_step s (claim_slot c s)"
| refuse: "sv_loop s = Refusing c \<Longrightarrow> loop_step s ((drop_slot s)\<lparr>sv_loop := ReportingLimit c\<rparr>)"
| report: "sv_loop s = ReportingLimit c \<Longrightarrow> loop_step s ((report_limit s)\<lparr>sv_loop := Checking\<rparr>)"
| spawn: "sv_loop s = Starting c \<Longrightarrow>
    loop_step s (s\<lparr>sv_handlers := c # sv_handlers s, sv_loop := Checking\<rparr>)"
| spawn_panics: "sv_loop s = Starting c \<Longrightarrow> loop_step s ((drop_slot s)\<lparr>sv_loop := Returned\<rparr>)"

inductive handler_step :: "server \<Rightarrow> server \<Rightarrow> bool" where
  handled: "c \<in> set (sv_handlers s) \<Longrightarrow>
    handler_step s ((drop_slot s)\<lparr>sv_handlers := remove1 c (sv_handlers s)\<rparr>)"

text \<open>\<open>drop\<close> sets the flag, wakes the loop and joins it when it was woken; \<open>wait\<close> joins it first.\<close>

inductive owner_step :: "server \<Rightarrow> server \<Rightarrow> bool" where
  stop: "sv_owner s = Serving \<Longrightarrow> owner_step s (s\<lparr>sv_stop := True, sv_owner := Stopping True\<rparr>)"
| wait: "sv_owner s = Serving \<Longrightarrow> owner_step s (s\<lparr>sv_owner := WaitingForEnd\<rparr>)"
| waited: "sv_owner s = WaitingForEnd \<Longrightarrow> sv_loop s = Returned \<Longrightarrow>
    owner_step s (s\<lparr>sv_stop := True, sv_owner := Stopping False\<rparr>)"
| woken: "sv_owner s = Stopping joins \<Longrightarrow>
    owner_step s (s\<lparr>sv_backlog := sv_backlog s @ [w], sv_owner := if joins then Joining else Gone\<rparr>)"
| not_woken: "sv_owner s = Stopping joins \<Longrightarrow> owner_step s (s\<lparr>sv_owner := Gone\<rparr>)"
| joined: "sv_owner s = Joining \<Longrightarrow> sv_loop s = Returned \<Longrightarrow> owner_step s (s\<lparr>sv_owner := Gone\<rparr>)"

inductive client_step :: "server \<Rightarrow> server \<Rightarrow> bool" where
  connects: "client_step s (s\<lparr>sv_backlog := sv_backlog s @ [c]\<rparr>)"

text \<open>\<open>server_steps n s t\<close>: steps of all threads lead from \<open>s\<close> to \<open>t\<close>, and \<open>n\<close> of them are of the
  loop.\<close>

inductive server_steps :: "nat \<Rightarrow> server \<Rightarrow> server \<Rightarrow> bool" where
  rest: "server_steps 0 s s"
| loop: "server_steps n s t \<Longrightarrow> loop_step t u \<Longrightarrow> server_steps (Suc n) s u"
| other: "server_steps n s t \<Longrightarrow> handler_step t u \<or> owner_step t u \<or> client_step t u \<Longrightarrow> server_steps n s u"

lemmas server_simps = claim_slot_def drop_slot_def report_limit_def
lemmas thread_steps = loop_step.simps handler_step.simps owner_step.simps client_step.simps

subsection \<open>The slots\<close>

definition in_flight :: "phase \<Rightarrow> nat" where
  "in_flight p = (case p of Refusing c \<Rightarrow> 1 | Starting c \<Rightarrow> 1 | _ \<Rightarrow> 0)"

definition slots_inv :: "server \<Rightarrow> bool" where
  "slots_inv s \<longleftrightarrow>
     unat (sv_live s) = length (sv_handlers s) + in_flight (sv_loop s)
     \<and> length (sv_handlers s) + (case sv_loop s of Starting c \<Rightarrow> 1 | _ \<Rightarrow> 0) \<le> MAX_CONNECTIONS
     \<and> length (filter (\<lambda>l. l = limit_line) (sv_lines s)) = (if sv_limit_reported s then 1 else 0)"

lemma unat_step:
  "unat (w :: 64 word) \<le> 256 \<Longrightarrow> unat (w + 1) = unat w + 1"
  "0 < unat (w :: 64 word) \<Longrightarrow> unat (w - 1) = unat w - 1"
  by (simp add: unat_word_ariths, metis gr_implies_not0 unat_eq_zero unat_minus_one)

lemma limit_line_first: "limit_line \<noteq> CHR ''s'' # t"
  by (simp add: limit_line_def)

lemma slots_loop: "loop_step s t \<Longrightarrow> slots_inv s \<Longrightarrow> slots_inv t"
  by (cases rule: loop_step.cases)
    (auto simp: slots_inv_def in_flight_def server_simps unat_step MAX_CONNECTIONS_def limit_line_first
       limit_line_first [symmetric] split: if_splits)

lemma slots_handler:
  assumes "handler_step s t" and "slots_inv s"
  shows "slots_inv t"
  using assms(1)
proof cases
  case (handled c)
  then obtain k where "length (sv_handlers s) = Suc k" by (cases "sv_handlers s") auto
  with assms(2) handled show ?thesis
    by (simp add: slots_inv_def in_flight_def server_simps unat_step length_remove1)
qed

lemma slots_owner: "owner_step s t \<or> client_step s t \<Longrightarrow> slots_inv s \<Longrightarrow> slots_inv t"
  unfolding owner_step.simps client_step.simps slots_inv_def by (elim disjE exE conjE) simp_all

lemma slots_reachable: "server_steps n s t \<Longrightarrow> slots_inv s \<Longrightarrow> slots_inv t"
  by (induction rule: server_steps.induct)
    (auto intro: slots_loop slots_handler slots_owner)

text \<open>C30. However clients, handlers, the loop and the owner interleave, a server never runs more than 256
  handlers at once, the counter of its slots never wraps and holds the number of handlers whenever the loop
  is between two connections, and the limit is reported at most once.\<close>

theorem server_connections_bounded:
  assumes "server_steps n (Server_spawn clients) s"
  shows "length (sv_handlers s) \<le> MAX_CONNECTIONS \<and> unat (sv_live s) \<le> MAX_CONNECTIONS + 1
    \<and> (sv_loop s \<in> {Checking, Accepting, Returned} \<longrightarrow> unat (sv_live s) = length (sv_handlers s))
    \<and> length (filter (\<lambda>l. l = limit_line) (sv_lines s)) \<le> 1"
proof -
  have "slots_inv s"
    by (rule slots_reachable [OF assms])
      (simp add: slots_inv_def Server_spawn_def in_flight_def MAX_CONNECTIONS_def)
  then show ?thesis by (auto simp: slots_inv_def in_flight_def split: phase.splits)
qed

text \<open>A connection that is accepted, claimed and handed to its thread.\<close>

definition one_handled :: server where
  "one_handled = (Server_spawn [])\<lparr>sv_live := 1, sv_handlers := [7]\<rparr>"

lemma one_handled_reached: "server_steps 5 (Server_spawn [7]) one_handled"
proof -
  let ?s = "Server_spawn [7]"
  have "loop_step ?s (?s\<lparr>sv_loop := Accepting\<rparr>)"
    using loop_step.check [of ?s] by (simp add: Server_spawn_def)
  from server_steps.loop [OF server_steps.rest this] 
  have "server_steps (Suc 0) ?s (?s\<lparr>sv_loop := Accepting\<rparr>)" .
  from server_steps.loop [OF this loop_step.accept [of _ 7 "[]"]]
  have "server_steps 2 ?s (?s\<lparr>sv_backlog := [], sv_loop := Accepted 7\<rparr>)"
    by (simp add: Server_spawn_def numeral_2_eq_2)
  from server_steps.loop [OF this loop_step.recheck [of _ 7]]
  have "server_steps 3 ?s (?s\<lparr>sv_backlog := [], sv_loop := Claiming 7\<rparr>)"
    by (simp add: Server_spawn_def)
  from server_steps.loop [OF this loop_step.claim [of _ 7]]
  have "server_steps 4 ?s (?s\<lparr>sv_live := 1, sv_backlog := [], sv_loop := Starting 7\<rparr>)"
    by (simp add: Server_spawn_def claim_slot_def MAX_CONNECTIONS_def)
  from server_steps.loop [OF this loop_step.spawn [of _ 7]]
  show ?thesis by (simp add: Server_spawn_def one_handled_def)
qed

theorem server_connections_bounded_witness:
  "sv_handlers one_handled = [7] \<and> length (sv_handlers one_handled) \<le> MAX_CONNECTIONS"
  using server_connections_bounded [OF one_handled_reached] by (simp add: one_handled_def)

subsection \<open>The end\<close>

text \<open>The steps a loop can still take once the flag is set.\<close>

definition loop_left :: "phase \<Rightarrow> nat" where
  "loop_left p =
     (case p of Returned \<Rightarrow> 0 | Checking \<Rightarrow> 1 | Accepting \<Rightarrow> 2 | Accepted c \<Rightarrow> 1 | Claiming c \<Rightarrow> 4
      | Refusing c \<Rightarrow> 3 | ReportingLimit c \<Rightarrow> 2 | Starting c \<Rightarrow> 2)"

text \<open>A loop that waits for a connection after it was woken has one to take.\<close>

definition ending :: "server \<Rightarrow> bool" where
  "ending s \<longleftrightarrow>
     (case sv_owner s of
        Serving \<Rightarrow> True
      | WaitingForEnd \<Rightarrow> True
      | Joining \<Rightarrow> sv_stop s \<and> (sv_loop s = Accepting \<longrightarrow> sv_backlog s \<noteq> [])
      | _ \<Rightarrow> sv_stop s)"

lemma loop_step_left:
  assumes "loop_step s t" and "sv_stop s"
  shows "loop_left (sv_loop t) < loop_left (sv_loop s) \<and> sv_loop t \<noteq> Accepting"
  using assms by cases (auto simp: loop_left_def server_simps)

lemma loop_step_keeps:
  assumes "loop_step s t"
  shows "sv_stop t = sv_stop s \<and> sv_owner t = sv_owner s"
  using assms by cases (auto simp: server_simps)

lemma other_step_keeps:
  assumes "handler_step s t \<or> owner_step s t \<or> client_step s t"
  shows "sv_loop t = sv_loop s \<and> (sv_stop s \<longrightarrow> sv_stop t)"
  using assms unfolding handler_step.simps owner_step.simps client_step.simps
  by (elim disjE exE conjE) (simp_all add: server_simps)

lemma ending_loop: "loop_step s t \<Longrightarrow> ending s \<Longrightarrow> ending t"
  using loop_step_keeps [of s t] loop_step_left [of s t] by (auto simp: ending_def split: owner.splits)

lemma ending_other: "handler_step s t \<or> owner_step s t \<or> client_step s t \<Longrightarrow> ending s \<Longrightarrow> ending t"
  unfolding handler_step.simps owner_step.simps client_step.simps
  by (elim disjE exE conjE) (auto simp: ending_def server_simps split: owner.splits)

lemma ending_reachable: "server_steps n s t \<Longrightarrow> ending s \<Longrightarrow> ending t"
  by (induction rule: server_steps.induct) (auto intro: ending_loop ending_other)

lemma steps_left: "server_steps n s t \<Longrightarrow> sv_stop s \<Longrightarrow>
    sv_stop t \<and> n + loop_left (sv_loop t) \<le> loop_left (sv_loop s)"
proof (induction rule: server_steps.induct)
  case (loop n s t u)
  then show ?case using loop_step_left [of t u] loop_step_keeps [of t u] by auto
next
  case (other n s t u)
  then show ?case using other_step_keeps [of t u] by auto
qed simp

lemma owner_after_join:
  "server_steps n s t \<Longrightarrow> sv_owner s = Joining \<Longrightarrow> sv_owner t = Joining \<or> sv_owner t = Gone"
proof (induction rule: server_steps.induct)
  case (loop n s t u)
  then show ?case using loop_step_keeps [of t u] by auto
next
  case (other n s t u)
  then show ?case unfolding handler_step.simps owner_step.simps client_step.simps
    by (elim disjE exE conjE) (auto simp: server_simps)
qed simp

lemma loop_moves:
  assumes "sv_loop s \<noteq> Returned" and "sv_loop s = Accepting \<longrightarrow> sv_backlog s \<noteq> []"
  shows "\<exists>t. loop_step s t"
  using assms by (cases "sv_loop s"; cases "sv_backlog s") (auto intro: loop_step.intros)

text \<open>C31. Dropping a server that could be woken ends: after the wake the loop takes at most four steps in any
  interleaving, and until the owner is gone the loop or the owner can always take a step.\<close>

theorem dropped_server_ends:
  assumes "server_steps m (Server_spawn clients) s" and "sv_owner s = Joining" and "server_steps n s t"
  shows "n \<le> 4 \<and> (sv_owner t = Gone \<or> (\<exists>u. loop_step t u) \<or> (\<exists>u. owner_step t u))"
proof -
  have "ending (Server_spawn clients)" by (simp add: ending_def Server_spawn_def)
  from ending_reachable [OF assms(1) this] have s: "ending s" .
  then have stop: "sv_stop s" using assms(2) by (simp add: ending_def)
  have t: "ending t" using ending_reachable [OF assms(3) s] .
  have "loop_left (sv_loop s) \<le> 4" by (simp add: loop_left_def split: phase.split)
  then have "n \<le> 4" using steps_left [OF assms(3) stop] by simp
  moreover have "sv_owner t = Gone \<or> (\<exists>u. loop_step t u) \<or> (\<exists>u. owner_step t u)"
  proof (cases "sv_owner t = Gone")
    case False
    then have owner: "sv_owner t = Joining" using owner_after_join [OF assms(3,2)] by simp
    show ?thesis
    proof (cases "sv_loop t = Returned")
      case True
      then show ?thesis using owner owner_step.joined by blast
    next
      case False
      then show ?thesis using loop_moves [of t] t owner by (auto simp: ending_def)
    qed
  qed simp
  ultimately show ?thesis ..
qed

text \<open>A server dropped while its loop waits: the wake is the connection it accepts.\<close>

definition dropped :: "phase \<Rightarrow> nat list \<Rightarrow> server" where
  "dropped p queue = (Server_spawn [])\<lparr>sv_stop := True, sv_backlog := queue, sv_loop := p, sv_owner := Joining\<rparr>"

theorem dropped_server_ends_witness:
  "\<exists>u. owner_step (dropped Returned []) u"
proof -
  let ?s = "Server_spawn []"
  have "loop_step ?s (?s\<lparr>sv_loop := Accepting\<rparr>)"
    using loop_step.check [of ?s] by (simp add: Server_spawn_def)
  from server_steps.loop [OF server_steps.rest this]
  have "server_steps (Suc 0) ?s (?s\<lparr>sv_loop := Accepting\<rparr>)" .
  from server_steps.other [OF this disjI2 [OF disjI1 [OF owner_step.stop]]]
  have "server_steps (Suc 0) ?s (?s\<lparr>sv_stop := True, sv_loop := Accepting, sv_owner := Stopping True\<rparr>)"
    by (simp add: Server_spawn_def)
  from server_steps.other [OF this disjI2 [OF disjI1 [OF owner_step.woken [of _ True 0]]]]
  have reached: "server_steps (Suc 0) ?s (dropped Accepting [0])"
    by (simp add: Server_spawn_def dropped_def)
  have "loop_step (dropped Accepting [0]) (dropped (Accepted 0) [])"
    using loop_step.accept [of "dropped Accepting [0]" 0 "[]"] by (simp add: dropped_def Server_spawn_def)
  moreover have "loop_step (dropped (Accepted 0) []) (dropped Returned [])"
    using loop_step.recheck [of "dropped (Accepted 0) []" 0] by (simp add: dropped_def Server_spawn_def)
  ultimately have "server_steps (Suc (Suc 0)) (dropped Accepting [0]) (dropped Returned [])"
    by (blast intro: server_steps.intros)
  from dropped_server_ends [OF reached _ this] show ?thesis
    by (auto simp: dropped_def Server_spawn_def elim: loop_step.cases)
qed

end
