(* ===== verification/Sandbox.thy ===== *)
theory Sandbox
  imports Seatbelt Server
begin

text \<open>
  \<open>beez-sandbox/src/sandbox.rs\<close>, the start of the bridge in \<open>bubblewrap.rs\<close>, \<open>init.rs\<close>, and the command
  \<open>sandbox-init\<close> of \<open>beez-cli/src/main.rs\<close>: how a program and a policy become a command, and what the
  process does that this command starts inside the sandbox. What the operating system answers is the
  records \<open>system\<close> and \<open>kernel\<close>.
\<close>

subsection \<open>Commands\<close>

record os_command =
  cm_program :: string
  cm_arguments :: "string list"
  cm_directory :: "string option"
  cm_environment :: "string \<Rightarrow> string option"

definition Command_new :: "string \<times> string list \<Rightarrow> os_command" where
  "Command_new c =
     \<lparr>cm_program = fst c, cm_arguments = snd c, cm_directory = None, cm_environment = Map.empty\<rparr>"

definition set_env :: "string \<times> string \<Rightarrow> os_command \<Rightarrow> os_command" where
  "set_env v c = c\<lparr>cm_environment := (cm_environment c)(fst v \<mapsto> snd v)\<rparr>"

definition proxy_environment :: "nat \<Rightarrow> nat \<Rightarrow> (string \<times> string) list" where
  "proxy_environment http_port socks_port =
     (let http = ''http://127.0.0.1:'' @ dec http_port; socks = ''socks5h://127.0.0.1:'' @ dec socks_port in
      [(''HTTP_PROXY'', http), (''http_proxy'', http), (''HTTPS_PROXY'', http), (''https_proxy'', http),
       (''ALL_PROXY'', socks), (''all_proxy'', socks),
       (''NO_PROXY'', ''localhost,127.0.0.1,::1''), (''no_proxy'', ''localhost,127.0.0.1,::1''),
       (''NODE_USE_ENV_PROXY'', ''1'')])"

definition configure :: "resolved_sandbox \<Rightarrow> nat \<Rightarrow> nat \<Rightarrow> os_command \<Rightarrow> os_command" where
  "configure r http_port socks_port c =
     fold set_env (rs_environment r)
       (fold set_env (proxy_environment http_port socks_port)
         (c\<lparr>cm_directory := Some (rs_working_directory r)\<rparr>))"

subsection \<open>The bridge\<close>

datatype bridge_step = MakeDir string | OwnerOnly string | BindSocket string nat | RemoveAll string

text \<open>A step of the bridge, unless the system refuses it.\<close>

definition bridge_do ::
    "(bridge_step \<Rightarrow> io_error option) \<Rightarrow> bridge_step \<Rightarrow> (bridge_step list, io_error, unit) action" where
  "bridge_do refuses step = (\<lambda>taken. case refuses step of Some e \<Rightarrow> (Inl e, taken) | None \<Rightarrow> (Inr (), taken @ [step]))"

text \<open>The drop of the guard of the directory, for a bridge that stops or does not start.\<close>

definition drop_directory :: "string \<Rightarrow> bridge_step list \<Rightarrow> bridge_step list" where
  "drop_directory directory taken = taken @ [RemoveAll directory]"

definition Bridge_start ::
    "(bridge_step \<Rightarrow> io_error option) \<Rightarrow> string \<Rightarrow> nat \<Rightarrow> nat \<Rightarrow> nat \<Rightarrow> nat
     \<Rightarrow> (bridge_step list, io_error, bridge) action" where
  "Bridge_start refuses temp_dir pid sequence http_port socks_port =
     (let b = Bridge_at temp_dir pid sequence in
      sbind (bridge_do refuses (MakeDir (br_directory b))) (\<lambda>_. \<lambda>taken.
        case sbind (bridge_do refuses (OwnerOnly (br_directory b))) (\<lambda>_.
             sbind (bridge_do refuses (MakeDir (br_empty b))) (\<lambda>_.
             sbind (bridge_do refuses (BindSocket (br_http_socket b) http_port)) (\<lambda>_.
             sbind (bridge_do refuses (BindSocket (br_socks_socket b) socks_port)) (\<lambda>_.
               sreturn b)))) taken of
          (Inl e, taken) \<Rightarrow> (Inl e, drop_directory (br_directory b) taken)
        | (Inr b, taken) \<Rightarrow> (Inr b, taken)))"

lemma failed_bridge_leaves_nothing:
  assumes "Bridge_start refuses temp_dir pid sequence http_port socks_port [] = (Inl e, taken)"
  shows "taken = [] \<or> last taken = RemoveAll (br_directory (Bridge_at temp_dir pid sequence))"
  using assms
  by (auto simp: Bridge_start_def Let_def sbind_def bridge_do_def drop_directory_def
      split: option.splits prod.splits sum.splits)

subsection \<open>The command of a program\<close>

record system =
  os_home :: "string option"
  os_host :: host
  os_proxy :: "domain_rule list \<Rightarrow> bool \<Rightarrow> io_error + nat \<times> nat"
  os_refuses :: "bridge_step \<Rightarrow> io_error option"
  os_pid :: nat
  os_bridge_sequence :: nat
  os_current_exe :: "io_error + string"

definition SandboxedCommand_new ::
    "system \<Rightarrow> sandbox_policy \<Rightarrow> headless_harness option \<Rightarrow> string \<Rightarrow> string list \<Rightarrow> string
     \<Rightarrow> (bridge_step list, io_error, os_command) action" where
  "SandboxedCommand_new os policy harness program arguments working_directory =
     sbind (slift (ok_or (io_other ''sandbox needs the home directory'') (os_home os))) (\<lambda>home.
     sbind (slift (ResolvedSandbox_resolve (os_host os) policy harness program working_directory home)) (\<lambda>resolved.
     sbind (slift (os_proxy os (rs_allowed_domains resolved) (rs_localhost resolved))) (\<lambda>(http_port, socks_port).
       case h_platform (os_host os) of
         MacOs \<Rightarrow>
           sreturn (configure resolved http_port socks_port
             (Command_new (seatbelt_command (os_host os) resolved http_port socks_port arguments)))
       | Linux \<Rightarrow>
           sbind (Bridge_start (os_refuses os) (h_temp_dir (os_host os)) (os_pid os) (os_bridge_sequence os)
                    http_port socks_port) (\<lambda>bridge taken.
             case bwrap_command (os_host os) resolved bridge (os_current_exe os) arguments of
               Inl e \<Rightarrow> (Inl e, drop_directory (br_directory bridge) taken)
             | Inr c \<Rightarrow> (Inr (configure resolved HTTP_PORT SOCKS_PORT (Command_new c)), taken))
       | OtherPlatform \<Rightarrow>
           sfail (IoError ''Unsupported'' ''sandbox is supported on macOS and Linux only''))))"

subsection \<open>Inside the sandbox\<close>

definition RELAY_START_TIMEOUT :: nat where "RELAY_START_TIMEOUT = 5000"

text \<open>
  The loop that waits for a relay, in milliseconds: try \<open>i\<close> comes after \<open>i\<close> sleeps of ten, each at least that
  long, so at time \<open>10 * i + late i\<close>.
\<close>

function wait_loop :: "(nat \<Rightarrow> bool) \<Rightarrow> (nat \<Rightarrow> nat) \<Rightarrow> string \<Rightarrow> nat \<Rightarrow> nat \<Rightarrow> io_error + unit" where
  "wait_loop connects late address timeout i =
     (if connects i then Inr ()
      else if timeout < 10 * i + late i
        then Inl (IoError ''TimedOut'' (''sandbox relay on '' @ address @ '' did not start''))
      else wait_loop connects late address timeout (Suc i))"
  by pat_completeness auto
termination by (relation "measure (\<lambda>(connects, late, address, timeout, i). timeout + 10 - 10 * i)") auto

declare wait_loop.simps [simp del]

definition wait_for_listener :: "(nat \<Rightarrow> bool) \<Rightarrow> (nat \<Rightarrow> nat) \<Rightarrow> string \<Rightarrow> nat \<Rightarrow> io_error + unit" where
  "wait_for_listener connects late address timeout = wait_loop connects late address timeout 0"

text \<open>What the process does, and what the kernel answers to it.\<close>

datatype init_step =
    SpawnRelay nat string
  | RelayListens nat
  | RestrictExecution "string list"
  | Exec string "string list"

text \<open>What Landlock answers: \<open>ll_open\<close> for each path, then for each step of the ruleset, and whether the kernel
  enforces it.\<close>

record landlock =
  ll_open :: "string \<Rightarrow> string option"
  ll_handle :: "string option"
  ll_create :: "string option"
  ll_add :: "string option"
  ll_apply :: "string option"
  ll_enforced :: bool

definition init_context :: "string \<Rightarrow> string \<Rightarrow> io_error" where
  "init_context step e = io_other (''sandbox '' @ step @ '': '' @ e)"

definition in_context :: "string \<Rightarrow> string option \<Rightarrow> io_error + unit" where
  "in_context step refused = (case refused of Some e \<Rightarrow> Inl (init_context step e) | None \<Rightarrow> Inr ())"

definition restrict_execution :: "landlock \<Rightarrow> string list \<Rightarrow> io_error + unit" where
  "restrict_execution ll executables =
     and_then (traverse (\<lambda>path. in_context (''cannot open executable '' @ utf8_lossy path) (ll_open ll path)) executables) (\<lambda>_.
     and_then (in_context ''cannot handle execute access'' (ll_handle ll)) (\<lambda>_.
     and_then (in_context ''cannot create the execute ruleset'' (ll_create ll)) (\<lambda>_.
     and_then (in_context ''cannot add the executable rules'' (ll_add ll)) (\<lambda>_.
     and_then (in_context ''cannot apply the execute ruleset'' (ll_apply ll)) (\<lambda>_.
       if ll_enforced ll then Inr ()
       else Inl (io_other ''sandbox cannot restrict executables: the kernel has no Landlock support''))))))"

record kernel =
  k_spawn :: "nat \<Rightarrow> string \<Rightarrow> io_error option"
  k_connects :: "nat \<Rightarrow> nat \<Rightarrow> bool"
  k_late :: "nat \<Rightarrow> nat \<Rightarrow> nat"
  k_landlock :: landlock
  k_exec :: "string \<Rightarrow> string list \<Rightarrow> io_error option"

type_synonym 'a initing = "(init_step list, io_error, 'a) action"

definition init_do :: "io_error option \<Rightarrow> init_step \<Rightarrow> unit initing" where
  "init_do refused step = (\<lambda>taken. case refused of Some e \<Rightarrow> (Inl e, taken) | None \<Rightarrow> (Inr (), taken @ [step]))"

definition loopback :: "nat \<Rightarrow> string" where
  "loopback port = ''127.0.0.1:'' @ dec port"

definition start_relay :: "kernel \<Rightarrow> nat \<times> string \<Rightarrow> unit initing" where
  "start_relay k r =
     sbind (init_do (k_spawn k (fst r) (snd r)) (SpawnRelay (fst r) (snd r))) (\<lambda>_.
     sbind (slift (wait_for_listener (k_connects k (fst r)) (k_late k (fst r)) (loopback (fst r)) RELAY_START_TIMEOUT)) (\<lambda>_.
       init_do None (RelayListens (fst r))))"

text \<open>\<open>init\<close>: the result \<open>Inr\<close> is a process that was replaced by its program.\<close>

definition sandbox_init ::
    "kernel \<Rightarrow> (nat \<times> string) list \<Rightarrow> string list option \<Rightarrow> string \<Rightarrow> string list \<Rightarrow> unit initing" where
  "sandbox_init k relays executables program arguments =
     sbind (sforeach (start_relay k) relays) (\<lambda>_.
     sbind (case executables of
              Some es \<Rightarrow>
                sbind (slift (restrict_execution (k_landlock k) es)) (\<lambda>_. init_do None (RestrictExecution es))
            | None \<Rightarrow> sreturn ()) (\<lambda>_.
       init_do (k_exec k program arguments) (Exec program arguments)))"

text \<open>The arguments of the command \<open>sandbox-init\<close>, as its parser gives them.\<close>

record sandbox_init_args =
  si_relays :: "string list"
  si_executables :: "string list"
  si_command :: "string list"

definition cli_sandbox_init :: "kernel \<Rightarrow> sandbox_init_args \<Rightarrow> unit initing" where
  "cli_sandbox_init k a =
     sbind (slift (traverse parse_relay (si_relays a))) (\<lambda>relays.
       let executables = (if si_executables a \<noteq> [] then Some (si_executables a) else None) in
       case si_command a of
         [] \<Rightarrow> sfail (invalid_input ''sandbox-init needs a program'')
       | program # arguments \<Rightarrow> sandbox_init k relays executables program arguments)"

subsection \<open>Waiting for a relay\<close>

lemma wait_loop_connects:
  "wait_loop connects late address timeout i = Inr () \<longleftrightarrow>
     (\<exists>j\<ge>i. connects j \<and> (\<forall>m. i \<le> m \<and> m < j \<longrightarrow> 10 * m + late m \<le> timeout))"
  (is "_ \<longleftrightarrow> ?reached i")
proof (induction connects late address timeout i rule: wait_loop.induct)
  case (1 connects late address timeout i)
  let ?reached = "\<lambda>i. \<exists>j\<ge>i. connects j \<and> (\<forall>m. i \<le> m \<and> m < j \<longrightarrow> 10 * m + late m \<le> timeout)"
  consider "connects i" | "\<not> connects i" "timeout < 10 * i + late i"
    | "\<not> connects i" "\<not> timeout < 10 * i + late i" by blast
  then show ?case
  proof cases
    case 2
    have "\<not> ?reached i"
    proof
      assume "?reached i"
      then obtain j where j: "i \<le> j" "connects j" "\<forall>m. i \<le> m \<and> m < j \<longrightarrow> 10 * m + late m \<le> timeout" by blast
      then have "i < j" using 2(1) by (metis le_neq_implies_less)
      then show False using j(3) 2(2) by (metis not_less order_refl)
    qed
    then show ?thesis using 2 by (simp add: wait_loop.simps [of _ _ _ _ i])
  next
    case 3
    have "?reached (Suc i) \<longleftrightarrow> ?reached i"
    proof
      assume "?reached (Suc i)"
      then obtain j where j: "Suc i \<le> j" "connects j"
        "\<forall>m. Suc i \<le> m \<and> m < j \<longrightarrow> 10 * m + late m \<le> timeout" by blast
      have "10 * m + late m \<le> timeout" if "i \<le> m" "m < j" for m
        using that j(3) 3(2) by (cases "m = i") auto
      then show "?reached i" using j(1,2) by (intro exI [of _ j]) auto
    next
      assume "?reached i"
      then obtain j where j: "i \<le> j" "connects j" "\<forall>m. i \<le> m \<and> m < j \<longrightarrow> 10 * m + late m \<le> timeout" by blast
      then have "Suc i \<le> j" using 3(1) by (metis Suc_leI le_neq_implies_less)
      then show "?reached (Suc i)" using j by (intro exI [of _ j]) auto
    qed
    then show ?thesis using 1 3 by (simp add: wait_loop.simps [of _ _ _ _ i])
  qed (auto simp: wait_loop.simps [of _ _ _ _ i])
qed

lemma wait_loop_result:
  "wait_loop connects late address timeout i = Inr ()
   \<or> wait_loop connects late address timeout i =
       Inl (IoError ''TimedOut'' (''sandbox relay on '' @ address @ '' did not start''))"
proof (induction connects late address timeout i rule: wait_loop.induct)
  case (1 connects late address timeout i)
  then show ?case by (subst (1 2) wait_loop.simps) auto
qed

lemma wait_for_listener_connects:
  "wait_for_listener connects late address timeout = Inr () \<longleftrightarrow>
     (\<exists>j. connects j \<and> (\<forall>m<j. 10 * m + late m \<le> timeout))"
  by (simp add: wait_for_listener_def wait_loop_connects)

text \<open>The wait for a relay ends after at most one try per ten milliseconds of its time limit, two more at
  most, and it succeeds exactly when a try connects before the limit has passed.\<close>

theorem relay_wait_ends:
  "(wait_for_listener connects late address timeout = Inr () \<longleftrightarrow>
      (\<exists>j. connects j \<and> (\<forall>m<j. 10 * m + late m \<le> timeout)))
   \<and> (wait_for_listener connects late address timeout \<noteq> Inr () \<longleftrightarrow>
      wait_for_listener connects late address timeout =
        Inl (IoError ''TimedOut'' (''sandbox relay on '' @ address @ '' did not start'')))
   \<and> wait_for_listener connects late address timeout =
      wait_for_listener (\<lambda>i. i \<le> timeout div 10 + 1 \<and> connects i) late address timeout"
proof -
  let ?early = "\<lambda>i. i \<le> timeout div 10 + 1 \<and> connects i"
  have "j \<le> timeout div 10 + 1" if "\<forall>m<j. 10 * m + late m \<le> timeout" for j
  proof (cases j)
    case (Suc m)
    then have "10 * m + late m \<le> timeout" using that by simp
    then show ?thesis using Suc by linarith
  qed simp
  then have "wait_for_listener connects late address timeout = Inr () \<longleftrightarrow>
      wait_for_listener ?early late address timeout = Inr ()"
    unfolding wait_for_listener_connects by blast
  then have early: "wait_for_listener connects late address timeout = wait_for_listener ?early late address timeout"
    using wait_loop_result [of connects late address timeout 0] wait_loop_result [of ?early late address timeout 0]
    unfolding wait_for_listener_def by (elim disjE) simp_all
  have late: "wait_for_listener connects late address timeout \<noteq> Inr () \<longleftrightarrow>
      wait_for_listener connects late address timeout =
        Inl (IoError ''TimedOut'' (''sandbox relay on '' @ address @ '' did not start''))"
    using wait_loop_result [of connects late address timeout 0] unfolding wait_for_listener_def by auto
  show ?thesis by (rule conjI [OF wait_for_listener_connects conjI [OF late early]])
qed

theorem relay_wait_ends_witness:
  "wait_for_listener (\<lambda>i. i = 2) (\<lambda>i. 1) ''127.0.0.1:3128'' 20 = Inr ()
   \<and> wait_for_listener (\<lambda>i. False) (\<lambda>i. 1) ''127.0.0.1:3128'' 20 \<noteq> Inr ()"
proof -
  have "10 * m + 1 \<le> 20" if "m < 2" for m :: nat using that by simp
  then show ?thesis
    using relay_wait_ends [of "\<lambda>i. i = 2" "\<lambda>i. 1" "''127.0.0.1:3128''" 20]
      relay_wait_ends [of "\<lambda>i. False" "\<lambda>i. 1" "''127.0.0.1:3128''" 20] by blast
qed

subsection \<open>Order of the steps\<close>

definition init_steps :: "(nat \<times> string) list \<Rightarrow> string list option \<Rightarrow> string \<Rightarrow> string list \<Rightarrow> init_step list" where
  "init_steps relays executables program arguments =
     concat (map (\<lambda>(port, socket). [SpawnRelay port socket, RelayListens port]) relays)
     @ (case executables of Some es \<Rightarrow> [RestrictExecution es] | None \<Rightarrow> [])
     @ [Exec program arguments]"

lemma init_do_result: "init_do refused step taken = (if refused = None then (Inr (), taken @ [step]) else (Inl (the refused), taken))"
  by (simp add: init_do_def split: option.split)

lemma start_relay_steps:
  assumes "start_relay k r taken = (res, taken')"
  shows "(res = Inr () \<longrightarrow> taken' = taken @ [SpawnRelay (fst r) (snd r), RelayListens (fst r)])
    \<and> (\<forall>p as. Exec p as \<in> set taken' \<longrightarrow> Exec p as \<in> set taken)"
  using assms
  by (auto simp: start_relay_def sbind_def init_do_result split: if_splits sum.splits)

lemma start_relays_steps:
  assumes "sforeach (start_relay k) relays taken = (res, taken')"
  shows "(res = Inr () \<longrightarrow>
        taken' = taken @ concat (map (\<lambda>(port, socket). [SpawnRelay port socket, RelayListens port]) relays))
    \<and> (\<forall>p as. Exec p as \<in> set taken' \<longrightarrow> Exec p as \<in> set taken)"
  using assms
proof (induction relays arbitrary: taken)
  case (Cons r relays)
  obtain res1 taken1 where one: "start_relay k r taken = (res1, taken1)" by (cases "start_relay k r taken")
  note step = start_relay_steps [OF one]
  show ?case
  proof (cases res1)
    case (Inl e)
    then show ?thesis using Cons.prems one step by (auto simp: sbind_def)
  next
    case (Inr u)
    then have "sforeach (start_relay k) relays taken1 = (res, taken')"
      using Cons.prems one by (simp add: sbind_def)
    from Cons.IH [OF this] step Inr show ?thesis by (cases r) auto
  qed
qed auto

lemma sandbox_init_steps:
  assumes "Exec p as \<in> set (snd (sandbox_init k relays executables program arguments []))"
  shows "snd (sandbox_init k relays executables program arguments []) =
    init_steps relays executables program arguments"
proof -
  obtain res taken where relays: "sforeach (start_relay k) relays [] = (res, taken)"
    by (cases "sforeach (start_relay k) relays []")
  note steps = start_relays_steps [OF relays]
  show ?thesis
  proof (cases res)
    case (Inl e)
    then show ?thesis using assms relays steps by (auto simp: sandbox_init_def sbind_def)
  next
    case (Inr u)
    then have "taken = concat (map (\<lambda>(port, socket). [SpawnRelay port socket, RelayListens port]) relays)"
      and "Exec p as \<notin> set taken"
      using steps by auto
    then show ?thesis using assms relays Inr
      by (auto simp: sandbox_init_def sbind_def init_do_result init_steps_def
          split: option.splits if_splits sum.splits)
  qed
qed

subsection \<open>The executables of a policy\<close>

definition answers_absolute :: "host \<Rightarrow> bool" where
  "answers_absolute h \<longleftrightarrow> (\<forall>p q. h_canonicalize h p = Inr q \<longrightarrow> is_absolute q)"

lemma canonical_path_absolute: "answers_absolute h \<Longrightarrow> canonical_path h p = Some q \<Longrightarrow> is_absolute q"
  by (auto simp: canonical_path_def answers_absolute_def to_option_def split: sum.splits)

lemma is_absolute_join: "is_absolute base \<Longrightarrow> is_absolute (path_join base p)"
  by (cases base) (auto simp: path_join_def is_absolute_def)

lemma is_absolute_from_components: "is_absolute (from_components (RootDir # cs))"
proof -
  have "is_absolute p \<Longrightarrow> is_absolute (foldl (\<lambda>p c. path_join p (component_text c)) p cs)" for p
    by (induction cs arbitrary: p) (simp_all add: is_absolute_join)
  then show ?thesis by (simp add: from_components_def path_join_def is_absolute_def)
qed

lemma parent_absolute:
  assumes "is_absolute p" and "parent p = Some q"
  shows "is_absolute q"
proof -
  obtain cs where cs: "components p = RootDir # cs"
    using assms(1) by (simp add: components_def is_absolute_def)
  with assms(2) obtain c ds where "rev cs = c # ds" "q = from_components (RootDir # rev ds)"
    by (cases "rev cs") (auto simp: parent_def split: component.splits)
  then show ?thesis by (simp add: is_absolute_from_components)
qed

lemma set_extend_subset: "set (set_extend new ps) \<subseteq> set new \<union> set ps"
proof (induction new arbitrary: ps)
  case (Cons p new)
  have "set (set_insert p ps) \<subseteq> insert p (set ps)" by (auto simp: set_insert_def set_insort_key)
  then show ?case using Cons [of "set_insert p ps"] by (auto simp: set_extend_def)
qed (simp add: set_extend_def)

lemma path_in_set_extend: "path_in p ps \<Longrightarrow> path_in p (set_extend new ps)"
proof (induction new arbitrary: ps)
  case (Cons q new)
  have "path_in p (set_insert q ps)"
    using Cons.prems by (auto simp: path_in_def set_insert_def list_ex_iff set_insort_key)
  then show ?case using Cons.IH by (simp add: set_extend_def)
qed (simp add: set_extend_def)

lemma in_guarded: "x \<in> set (xs @ (if c then ys else [])) \<Longrightarrow> x \<in> set xs \<or> x \<in> set ys"
  by (auto split: if_splits)

lemma in_option_case: "x \<in> set (case v of None \<Rightarrow> [] | Some y \<Rightarrow> f y) \<Longrightarrow> \<exists>y. v = Some y \<and> x \<in> set (f y)"
  by (cases v) auto

lemma in_list_case: "x \<in> set (case v of [] \<Rightarrow> [] | y # ys \<Rightarrow> f y ys) \<Longrightarrow> \<exists>y ys. v = y # ys \<and> x \<in> set (f y ys)"
  by (cases v) auto

lemma shebang_cases:
  assumes "q \<in> set (shebang_interpreters h script)"
  shows "(\<exists>i. canonical_path h i = Some q) \<or> (\<exists>name. q \<in> set (program_locations h name))"
proof -
  from in_option_case [OF assms [unfolded shebang_interpreters_def]] obtain rest where
    "q \<in> set (case split_whitespace (utf8_lossy (hd (split_at_char newline rest))) of [] \<Rightarrow> [] | interpreter # arguments \<Rightarrow>
      (case canonical_path h interpreter of Some c \<Rightarrow> [c] | None \<Rightarrow> [])
      @ (if file_name interpreter = Some ''env''
         then (case find (\<lambda>w. \<not> prefix ''-'' w) arguments of None \<Rightarrow> [] | Some name \<Rightarrow> program_locations h name)
         else []))" by blast
  from in_list_case [OF this] obtain i as where
    "q \<in> set ((case canonical_path h i of Some c \<Rightarrow> [c] | None \<Rightarrow> [])
      @ (if file_name i = Some ''env''
         then (case find (\<lambda>w. \<not> prefix ''-'' w) as of None \<Rightarrow> [] | Some name \<Rightarrow> program_locations h name)
         else []))" by blast
  from in_guarded [OF this] show ?thesis
  proof
    assume "q \<in> set (case canonical_path h i of Some c \<Rightarrow> [c] | None \<Rightarrow> [])"
    then show ?thesis by (cases "canonical_path h i") auto
  next
    assume "q \<in> set (case find (\<lambda>w. \<not> prefix ''-'' w) as of None \<Rightarrow> [] | Some name \<Rightarrow> program_locations h name)"
    from in_option_case [OF this] show ?thesis by blast
  qed
qed

lemma locations_absolute:
  assumes "answers_absolute h"
  shows "q \<in> set (program_locations h name) \<Longrightarrow> is_absolute q"
    and "q \<in> set (shebang_interpreters h script) \<Longrightarrow> is_absolute q"
    and "q \<in> set (dynamic_loaders h) \<Longrightarrow> is_absolute q"
    and "is_absolute git \<Longrightarrow> q \<in> set (git_helper_directories h git) \<Longrightarrow> is_absolute q"
    and "canonical h home wd sp = Some q \<Longrightarrow> is_absolute q"
    and "locate_program h prog wd = Some q \<Longrightarrow> is_absolute q"
proof -
  have executable: "canonical_executable h p = Some q \<Longrightarrow> is_absolute q" for p q
    using canonical_path_absolute [OF assms]
    by (auto simp: canonical_executable_def split: option.splits if_splits)
  have located: "is_absolute q" if "q \<in> set (program_locations h name)" for q name
  proof -
    from that consider "Option.bind (find_on_path h name) (canonical_executable h) = Some q"
      | p where "canonical_executable h p = Some q"
      by (auto simp: program_locations_def set_map_filter_iff split: option.splits if_splits)
    then show ?thesis using executable by cases (auto simp: Option.bind_eq_Some_conv)
  qed
  show "q \<in> set (program_locations h name) \<Longrightarrow> is_absolute q" by (rule located)
  show "q \<in> set (shebang_interpreters h script) \<Longrightarrow> is_absolute q"
    using shebang_cases [of q h script] canonical_path_absolute [OF assms] located by blast
  show "q \<in> set (dynamic_loaders h) \<Longrightarrow> is_absolute q"
    using canonical_path_absolute [OF assms] by (auto simp: dynamic_loaders_def set_map_filter_iff)
  show "is_absolute q" if git: "is_absolute git" and q: "q \<in> set (git_helper_directories h git)"
  proof -
    from in_option_case [OF q [unfolded git_helper_directories_def]] obtain up where
      up: "Option.bind (parent git) parent = Some up"
      and q: "q \<in> set (filter (h_is_dir h) (map (path_join up) GIT_HELPER_DIRECTORIES))" by blast
    from up git have "is_absolute up" by (auto simp: Option.bind_eq_Some_conv dest: parent_absolute)
    then show ?thesis using q by (auto intro: is_absolute_join)
  qed
  show "canonical h home wd sp = Some q \<Longrightarrow> is_absolute q"
    using canonical_path_absolute [OF assms] by (simp add: canonical_def)
  show "locate_program h prog wd = Some q \<Longrightarrow> is_absolute q"
    using executable by (auto simp: locate_program_def Option.bind_eq_Some_conv)
qed

lemma resolve_executables_absolute:
  assumes "answers_absolute h" and "is_absolute prog"
    and "q \<in> set (resolve_executables h groups allow prog home wd)"
  shows "is_absolute q"
proof -
  let ?abs = "\<lambda>ps. \<forall>q\<in>set ps. is_absolute q"
  have extend: "?abs (set_extend new ps)" if "?abs new" "?abs ps" for new ps
    using that set_extend_subset [of new ps] by blast
  note facts = locations_absolute [OF assms(1)]
  let ?names = "HARNESS_PROGRAMS @ concat (map programs groups) @ map path_text (filter is_bare_name allow)"
  define found where "found = set_extend (concat (map (program_locations h) ?names)) [prog]"
  define named where "named = set_extend
    (List.map_filter (canonical h home wd) (filter (\<lambda>p. \<not> is_bare_name p) allow)) found"
  define helped where "helped = (if executable_group.Git \<in> set groups
    then set_extend (concat (map (git_helper_directories h)
           (filter (\<lambda>p. file_name p = Some ''git'') named))) named
    else named)"
  have "?abs found" unfolding found_def by (rule extend) (use assms(2) facts(1) in auto)
  then have "?abs named"
    unfolding named_def by (rule extend [rotated]) (use facts(5) in \<open>auto simp: set_map_filter_iff\<close>)
  moreover have "?abs (concat (map (git_helper_directories h) (filter (\<lambda>p. file_name p = Some ''git'') named)))"
    using \<open>?abs named\<close> facts(4) by auto
  ultimately have "?abs helped"
    unfolding helped_def using extend [of _ named] by presburger
  let ?loaders = "if h_platform h = Linux then dynamic_loaders h else []"
  have "?abs (concat (map (shebang_interpreters h) (filter (h_is_file h) helped)))"
    using facts(2) by auto
  from extend [OF this \<open>?abs helped\<close>] have "?abs (set_extend ?loaders
      (set_extend (concat (map (shebang_interpreters h) (filter (h_is_file h) helped))) helped))"
    using facts(3) by (intro extend [of ?loaders]) auto
  moreover have "resolve_executables h groups allow prog home wd = set_extend ?loaders
      (set_extend (concat (map (shebang_interpreters h) (filter (h_is_file h) helped))) helped)"
    by (simp only: resolve_executables_def Let_def found_def named_def helped_def)
  ultimately show ?thesis using assms(3) by metis
qed

lemma resolve_executables_program: "path_in prog (resolve_executables h groups allow prog home wd)"
  unfolding resolve_executables_def Let_def
  by (simp add: path_in_set_extend path_in_def [of prog "[prog]"] path_eq_def)

subsection \<open>From the policy to the program\<close>

lemma fold_set_env [simp]:
  "cm_program (fold set_env vs c) = cm_program c" "cm_arguments (fold set_env vs c) = cm_arguments c"
  "cm_directory (fold set_env vs c) = cm_directory c"
  by (induction vs arbitrary: c) (simp_all add: set_env_def)

lemma configure_command [simp]:
  "cm_program (configure r hp sp c) = cm_program c" "cm_arguments (configure r hp sp c) = cm_arguments c"
  "cm_directory (configure r hp sp c) = Some (rs_working_directory r)"
  by (simp_all add: configure_def)

definition init_arguments :: "(nat \<times> string) list \<Rightarrow> string list \<Rightarrow> string list \<Rightarrow> string list" where
  "init_arguments relays executables program =
     concat (map (\<lambda>x. [''--relay'', x]) (map (\<lambda>(port, socket). relay_argument port socket) relays))
     @ concat (map (\<lambda>x. [''--exec'', x]) executables) @ ''--'' # program"

definition bridge_relays :: "bridge \<Rightarrow> (nat \<times> string) list" where
  "bridge_relays b = [(HTTP_PORT, br_http_socket b), (SOCKS_PORT, br_socks_socket b)]"

lemma inner_init_arguments:
  "inner_arguments r b beez arguments = beez # ''sandbox-init'' # init_arguments (bridge_relays b)
     (case rs_executables r of Some es \<Rightarrow> es | None \<Rightarrow> []) (rs_program r # arguments)"
  unfolding inner_arguments_def init_arguments_def bridge_relays_def
  by (simp add: option_args_def [abs_def])

lemma relay_argument_digit: "\<not> prefix ''-'' (relay_argument port socket)"
proof -
  have "hd (dec port) \<in> set (dec port)" by (simp add: dec_not_Nil)
  then have "ascii_digit (hd (dec port))" using dec_digits [of port] by (simp only: list_all_iff)
  moreover have "\<not> ascii_digit CHR ''-''" by code_simp
  ultimately show ?thesis by (cases "dec port") (auto simp: relay_argument_def)
qed

text \<open>What the documentation of the argument parser says of options that take a value, and of what follows
  \<open>--\<close>: the values of each option in order, as long as none starts with a dash.\<close>

definition reads_init_arguments :: "(string list \<Rightarrow> sandbox_init_args) \<Rightarrow> bool" where
  "reads_init_arguments parse \<longleftrightarrow>
     (\<forall>relays executables program.
        (\<forall>x\<in>set relays \<union> set executables. \<not> prefix ''-'' x) \<and> program \<noteq> [] \<longrightarrow>
        parse (concat (map (\<lambda>x. [''--relay'', x]) relays) @ concat (map (\<lambda>x. [''--exec'', x]) executables)
                 @ ''--'' # program)
          = \<lparr>si_relays = relays, si_executables = executables, si_command = program\<rparr>)"

lemma Bridge_start_ok:
  assumes "Bridge_start refuses temp_dir pid sequence hp sp made = (Inr b, made')"
  shows "b = Bridge_at temp_dir pid sequence"
  using assms by (auto simp: Bridge_start_def Let_def sbind_def bridge_do_def split: option.splits prod.splits sum.splits)

lemma Bridge_at_sockets: "br_http_socket (Bridge_at t p s) \<noteq> []" "br_socks_socket (Bridge_at t p s) \<noteq> []"
  by (auto simp: Bridge_at_def Let_def path_join_def is_absolute_def)

lemma SandboxedCommand_linux:
  assumes "SandboxedCommand_new os policy harness program arguments wd made = (Inr c, made')"
    and "h_platform (os_host os) = Linux"
  shows "\<exists>home r b beez. os_home os = Some home
    \<and> ResolvedSandbox_resolve (os_host os) policy harness program wd home = Inr r
    \<and> b = Bridge_at (h_temp_dir (os_host os)) (os_pid os) (os_bridge_sequence os)
    \<and> cm_arguments c = bwrap_arguments (os_host os) r b beez arguments (MaskPlan_of (os_host os) r)"
proof -
  obtain home r hp sp where r: "os_home os = Some home"
    "ResolvedSandbox_resolve (os_host os) policy harness program wd home = Inr r"
    and ports: "os_proxy os (rs_allowed_domains r) (rs_localhost r) = Inr (hp, sp)"
    using assms(1) by (auto simp: SandboxedCommand_new_def sbind_def ok_or_def split: option.splits sum.splits prod.splits)
  obtain res made1 where start: "Bridge_start (os_refuses os) (h_temp_dir (os_host os)) (os_pid os)
      (os_bridge_sequence os) hp sp made = (res, made1)" by fastforce
  then obtain b where b: "res = Inr b"
    using assms r ports by (cases res) (auto simp: SandboxedCommand_new_def sbind_def)
  then obtain cmd where cmd: "bwrap_command (os_host os) r b (os_current_exe os) arguments = Inr cmd"
    and c: "cm_arguments c = snd cmd"
    using assms r ports start
    by (cases "bwrap_command (os_host os) r b (os_current_exe os) arguments")
      (auto simp: SandboxedCommand_new_def sbind_def Command_new_def)
  from cmd obtain beez where
    "snd cmd = bwrap_arguments (os_host os) r b beez arguments (MaskPlan_of (os_host os) r)"
    by (auto simp: bwrap_command_def and_then_Inr_iff)
  then show ?thesis using r b c Bridge_start_ok [OF start [unfolded b]] by auto
qed

lemma resolved_executables:
  assumes "answers_absolute h" and "ResolvedSandbox_resolve h policy harness program wd home = Inr r"
  shows "is_absolute (rs_program r)"
    and "rs_executables r = Some es \<Longrightarrow> path_in (rs_program r) es \<and> (\<forall>e\<in>set es. is_absolute e)"
proof -
  from assms(2) obtain wd' prog where prog: "locate_program h program wd' = Some prog"
    and r: "rs_program r = prog" "rs_executables r = map_option
        (\<lambda>e. resolve_executables h (executable_groups e) (ep_allow e) prog home wd') (sp_executables policy)"
    by (auto simp: ResolvedSandbox_resolve_def and_then_Inr_iff ok_or_def Let_def split: option.splits)
  show prog_abs: "is_absolute (rs_program r)" using locations_absolute(6) [OF assms(1) prog] r by simp
  show "path_in (rs_program r) es \<and> (\<forall>e\<in>set es. is_absolute e)" if "rs_executables r = Some es"
    using that r resolve_executables_program resolve_executables_absolute [OF assms(1)] prog_abs by auto
qed

lemma absolute_no_dash: "is_absolute p \<Longrightarrow> \<not> prefix ''-'' p"
  by (cases p) (auto simp: is_absolute_def)

lemma cli_reads_policy:
  assumes "reads_init_arguments parse" and "answers_absolute h" and "bridge_relays b = relays"
    and "br_http_socket b \<noteq> []" and "br_socks_socket b \<noteq> []"
    and "ResolvedSandbox_resolve h policy harness program wd home = Inr r"
  shows "cli_sandbox_init k (parse (init_arguments relays
      (case rs_executables r of Some es \<Rightarrow> es | None \<Rightarrow> []) (rs_program r # arguments)))
    = sandbox_init k relays (rs_executables r) (rs_program r) arguments"
proof -
  let ?es = "case rs_executables r of Some es \<Rightarrow> es | None \<Rightarrow> []"
  let ?texts = "map (\<lambda>(port, socket). relay_argument port socket) relays"
  note resolved = resolved_executables [OF assms(2,6)]
  have "\<forall>x\<in>set ?texts \<union> set ?es. \<not> prefix ''-'' x"
    using resolved(2) absolute_no_dash relay_argument_digit by (cases "rs_executables r") auto
  then have parsed: "parse (init_arguments relays ?es (rs_program r # arguments)) =
      \<lparr>si_relays = ?texts, si_executables = ?es, si_command = rs_program r # arguments\<rparr>"
    using assms(1) unfolding reads_init_arguments_def init_arguments_def by blast
  have "traverse parse_relay ?texts = Inr relays"
    using assms(3-5) relay_argument_roundtrip
    by (auto simp: bridge_relays_def HTTP_PORT_def SOCKS_PORT_def)
  moreover have "(if ?es \<noteq> [] then Some ?es else None) = rs_executables r"
    using resolved(2) by (cases "rs_executables r") (auto simp: path_in_def)
  ultimately show ?thesis
    unfolding parsed cli_sandbox_init_def Let_def sandbox_init_args.select_convs
    by (simp only: sbind_def slift_apply prod.case sum.case list.case)
qed


text \<open>A host, a kernel that refuses nothing, and a reader of the arguments.\<close>

definition demo_system :: system where
  "demo_system =
     \<lparr>os_home = Some ''/home'',
      os_host = demo_host\<lparr>h_executable := (\<lambda>p. p = ''/bin/ls'' \<or> p = ''/bin/bwrap'')\<rparr>,
      os_proxy = (\<lambda>rules localhost. Inr (40001, 40002)), os_refuses = (\<lambda>_. None), os_pid = 7,
      os_bridge_sequence = 0, os_current_exe = Inr ''/bin/beez''\<rparr>"

definition restricting_policy :: sandbox_policy where
  "restricting_policy = demo_policy\<lparr>sp_executables := Some ExecutablePolicy_default\<rparr>"

definition demo_landlock :: landlock where
  "demo_landlock = \<lparr>ll_open = (\<lambda>_. None), ll_handle = None, ll_create = None, ll_add = None, ll_apply = None,
     ll_enforced = True\<rparr>"

definition demo_kernel :: kernel where
  "demo_kernel = \<lparr>k_spawn = (\<lambda>_ _. None), k_connects = (\<lambda>_ i. i = 3), k_late = (\<lambda>_ _. 0),
     k_landlock = demo_landlock, k_exec = (\<lambda>_ _. None)\<rparr>"

fun read_init :: "string list \<Rightarrow> sandbox_init_args" where
  "read_init (a # b # rest) =
     (if a = ''--relay'' then (read_init rest)\<lparr>si_relays := b # si_relays (read_init rest)\<rparr>
      else if a = ''--exec'' then (read_init rest)\<lparr>si_executables := b # si_executables (read_init rest)\<rparr>
      else \<lparr>si_relays = [], si_executables = [], si_command = b # rest\<rparr>)"
| "read_init rest = \<lparr>si_relays = [], si_executables = [], si_command = []\<rparr>"

lemma read_init_reads: "reads_init_arguments read_init"
proof -
  have execs: "program \<noteq> [] \<Longrightarrow> read_init (concat (map (\<lambda>x. [''--exec'', x]) es) @ ''--'' # program) =
      \<lparr>si_relays = [], si_executables = es, si_command = program\<rparr>" for es program
    by (induction es) (auto simp: neq_Nil_conv)
  have "program \<noteq> [] \<Longrightarrow> read_init (concat (map (\<lambda>x. [''--relay'', x]) rs)
      @ concat (map (\<lambda>x. [''--exec'', x]) es) @ ''--'' # program) =
      \<lparr>si_relays = rs, si_executables = es, si_command = program\<rparr>" for rs es program
    by (induction rs) (simp_all add: execs)
  then show ?thesis by (simp add: reads_init_arguments_def)
qed

lemma demo_system_absolute: "answers_absolute (os_host demo_system)"
  by (auto simp: answers_absolute_def demo_system_def demo_host_def is_absolute_def split: if_splits)

lemma demo_finds:
  "find_on_path (os_host demo_system) ''bwrap'' = Some ''/bin/bwrap''"
  "find_on_path (os_host demo_system) ''ls'' = Some ''/bin/ls''"
  by (simp_all add: find_on_path_def demo_system_def demo_host_def path_join_def is_absolute_def)

lemma demo_resolves:
  "\<exists>r. ResolvedSandbox_resolve (os_host demo_system) restricting_policy None ''ls'' ''/w'' ''/home'' = Inr r"
proof -
  have "h_canonicalize (os_host demo_system) ''/w'' = Inr ''/real/w''"
    by (simp add: demo_system_def demo_host_def)
  moreover have "components ''ls'' = [Normal ''ls'']" by (simp add: components_def component_of_def)
  then have "locate_program (os_host demo_system) ''ls'' ''/real/w'' = Some ''/bin/ls''"
    by (simp add: locate_program_def demo_finds canonical_executable_def canonical_path_def)
      (simp add: demo_system_def demo_host_def)
  ultimately show ?thesis by (simp add: ResolvedSandbox_resolve_def Let_def)
qed

lemma demo_command:
  "\<exists>c made. SandboxedCommand_new demo_system restricting_policy None ''ls'' [''-l''] ''/w'' [] = (Inr c, made)"
proof -
  have home: "os_home demo_system = Some ''/home''" "h_platform (os_host demo_system) = Linux"
    "os_proxy demo_system rules localhost = Inr (40001, 40002)" "os_refuses demo_system step = None"
    "os_current_exe demo_system = Inr ''/bin/beez''" for rules localhost step
    by (simp_all add: demo_system_def demo_host_def)
  show ?thesis
    using demo_resolves
    by (auto simp: SandboxedCommand_new_def sbind_def home demo_finds bwrap_command_def Bridge_start_def bridge_do_def Let_def)
qed

lemma demo_restricts: "restrict_execution demo_landlock es = Inr ()"
proof -
  have "traverse (\<lambda>path. in_context (''cannot open executable '' @ utf8_lossy path) None) es = Inr (map (\<lambda>_. ()) es)"
    by (induction es) (simp_all add: in_context_def)
  then show ?thesis by (simp add: restrict_execution_def demo_landlock_def in_context_def)
qed

lemma demo_kernel_runs:
  "sandbox_init demo_kernel (bridge_relays b) executables program arguments [] =
     (Inr (), init_steps (bridge_relays b) executables program arguments)"
proof -
  have "wait_for_listener (\<lambda>i. i = 3) (\<lambda>_. 0) address RELAY_START_TIMEOUT = Inr ()" for address
    unfolding wait_for_listener_connects by (intro exI [of _ 3]) (simp add: RELAY_START_TIMEOUT_def)
  then show ?thesis
    by (simp add: sandbox_init_def bridge_relays_def start_relay_def sbind_def init_do_def demo_kernel_def
        demo_restricts init_steps_def split: option.split)
qed


end
