(* ===== verification/Cli.thy ===== *)
theory Cli
  imports Report Sandbox Daemon_Run
begin

text \<open>
  \<open>beez-cli/src/main.rs\<close> and \<open>schedule.rs\<close>: the program itself, from the command that \<open>clap\<close> read to its exit
  status. What a command meets is the record \<open>cli_world\<close>; what it changes is the two streams and, by
  their root, the files of a daemon. The prints of the two files that panic on a broken stream are taken to work.
\<close>

subsection \<open>Commands\<close>

record log_args =
  la_log_dir :: "string option"
  la_no_log :: bool

record sandbox_args =
  sa_no_sandbox :: bool
  sa_allow_domain :: "string list"
  sa_allow_write :: "string list"

record workflow_file =
  wf_path :: string
  wf_render :: render_options
  wf_log :: log_args

record harness_run =
  hr_prompt :: string
  hr_model :: "string option"
  hr_effort :: "string option"
  hr_sandbox :: sandbox_args
  hr_log :: log_args

record direct_process =
  pr_sandbox :: sandbox_args
  pr_log :: log_args
  pr_program :: string
  pr_arguments :: "string list"

datatype run_command =
    WorkflowCommand workflow_file
  | PiCommand harness_run
  | OmpCommand harness_run
  | ClaudeCommand harness_run
  | CodexCommand harness_run
  | ProcessCommand direct_process

type_synonym root_args = "string option"

record daemon_run_args =
  dr_root :: root_args
  dr_limit :: nat
  dr_keep_runs :: nat

datatype daemon_command =
    DaemonRunCommand daemon_run_args
  | DaemonStartCommand daemon_run_args
  | DaemonStopCommand root_args
  | DaemonStatusCommand root_args
  | DaemonReloadCommand root_args

datatype schedule_command =
    ScheduleAdd string root_args
  | ScheduleRemove string root_args
  | ScheduleList root_args
  | ScheduleTrigger string root_args
  | SchedulePause string root_args
  | ScheduleResume string root_args

datatype cli =
    RunCli run_command
  | DaemonCli daemon_command
  | ScheduleCli schedule_command
  | SandboxInitCli sandbox_init_args
  | SandboxRelayCli string string

text \<open>
  \<open>cl_client\<close> is what a command to the daemon of a root meets, \<open>cl_turns\<close> what happens to a daemon that runs
  in this process, \<open>cl_bind\<close> the result of listening on an address.
\<close>

record ('p, 'z) cli_world =
  cl_platform :: platform
  cl_outside :: "('p, 'z) outside"
  cl_home :: "string option"
  cl_temp_dir :: string
  cl_current_dir :: "io_error + string"
  cl_shell :: shell
  cl_display :: "string \<Rightarrow> string"
  cl_log_files :: log_files
  cl_pid :: nat
  cl_arguments :: "string list"
  cl_arrivals :: arrivals
  cl_now :: instant
  cl_client :: "daemon_paths \<Rightarrow> ('p, 'z) start_world"
  cl_turns :: "('p, 'z) loop_turn list"
  cl_open_log :: "io_error + unit"
  cl_spawn :: "io_error + nat"
  cl_answers :: "nat \<Rightarrow> bool"
  cl_kernel :: kernel
  cl_bind :: "string \<Rightarrow> io_error + unit"

record cli_state =
  cs_out :: string
  cs_err :: string
  cs_files :: "string \<Rightarrow> daemon_files"

type_synonym 'a commanding = "(cli_state, io_error, 'a) Prelude.action"

definition print_out :: "string \<Rightarrow> unit commanding" where
  "print_out s = (\<lambda>st. (Inr (), st\<lparr>cs_out := cs_out st @ s\<rparr>))"

definition print_err :: "string \<Rightarrow> unit commanding" where
  "print_err s = (\<lambda>st. (Inr (), st\<lparr>cs_err := cs_err st @ s\<rparr>))"

subsection \<open>Arguments\<close>

definition RootArgs_paths :: "('p, 'z) cli_world \<Rightarrow> root_args \<Rightarrow> io_error + daemon_paths" where
  "RootArgs_paths cl a =
     (case a of
        Some r \<Rightarrow> Inr (DaemonPaths_new (cl_temp_dir cl) r)
      | None \<Rightarrow> DaemonPaths_user (cl_temp_dir cl) (cl_home cl))"

definition LogArgs_settings :: "log_args \<Rightarrow> log_settings" where
  "LogArgs_settings a = \<lparr>lg_enabled = (\<not> la_no_log a), lg_directory = la_log_dir a\<rparr>"

definition parse_values ::
    "(string \<Rightarrow> 'e + 'v) \<Rightarrow> ('e \<Rightarrow> string) \<Rightarrow> string list \<Rightarrow> io_error + 'v list" where
  "parse_values parse error_text values =
     map_err (IoError ''InvalidInput'') (parse_all parse error_text values)"

definition SandboxArgs_policy :: "sandbox_args \<Rightarrow> io_error + sandbox_policy option" where
  "SandboxArgs_policy a =
     (if sa_no_sandbox a then Inr None
      else
        and_then (parse_values DomainRule_from_str DomainRuleError_text (sa_allow_domain a)) (\<lambda>allow.
        and_then (parse_values SandboxPath_from_str SandboxPathError_text (sa_allow_write a)) (\<lambda>write_allow.
          Inr (Some (SandboxPolicy_new (NetworkPolicy_new None [] [] allow None)
            (FilesystemPolicy_new None [] write_allow []) None)))))"

subsection \<open>Runs\<close>

text \<open>\<open>run_reported\<close>: the reporter comes back with the status, unless there is no working directory.\<close>

definition run_reported ::
    "('p, 'z) cli_world \<Rightarrow> run_target \<Rightarrow> render_options \<Rightarrow> log_settings \<Rightarrow> int reporting
     \<Rightarrow> (io_error + int) \<times> reporter option" where
  "run_reported cl task_source opts settings run =
     (case cl_current_dir cl of
        Inl e \<Rightarrow> (Inl e, None)
      | Inr working_directory \<Rightarrow>
          let sh = cl_shell cl;
              r = Reporter_new sh (cl_display cl) task_source opts settings
                    (\<lambda>directory. RunLog_create (sh_formats sh) (cl_log_files cl) (sh_clock sh 0) (cl_pid cl)
                       (cl_arguments cl) directory task_source working_directory);
              (status, r) = run r;
              (closed, r) = reporter_finish sh (case status of Inr c \<Rightarrow> Some c | Inl _ \<Rightarrow> None) r in
          (and_then closed (\<lambda>_. status), Some r))"

definition cli_load :: "('p, 'z) cli_world \<Rightarrow> string \<Rightarrow> io_error + workflow" where
  "cli_load cl path =
     map_err (\<lambda>e. IoError ''InvalidData'' (ManifestError_text e))
       (and_then (load_manifest (cl_outside cl) path) (\<lambda>m. Inr (mft_workflow m)))"

definition cli_run_workflow :: "('p, 'z) cli_world \<Rightarrow> workflow_file \<Rightarrow> (io_error + int) \<times> reporter option" where
  "cli_run_workflow cl f =
     (case cli_load cl (wf_path f) of
        Inl e \<Rightarrow> (Inl e, None)
      | Inr w \<Rightarrow>
          run_reported cl (WorkflowTarget (wf_path f) w) (wf_render f) (LogArgs_settings (wf_log f))
            (run_workflow (cl_arrivals cl) w (reporter_event (cl_shell cl))))"

definition cli_run_request ::
    "('p, 'z) cli_world \<Rightarrow> string \<Rightarrow> execution_request \<Rightarrow> sandbox_args \<Rightarrow> log_args
     \<Rightarrow> (io_error + int) \<times> reporter option" where
  "cli_run_request cl name req sandbox log =
     (case SandboxArgs_policy sandbox of
        Inl e \<Rightarrow> (Inl e, None)
      | Inr policy \<Rightarrow>
          run_reported cl (RequestTarget name) RenderOptions_default (LogArgs_settings log)
            (run_request_in (cl_arrivals cl) req policy (reporter_event (cl_shell cl))))"

definition harness_request :: "headless_harness \<Rightarrow> harness_run \<Rightarrow> execution_request" where
  "harness_request harness r =
     HarnessExecution (HarnessCall_options \<lparr>ho_model = hr_model r, ho_effort = hr_effort r\<rparr>
       (HarnessCall_new harness (hr_prompt r)))"

definition run_harness ::
    "('p, 'z) cli_world \<Rightarrow> headless_harness \<Rightarrow> harness_run \<Rightarrow> (io_error + int) \<times> reporter option" where
  "run_harness cl harness r =
     cli_run_request cl (HeadlessHarness_name harness) (harness_request harness r) (hr_sandbox r) (hr_log r)"

definition cli_run_command :: "('p, 'z) cli_world \<Rightarrow> direct_process \<Rightarrow> (io_error + int) \<times> reporter option" where
  "cli_run_command cl p =
     cli_run_request cl ''command'' (CommandExecution \<lparr>pc_program = pr_program p, pc_arguments = pr_arguments p\<rparr>)
       (pr_sandbox p) (pr_log p)"

fun cli_run :: "('p, 'z) cli_world \<Rightarrow> run_command \<Rightarrow> (io_error + int) \<times> reporter option" where
  "cli_run cl (WorkflowCommand f) = cli_run_workflow cl f"
| "cli_run cl (PiCommand r) = run_harness cl Pi r"
| "cli_run cl (OmpCommand r) = run_harness cl Omp r"
| "cli_run cl (ClaudeCommand r) = run_harness cl Claude r"
| "cli_run cl (CodexCommand r) = run_harness cl Codex r"
| "cli_run cl (ProcessCommand p) = cli_run_command cl p"

subsection \<open>The table of the jobs\<close>

definition HEADINGS :: "string list" where
  "HEADINGS = [''JOB'', ''CONDITION'', ''SCHEDULE'', ''NEXT FIRE'', ''LAST RUN'']"

definition or_dash :: "string option \<Rightarrow> string" where
  "or_dash v = (case v of Some s \<Rightarrow> s | None \<Rightarrow> ''-'')"

definition last_run :: "job_report \<Rightarrow> string" where
  "last_run job =
     (case jr_last_run job of
        None \<Rightarrow> or_dash None
      | Some directory \<Rightarrow>
          (case jr_last_status job of
             None \<Rightarrow> directory @ '' (unfinished)''
           | Some code \<Rightarrow> directory @ '' ('' @ status_text (Some code) @ '')''))"

definition table_row :: "job_report \<Rightarrow> string list" where
  "table_row job =
     [jr_id job, jr_condition job, or_dash (jr_schedule job), or_dash (jr_next_fire job), last_run job]"

definition widths :: "string list list \<Rightarrow> nat list" where
  "widths rows = fold (\<lambda>cells ws. map2 (\<lambda>w v. max w (length v)) ws cells) rows (map length HEADINGS)"

definition write_out :: "('p, 'z) cli_world \<Rightarrow> string \<Rightarrow> unit commanding" where
  "write_out cl s = (case sh_broken (cl_shell cl) Out of Some e \<Rightarrow> sfail e | None \<Rightarrow> print_out s)"

text \<open>One cell of a row of \<open>n\<close> cells, as it is written.\<close>

definition cell_text :: "nat \<Rightarrow> nat \<times> string \<times> nat \<Rightarrow> string" where
  "cell_text n = (\<lambda>(index, v, width). if index = n - 1 then v @ [newline] else pad_right width v @ ''  '')"

definition write_row :: "('p, 'z) cli_world \<Rightarrow> string list \<Rightarrow> nat list \<Rightarrow> unit commanding" where
  "write_row cl cells ws =
     sforeach (\<lambda>c. write_out cl (cell_text (length cells) c)) (enumerate 0 (zip cells ws))"

definition job_table :: "('p, 'z) cli_world \<Rightarrow> job_report list \<Rightarrow> unit commanding" where
  "job_table cl jobs =
     (if jobs = [] then print_out (''No manifest is watched. Add one with: beez schedule add <manifest>'' @ [newline])
      else
        let rows = map table_row jobs; ws = widths rows in
        sbind (write_row cl HEADINGS ws) (\<lambda>_.
          sforeach (\<lambda>(cells, job).
            sbind (write_row cl cells ws) (\<lambda>_.
              case jr_error job of
                Some e \<Rightarrow> write_out cl (''  '' @ e @ [newline])
              | None \<Rightarrow> sreturn ())) (zip rows jobs)))"

definition schedule_status :: "('p, 'z) cli_world \<Rightarrow> daemon_status \<Rightarrow> unit commanding" where
  "schedule_status cl s =
     (case s of
        RunningStatus (StatusResponse pid started running jobs) \<Rightarrow>
          sbind (print_out (''Daemon running, pid '' @ dec pid @ '', started '' @ started @ '', '' @ dec running
            @ '' running'' @ [newline])) (\<lambda>_. job_table cl jobs)
      | RunningStatus (Done message) \<Rightarrow> sfail (io_other message)
      | RunningStatus (Refused message) \<Rightarrow> sfail (io_other message)
      | StoppedStatus jobs \<Rightarrow> sbind (print_out (''Daemon not running'' @ [newline])) (\<lambda>_. job_table cl jobs))"

subsection \<open>Commands to the daemon\<close>

definition answer :: "response \<Rightarrow> int commanding" where
  "answer r =
     (case r of
        Done message \<Rightarrow> sbind (print_out (message @ [newline])) (\<lambda>_. sreturn 0)
      | Refused message \<Rightarrow> sbind (print_err (message @ [newline])) (\<lambda>_. sreturn 1)
      | StatusResponse pid started running jobs \<Rightarrow>
          sbind (print_err (''unexpected answer from the daemon'' @ [newline])) (\<lambda>_. sreturn 2))"

text \<open>A command of the client on the files of its root.\<close>

definition on_files :: "daemon_paths \<Rightarrow> (daemon_files \<Rightarrow> 'a command_result) \<Rightarrow> 'a commanding" where
  "on_files dp f = (\<lambda>st.
     case f (cs_files st (dp_root dp)) of
       (r, files) \<Rightarrow> (r, st\<lparr>cs_files := (cs_files st)(dp_root dp := files)\<rparr>))"

definition read_files :: "daemon_paths \<Rightarrow> (daemon_files \<Rightarrow> io_error + 'a) \<Rightarrow> 'a commanding" where
  "read_files dp f = (\<lambda>st. (f (cs_files st (dp_root dp)), st))"

definition send_request :: "('p, 'z) cli_world \<Rightarrow> root_args \<Rightarrow> request \<Rightarrow> int commanding" where
  "send_request cl a req =
     sbind (slift (RootArgs_paths cl a)) (\<lambda>dp. sbind (on_files dp (client_command (cl_client cl dp) req)) answer)"

definition report_jobs :: "('p, 'z) cli_world \<Rightarrow> root_args \<Rightarrow> int commanding" where
  "report_jobs cl a =
     sbind (slift (RootArgs_paths cl a)) (\<lambda>dp.
     sbind (read_files dp (client_status (cl_client cl dp) (cl_now cl))) (\<lambda>s.
     sbind (schedule_status cl s) (\<lambda>_. sreturn 0)))"

text \<open>A daemon that runs in this process gives its status once its loop is left.\<close>

fun cli_daemon :: "('p, 'z) cli_world \<Rightarrow> daemon_command \<Rightarrow> int commanding" where
  "cli_daemon cl (DaemonRunCommand a) =
     sbind (slift (RootArgs_paths cl (dr_root a))) (\<lambda>dp.
     sbind (read_files dp (daemon_run (cl_client cl dp) (cl_pid cl) (cl_turns cl) (cl_now cl) (cl_now cl) dp
       (dr_limit a) (dr_keep_runs a))) (\<lambda>_. sreturn 0))"
| "cli_daemon cl (DaemonStartCommand a) =
     sbind (slift (RootArgs_paths cl (dr_root a))) (\<lambda>dp.
     sbind (slift (start_daemon (cl_client cl dp) (cl_open_log cl) (cl_spawn cl) (cl_answers cl) dp)) answer)"
| "cli_daemon cl (DaemonStopCommand a) = send_request cl a Stop"
| "cli_daemon cl (DaemonStatusCommand a) = report_jobs cl a"
| "cli_daemon cl (DaemonReloadCommand a) = send_request cl a Reload"

fun cli_schedule :: "('p, 'z) cli_world \<Rightarrow> schedule_command \<Rightarrow> int commanding" where
  "cli_schedule cl (ScheduleAdd m a) =
     sbind (slift (RootArgs_paths cl a)) (\<lambda>dp. sbind (on_files dp (client_add (cl_client cl dp) m)) answer)"
| "cli_schedule cl (ScheduleRemove m a) = send_request cl a (Remove m)"
| "cli_schedule cl (ScheduleList a) = report_jobs cl a"
| "cli_schedule cl (ScheduleTrigger job a) = send_request cl a (Trigger job)"
| "cli_schedule cl (SchedulePause job a) = send_request cl a (Pause job)"
| "cli_schedule cl (ScheduleResume job a) = send_request cl a (Resume job)"

subsection \<open>The program\<close>

text \<open>
  The two helpers exist on Linux alone. A relay returns when its server has ended, so it always fails; an init
  that succeeds is replaced by its program.
\<close>

definition unsupported_sandbox_helper :: io_error where
  "unsupported_sandbox_helper = IoError ''Unsupported'' ''sandbox helper commands run only inside a Linux sandbox''"

definition run_relay :: "io_error + unit \<Rightarrow> io_error + unit" where
  "run_relay bound = and_then bound (\<lambda>_. Inl (io_other ''sandbox relay stopped accepting connections''))"

definition sandbox_relay :: "('p, 'z) cli_world \<Rightarrow> string \<Rightarrow> io_error + int" where
  "sandbox_relay cl address =
     (if cl_platform cl = Linux then and_then (run_relay (cl_bind cl address)) (\<lambda>_. Inr 0)
      else Inl unsupported_sandbox_helper)"

definition run_sandbox_init :: "('p, 'z) cli_world \<Rightarrow> sandbox_init_args \<Rightarrow> io_error + int" where
  "run_sandbox_init cl a =
     (if cl_platform cl = Linux then and_then (fst (cli_sandbox_init (cl_kernel cl) a [])) (\<lambda>_. Inr 0)
      else Inl unsupported_sandbox_helper)"

text \<open>A run writes through its reporter, whose bytes are those of the streams.\<close>

definition reported :: "(io_error + int) \<times> reporter option \<Rightarrow> int commanding" where
  "reported result = (\<lambda>st.
     (fst result,
      case snd result of
        None \<Rightarrow> st
      | Some r \<Rightarrow> st\<lparr>cs_out := cs_out st @ rt_out r, cs_err := cs_err st @ rt_err r\<rparr>))"

fun run_cli :: "('p, 'z) cli_world \<Rightarrow> cli \<Rightarrow> int commanding" where
  "run_cli cl (RunCli c) = reported (cli_run cl c)"
| "run_cli cl (DaemonCli c) = cli_daemon cl c"
| "run_cli cl (ScheduleCli c) = cli_schedule cl c"
| "run_cli cl (SandboxInitCli a) = slift (run_sandbox_init cl a)"
| "run_cli cl (SandboxRelayCli listen socket) = slift (sandbox_relay cl listen)"

text \<open>\<open>main\<close>: the exit status, and the state of the streams and files at the end.\<close>

definition main :: "('p, 'z) cli_world \<Rightarrow> cli \<Rightarrow> cli_state \<Rightarrow> int \<times> cli_state" where
  "main cl c st =
     (case run_cli cl c st of
        (Inr code, st) \<Rightarrow> (code, st)
      | (Inl e, st) \<Rightarrow> (2, st\<lparr>cs_err := cs_err st @ io_text e @ [newline]\<rparr>))"

subsection \<open>The status of a run\<close>

context observer begin

lemma request_seen:
  assumes "run_request_in arrivals req policy log_event [] = (r, log)"
  shows "run_request_in arrivals req policy on_event s = (r, fold noted log s)"
proof -
  have "seen_alike (run_request_in arrivals req policy log_event) (run_request_in arrivals req policy on_event)"
    unfolding run_request_in_def run_requests_concurrently_def Let_def
    by (intro seen_bind seen_event seen_receive) auto
  then show ?thesis using assms by (auto simp: seen_alike_def)
qed

end

text \<open>The run of a command on its own: no terminal, no log.\<close>

definition plain_request ::
    "('p, 'z) cli_world \<Rightarrow> execution_request \<Rightarrow> sandbox_args \<Rightarrow> io_error + int" where
  "plain_request cl req sandbox =
     and_then (SandboxArgs_policy sandbox) (\<lambda>policy. fst (run_request_in (cl_arrivals cl) req policy log_event []))"

fun plain_run :: "('p, 'z) cli_world \<Rightarrow> run_command \<Rightarrow> io_error + int" where
  "plain_run cl (WorkflowCommand f) =
     and_then (cli_load cl (wf_path f)) (\<lambda>w. fst (run_workflow (cl_arrivals cl) w log_event []))"
| "plain_run cl (PiCommand r) = plain_request cl (harness_request Pi r) (hr_sandbox r)"
| "plain_run cl (OmpCommand r) = plain_request cl (harness_request Omp r) (hr_sandbox r)"
| "plain_run cl (ClaudeCommand r) = plain_request cl (harness_request Claude r) (hr_sandbox r)"
| "plain_run cl (CodexCommand r) = plain_request cl (harness_request Codex r) (hr_sandbox r)"
| "plain_run cl (ProcessCommand p) =
     plain_request cl (CommandExecution \<lparr>pc_program = pr_program p, pc_arguments = pr_arguments p\<rparr>) (pr_sandbox p)"

text \<open>The two streams and the working directory are there.\<close>

definition works :: "('p, 'z) cli_world \<Rightarrow> bool" where
  "works cl \<longleftrightarrow> sh_broken (cl_shell cl) Out = None \<and> sh_broken (cl_shell cl) Err = None \<and> \<not> isl (cl_current_dir cl)"

lemma works_unbroken: "works cl \<Longrightarrow> unbroken (cl_shell cl) = cl_shell cl"
proof -
  assume "works cl"
  then have "sh_broken (cl_shell cl) = (\<lambda>_. None)"
    by (intro ext) (metis works_def out_target.exhaust)
  then show ?thesis by (simp add: unbroken_def)
qed

lemma works_finish:
  assumes "works cl"
  shows "\<exists>r'. reporter_finish (cl_shell cl) code r = (Inr (), r')"
proof -
  have "fst (reporter_finish (unbroken (cl_shell cl)) code r) = Inr ()"
    by (simp add: reporter_finish_def show_status_def Let_def)
  then show ?thesis
    unfolding works_unbroken [OF assms] by (cases "reporter_finish (cl_shell cl) code r") auto
qed

lemma run_reported_status:
  assumes "works cl" and "\<And>r. fst (run r) = result"
  shows "fst (run_reported cl task_source opts settings run) = result"
proof -
  obtain wd where wd: "cl_current_dir cl = Inr wd"
    using assms(1) by (cases "cl_current_dir cl") (auto simp: works_def)
  define r0 where "r0 = Reporter_new (cl_shell cl) (cl_display cl) task_source opts settings
    (\<lambda>directory. RunLog_create (sh_formats (cl_shell cl)) (cl_log_files cl) (sh_clock (cl_shell cl) 0) (cl_pid cl)
       (cl_arguments cl) directory task_source wd)"
  obtain r1 where r1: "run r0 = (result, r1)" using assms(2) [of r0] by (cases "run r0") auto
  obtain r2 where
    "reporter_finish (cl_shell cl) (case result of Inr c \<Rightarrow> Some c | Inl _ \<Rightarrow> None) r1 = (Inr (), r2)"
    using works_finish [OF assms(1)] by blast
  then show ?thesis by (simp add: run_reported_def wd Let_def r0_def [symmetric] r1)
qed

lemma cli_run_workflow_status:
  assumes "works cl"
  shows "fst (cli_run_workflow cl f) = plain_run cl (WorkflowCommand f)"
proof (cases "cli_load cl (wf_path f)")
  case (Inr w)
  obtain result log where plain: "run_workflow (cl_arrivals cl) w log_event [] = (result, log)"
    by (cases "run_workflow (cl_arrivals cl) w log_event []")
  have "fst (run_workflow (cl_arrivals cl) w (reporter_event (cl_shell cl)) r) = result" for r
    using shown.run_seen [OF plain, of "cl_shell cl" r] by (simp add: works_unbroken [OF assms])
  from run_reported_status [OF assms this] show ?thesis by (simp add: cli_run_workflow_def Inr plain)
qed (simp add: cli_run_workflow_def)

lemma cli_run_request_status:
  assumes "works cl"
  shows "fst (cli_run_request cl name req sandbox log) = plain_request cl req sandbox"
proof (cases "SandboxArgs_policy sandbox")
  case (Inr policy)
  obtain result events where plain: "run_request_in (cl_arrivals cl) req policy log_event [] = (result, events)"
    by (cases "run_request_in (cl_arrivals cl) req policy log_event []")
  have "fst (run_request_in (cl_arrivals cl) req policy (reporter_event (cl_shell cl)) r) = result" for r
    using shown.request_seen [OF plain, of "cl_shell cl" r] by (simp add: works_unbroken [OF assms])
  from run_reported_status [OF assms this] show ?thesis
    by (simp add: cli_run_request_def plain_request_def Inr plain)
qed (simp add: cli_run_request_def plain_request_def)

lemma cli_run_status: "works cl \<Longrightarrow> fst (cli_run cl c) = plain_run cl c"
  by (cases c) (simp_all add: cli_run_workflow_status cli_run_request_status run_harness_def cli_run_command_def
      del: plain_run.simps(1))

lemma main_run: "works cl \<Longrightarrow> fst (main cl (RunCli c) st) = (case plain_run cl c of Inr code \<Rightarrow> code | Inl e \<Rightarrow> 2)"
  using cli_run_status [of cl c] by (simp add: main_def reported_def split: sum.split)

lemma main_run_error:
  assumes "works cl" and "plain_run cl c = Inl e"
  shows "suffix (io_text e @ [newline]) (cs_err (snd (main cl (RunCli c) st)))"
  using assms cli_run_status [of cl c] by (simp add: main_def reported_def suffix_def split: option.split)

text \<open>C38. The command line and the daemon agree on a workflow: for the same manifest and the same processes,
  \<open>beez run workflow\<close> exits with the status that a run of the daemon records, whatever the terminal, the
  log and the options are, and when there is none it exits with 2 and its last line is the error of that run.\<close>

theorem command_agrees_with_daemon:
  assumes "works cl"
    and "execute fm lf clock (cl_arrivals cl) pid arguments elapsed (cl_outside cl) run = (outcome, p)"
    and "run_manifest run = wf_path f"
  shows "case main cl (RunCli (WorkflowCommand f)) st of (code, st') \<Rightarrow>
    (case ro_status outcome of
       Some c \<Rightarrow> code = c
     | None \<Rightarrow> code = 2 \<and> (\<exists>e. ro_error outcome = Some e \<and> suffix (e @ [newline]) (cs_err st')))"
proof -
  let ?c = "WorkflowCommand f"
  have code: "fst (main cl (RunCli ?c) st) = (case plain_run cl ?c of Inr code \<Rightarrow> code | Inl e \<Rightarrow> 2)"
    by (rule main_run [OF assms(1)])
  note daemon = execute_result [OF assms(2), unfolded assms(3)]
  have "(case ro_status outcome of Some c \<Rightarrow> plain_run cl ?c = Inr c
    | None \<Rightarrow> \<exists>e. plain_run cl ?c = Inl e \<and> ro_error outcome = Some (io_text e))"
    using daemon
    by (auto simp: cli_load_def run_failure_def split: sum.splits prod.splits option.splits)
  then show ?thesis
    using code main_run_error [OF assms(1), of ?c _ st]
    by (cases "main cl (RunCli ?c) st") (auto split: option.splits)
qed

text \<open>A world without a daemon, where every process succeeds.\<close>

definition demo_cli :: "(string, unit) cli_world" where
  "demo_cli =
     \<lparr>cl_platform = Linux, cl_outside = demo_outside, cl_home = Some ''/h'', cl_temp_dir = ''/tmp'',
      cl_current_dir = Inr ''/'', cl_shell = demo_shell, cl_display = (\<lambda>d. d), cl_log_files = demo_files,
      cl_pid = 7, cl_arguments = [], cl_arrivals = all_succeed, cl_now = 0,
      cl_client = (\<lambda>dp. client_world.extend demo_client
        (start_world.fields (Inr ()) (Inr ()) (Inr ()) (Inr ()) (Inr ()))),
      cl_turns = [], cl_open_log = Inr (), cl_spawn = Inr 8, cl_answers = (\<lambda>_. True),
      cl_kernel = \<lparr>k_spawn = (\<lambda>_ _. None), k_connects = (\<lambda>_ _. True), k_late = (\<lambda>_ _. 0),
        k_landlock = demo_landlock, k_exec = (\<lambda>_ _. None)\<rparr>,
      cl_bind = (\<lambda>_. Inr ())\<rparr>"

definition demo_file :: workflow_file where
  "demo_file = \<lparr>wf_path = ''/f.yaml'', wf_render = RenderOptions_default,
     wf_log = \<lparr>la_log_dir = None, la_no_log = True\<rparr>\<rparr>"

definition demo_start :: cli_state where
  "demo_start = \<lparr>cs_out = [], cs_err = [], cs_files = (\<lambda>_. \<lparr>df_registry = Inr Registry_default, df_states = Inr States_default\<rparr>)\<rparr>"

theorem command_agrees_with_daemon_witness:
  "fst (main demo_cli (RunCli (WorkflowCommand demo_file)) demo_start) = 0"
proof -
  obtain outcome p where run:
    "execute demo_formats demo_files (\<lambda>_. 0) all_succeed 7 [] 0 demo_outside demo_job_run = (outcome, p)"
    by (cases "execute demo_formats demo_files (\<lambda>_. 0) all_succeed 7 [] 0 demo_outside demo_job_run")
  then have "ro_status outcome = Some 0"
    using execute_result [OF run] demo_execute_run by (auto split: prod.splits)
  moreover have "works demo_cli" by (simp add: works_def demo_cli_def demo_shell_def)
  note command_agrees_with_daemon [OF this, of demo_formats demo_files "\<lambda>_. 0" 7 "[]" 0 demo_job_run outcome p
      demo_file demo_start]
  ultimately show ?thesis using run
    by (auto simp: demo_cli_def demo_job_run_def demo_file_def split: prod.splits)
qed

end
