(* ===== verification/Cli_Daemon.thy ===== *)
theory Cli_Daemon
  imports Cli
begin

text \<open>
  The program on both ends of the socket: a command line of \<open>beez-cli/src/schedule.rs\<close> whose client
  (\<open>beez-daemon/src/client.rs\<close>) writes one line, which the listener of \<open>daemon.rs\<close> reads and a handler
  answers, down to the exit status and the text the person sees.
\<close>

subsection \<open>What a command line asks\<close>

text \<open>The root and the request of a command that goes to a daemon as one message.\<close>

fun asks :: "('p, 'z) cli_world \<Rightarrow> cli \<Rightarrow> daemon_paths \<Rightarrow> (root_args \<times> request) option" where
  "asks cl (DaemonCli (DaemonStopCommand a)) dp = Some (a, Stop)"
| "asks cl (DaemonCli (DaemonReloadCommand a)) dp = Some (a, Reload)"
| "asks cl (ScheduleCli (ScheduleAdd m a)) dp =
     (case cw_canonicalize (cl_client cl dp) m of
        Inl e \<Rightarrow> None
      | Inr path \<Rightarrow>
          (case parent path of
             None \<Rightarrow> None
           | Some working_directory \<Rightarrow> Some (a, Add path working_directory)))"
| "asks cl (ScheduleCli (ScheduleRemove m a)) dp = Some (a, Remove m)"
| "asks cl (ScheduleCli (ScheduleTrigger job a)) dp = Some (a, Trigger job)"
| "asks cl (ScheduleCli (SchedulePause job a)) dp = Some (a, Pause job)"
| "asks cl (ScheduleCli (ScheduleResume job a)) dp = Some (a, Resume job)"
| "asks cl _ dp = None"

text \<open>What the person sees of an answer.\<close>

definition shows_answer :: "response \<Rightarrow> cli_state \<Rightarrow> int \<times> cli_state" where
  "shows_answer r st =
     (case r of
        Done message \<Rightarrow> (0, st\<lparr>cs_out := cs_out st @ message @ [newline]\<rparr>)
      | Refused message \<Rightarrow> (1, st\<lparr>cs_err := cs_err st @ message @ [newline]\<rparr>)
      | StatusResponse pid started running jobs \<Rightarrow>
          (2, st\<lparr>cs_err := cs_err st @ ''unexpected answer from the daemon'' @ [newline]\<rparr>))"

lemma answer_shown: "answer r st = (Inr (fst (shows_answer r st)), snd (shows_answer r st))"
  by (cases r) (simp_all add: answer_def shows_answer_def print_out_def print_err_def sbind_def sreturn_def)

lemma on_files_sent:
  assumes "\<And>files. f files = (r, files)"
  shows "on_files dp f st = (r, st)"
  by (simp add: on_files_def assms)

lemma client_command_sent: "cw_running cw \<Longrightarrow> client_command cw req files = (cw_send cw req, files)"
  by (simp add: client_command_def)

lemma send_request_running:
  assumes "RootArgs_paths cl a = Inr dp" and "cw_running (cl_client cl dp)"
    and "cw_send (cl_client cl dp) req = Inr r"
  shows "send_request cl a req st = (Inr (fst (shows_answer r st)), snd (shows_answer r st))"
  using assms
  by (simp add: send_request_def sbind_def slift_def on_files_sent [OF client_command_sent] answer_shown)

lemma asked_shown:
  assumes "asks cl c dp = Some (a, req)" and "RootArgs_paths cl a = Inr dp" and "cw_running (cl_client cl dp)"
    and "cw_send (cl_client cl dp) req = Inr r"
  shows "main cl c st = shows_answer r st"
  using assms(1)
proof (cases rule: asks.cases [of "(cl, c, dp)"])
  case (3 cl' m a' dp')
  then have "client_add (cl_client cl dp) m files = (Inr r, files)" for files
    using assms by (auto simp: client_add_def split: sum.splits option.splits)
  from on_files_sent [OF this] show ?thesis using 3 assms
    by (auto simp: main_def sbind_def slift_def answer_shown split: sum.splits option.splits)
qed (use assms in \<open>simp_all add: main_def send_request_running\<close>)

subsection \<open>The daemon behind the socket\<close>

text \<open>
  A daemon in state \<open>d\<close> listens on the socket of the root, and both ends write the JSON of the two pairs of
  functions.
\<close>

definition behind ::
    "(request \<Rightarrow> string + string) \<times> (string \<Rightarrow> string + request)
     \<Rightarrow> (response \<Rightarrow> string + string) \<times> (string \<Rightarrow> string + response)
     \<Rightarrow> (request \<Rightarrow> response) \<Rightarrow> ('p, 'z, 'm) client_world_scheme \<Rightarrow> bool" where
  "behind requests responses answers cw \<longleftrightarrow>
     cw_running cw \<and>
     cw_send cw = control_send (fst requests) (snd responses) (Inr ()) None
       (daemon_reply (snd requests) (fst responses) answers)"

lemma command_line_reaches:
  assumes "asks cl c dp = Some (a, req)" and "RootArgs_paths cl a = Inr dp"
    and "behind requests responses (\<lambda>req. snd (command out pid req now d)) (cl_client cl dp)"
    and "encodes (fst requests) (snd requests) req"
    and "encodes (fst responses) (snd responses) (snd (command out pid req now d))"
  shows "main cl c st = shows_answer (snd (command out pid req now d)) st"
proof -
  have "cw_send (cl_client cl dp) req = Inr (snd (command out pid req now d))"
    using assms(3) command_reaches_daemon
        [OF assms(4), of "fst responses" "snd responses" "\<lambda>req. snd (command out pid req now d)"] assms(5)
    by (simp add: behind_def)
  then show ?thesis using asked_shown [OF assms(1,2)] assms(3) by (simp add: behind_def)
qed

text \<open>C19. A command line reaches the daemon and its answer comes back: with a daemon behind the socket, \<open>beez
  schedule\<close> and \<open>beez daemon\<close> send one line that the listener turns into exactly the request that was
  asked, the program exits with 0 and the daemon's message on its output when the handler took the command,
  with 1 and the message on its error stream when it refused, and changes nothing else.\<close>

theorem command_line_reaches_daemon:
  assumes "asks cl c dp = Some (a, req)" and "RootArgs_paths cl a = Inr dp"
    and "behind requests responses (\<lambda>req. snd (command out pid req now d)) (cl_client cl dp)"
    and "encodes (fst requests) (snd requests) req"
    and "encodes (fst responses) (snd responses) (snd (command out pid req now d))"
  shows "main cl c st = shows_answer (snd (command out pid req now d)) st \<and>
    (\<exists>sent. write_line (fst requests) None req [] = (Inr (), sent) \<and>
       listen_one (snd requests) (fst responses) None (Inr sent) = (Some (Command req), []))"
proof
  show "main cl c st = shows_answer (snd (command out pid req now d)) st" by (rule command_line_reaches [OF assms])
  obtain sent where "write_line (fst requests) None req [] = (Inr (), sent)"
    "read_line (snd requests) ''no command arrived'' (Inr sent) = Inr req"
    using encodes_read [OF assms(4)] by blast
  then show "\<exists>sent. write_line (fst requests) None req [] = (Inr (), sent) \<and>
       listen_one (snd requests) (fst responses) None (Inr sent) = (Some (Command req), [])"
    by (auto simp: listen_one_def)
qed

text \<open>A daemon on the default root with the job \<open>f\<close>, and the JSON of one request and its answer.\<close>

definition demo_pause_json :: "(request \<Rightarrow> string + string) \<times> (string \<Rightarrow> string + request)" where
  "demo_pause_json =
     (\<lambda>r. case r of
        Pause job \<Rightarrow> Inr (''{\"command\":\"pause\",\"job\":\"'' @ job @ ''\"}'')
      | _ \<Rightarrow> Inl ''not modelled here'',
      \<lambda>line. if line = ''{\"command\":\"pause\",\"job\":\"f\"}'' @ [newline] then Inr (Pause ''f'')
        else Inl ''expected value'')"

definition demo_done_json :: "(response \<Rightarrow> string + string) \<times> (string \<Rightarrow> string + response)" where
  "demo_done_json =
     (\<lambda>r. case r of
        Done message \<Rightarrow> Inr (''{\"result\":\"done\",\"message\":\"'' @ message @ ''\"}'')
      | _ \<Rightarrow> Inl ''not modelled here'',
      \<lambda>line. if line = ''{\"result\":\"done\",\"message\":\"paused f\"}'' @ [newline] then Inr (Done ''paused f'')
        else Inl ''expected value'')"

definition demo_home :: daemon_paths where
  "demo_home = DaemonPaths_new ''/tmp'' (path_join ''/h'' ''.beez'')"

definition demo_outer :: "(string, unit) start_world" where
  "demo_outer = cl_client demo_cli demo_home"

definition demo_served :: "(string, unit) cli_world" where
  "demo_served = demo_cli\<lparr>cl_client := (\<lambda>dp. (cl_client demo_cli dp)\<lparr>cw_running := True,
     cw_send := control_send (fst demo_pause_json) (snd demo_done_json) (Inr ()) None
       (daemon_reply (snd demo_pause_json) (fst demo_done_json)
          (\<lambda>req. snd (command demo_outer 7 req 0 demo_opened)))\<rparr>)\<rparr>"

lemma demo_served_paths:
  "RootArgs_paths demo_served None = Inr demo_home" "RootArgs_paths demo_cli None = Inr demo_home"
  by (simp_all add: RootArgs_paths_def demo_served_def demo_cli_def DaemonPaths_user_def demo_home_def)

lemma demo_behind:
  "behind demo_pause_json demo_done_json (\<lambda>req. snd (command demo_outer 7 req 0 demo_opened))
     (cl_client demo_served dp)"
  by (simp add: behind_def demo_served_def)

lemma demo_pause_answer: "snd (command demo_outer 7 (Pause ''f'') 0 demo_opened) = Done ''paused f''"
  by (simp add: command_def hold_def find_job_def demo_opened_def demo_job_def held_def Let_def)

lemma demo_encodes:
  "encodes (fst demo_pause_json) (snd demo_pause_json) (Pause ''f'')"
  "encodes (fst demo_done_json) (snd demo_done_json) (Done ''paused f'')"
  by (simp_all add: encodes_def demo_pause_json_def demo_done_json_def) (code_simp+)

theorem command_line_reaches_daemon_witness:
  "main demo_served (ScheduleCli (SchedulePause ''f'' None)) demo_start =
     (0, demo_start\<lparr>cs_out := ''paused f'' @ [newline]\<rparr>)"
proof -
  have "asks demo_served (ScheduleCli (SchedulePause ''f'' None)) demo_home = Some (None, Pause ''f'')" by simp
  note command_line_reaches_daemon [OF this demo_served_paths(1) demo_behind demo_encodes(1)]
  then show ?thesis
    using demo_encodes(2) by (simp add: demo_pause_answer shows_answer_def demo_start_def)
qed

subsection \<open>The lines of a daemon\<close>

text \<open>
  \<open>line\<close> of \<open>beez-daemon/src/report.rs\<close>: what a daemon wrote on its standard error, where \<open>clock n\<close> is the
  time its line number \<open>n\<close> was written at.
\<close>

definition daemon_line :: "formats \<Rightarrow> instant \<Rightarrow> string \<Rightarrow> string \<Rightarrow> string" where
  "daemon_line fm time verb message = stamped_status_line fm time verb message @ [newline]"

definition daemon_stderr :: "formats \<Rightarrow> (nat \<Rightarrow> instant) \<Rightarrow> 'p daemon \<Rightarrow> string" where
  "daemon_stderr fm clock d =
     concat (map (\<lambda>(n, verb, message). daemon_line fm (clock n) verb message) (enumerate 0 (d_log d)))"

lemma daemon_stderr_report:
  "daemon_stderr fm clock (report verb message d) =
     daemon_stderr fm clock d @ daemon_line fm (clock (length (d_log d))) verb message"
  by (simp add: daemon_stderr_def Daemon.report_def enumerate_append_eq)

subsection \<open>With a daemon and without\<close>


definition demo_watching :: cli_state where
  "demo_watching = demo_start\<lparr>cs_files :=
     (\<lambda>_. \<lparr>df_registry = Inr Client.demo_registry, df_states = Inr States_default\<rparr>)\<rparr>"

lemma demo_outer_fields:
  "\<not> cw_running demo_outer" "cw_create demo_outer = Inr ()" "o_save_states demo_outer = Inr ()"
  by (simp_all add: demo_outer_def demo_cli_def demo_client_def client_world.defs start_world.defs outside.defs
      demo_outside_def)

lemma demo_watching_opened: "opened_on demo_outer (cs_files demo_watching (dp_root demo_home)) demo_opened"
proof -
  have "jobs_of demo_outer w s = jobs_of demo_client w s" for w s
    by (simp add: jobs_of_def load_manifest_def demo_outer_def demo_cli_def client_world.defs start_world.defs)
  then show ?thesis using demo_opened_on
    by (simp add: opened_on_def build_def demo_watching_def)
qed


end
