(* ===== verification/Http.thy ===== *)
theory Http
  imports Proxy
begin

text \<open>
  \<open>beez-sandbox/src/proxy/http.rs\<close>: the HTTP proxy. A client is the list of what its reads give, each an
  error or some bytes, where no bytes mean that it closed. What follows the request head stays with the
  client and is piped.
\<close>

definition CRLF :: string where "CRLF = [CHR 0x0D, CHR 0x0A]"

definition HEAD_LIMIT :: nat where "HEAD_LIMIT = 64 * 1024"

definition connection_closed :: io_error where
  "connection_closed = IoError ''UnexpectedEof'' ''connection closed before the request head ended''"

fun read_head :: "string \<Rightarrow> (io_error + string) list \<Rightarrow> io_error + string \<times> string" where
  "read_head buffer [] = Inl connection_closed"
| "read_head buffer (Inl e # reads) = Inl e"
| "read_head buffer (Inr chunk # reads) =
     (if chunk = [] then Inl connection_closed
      else let buffer = buffer @ chunk in
        case find_sub (CRLF @ CRLF) buffer of
          Some end_ \<Rightarrow> Inr (take (end_ + 4) buffer, drop (end_ + 4) buffer)
        | None \<Rightarrow>
            if HEAD_LIMIT < length buffer then Inl (IoError ''InvalidData'' ''request head is too large'')
            else read_head buffer reads)"

definition parse_port :: "string \<Rightarrow> nat option" where
  "parse_port s = parse_unsigned 65535 s"

definition split_authority :: "string \<Rightarrow> nat \<Rightarrow> (string \<times> nat) option" where
  "split_authority authority default_port =
     (let authority = (case rsplit_once CHR ''@'' authority of None \<Rightarrow> authority | Some (_, rest) \<Rightarrow> rest) in
      case strip_prefix ''['' authority of
        Some rest \<Rightarrow>
          (case split_once CHR '']'' rest of
             None \<Rightarrow> None
           | Some (host, port) \<Rightarrow>
               (case strip_prefix '':'' port of
                  Some port \<Rightarrow> map_option (Pair host) (parse_port port)
                | None \<Rightarrow> Some (host, default_port)))
      | None \<Rightarrow>
          (case rsplit_once CHR '':'' authority of
             Some (host, port) \<Rightarrow> map_option (Pair host) (parse_port port)
           | None \<Rightarrow> Some (authority, default_port)))"

text \<open>\<open>split\<close> at a line end.\<close>

fun split_lines :: "string \<Rightarrow> string list" where
  "split_lines [] = [[]]"
| "split_lines [c] = [[c]]"
| "split_lines (c # d # s) =
     (if [c, d] = CRLF then [] # split_lines s
      else (case split_lines (d # s) of l # ls \<Rightarrow> (c # l) # ls | [] \<Rightarrow> [[c]]))"

definition is_hop_header :: "string \<Rightarrow> bool" where
  "is_hop_header line =
     (let name = trim (hd (split_at_char CHR '':'' line))
      in eq_ignore_ascii_case name ''connection'' \<or> eq_ignore_ascii_case name ''proxy-connection'')"

definition rewrite_head :: "string \<Rightarrow> string" where
  "rewrite_head head =
     (let ls = split_lines head in
      hd ls @ CRLF
      @ concat (map (\<lambda>line. line @ CRLF) (filter (\<lambda>line. line \<noteq> [] \<and> \<not> is_hop_header line) (tl ls)))
      @ ''Connection: close'' @ CRLF @ CRLF)"

record http_request =
  hr_host :: string
  hr_port :: nat
  hr_forward :: "string option"

definition parse_http_request :: "string \<Rightarrow> http_request option" where
  "parse_http_request head =
     (if \<not> valid_utf8 head then None
      else case split_at_char CHR '' '' (hd (split_lines head)) of
        http_method # req_target # _ \<Rightarrow>
          if eq_ignore_ascii_case http_method ''CONNECT'' then
            map_option (\<lambda>(host, port). \<lparr>hr_host = host, hr_port = port, hr_forward = None\<rparr>)
              (split_authority req_target 443)
          else
            (case option_or (strip_prefix ''http://'' req_target) (strip_prefix ''HTTP://'' req_target) of
               None \<Rightarrow> None
             | Some rest \<Rightarrow>
                 map_option
                   (\<lambda>(host, port). \<lparr>hr_host = host, hr_port = port, hr_forward = Some (rewrite_head head)\<rparr>)
                   (split_authority (takeWhile (\<lambda>c. c \<notin> set ''/?#'') rest) 80))
      | _ \<Rightarrow> None)"

definition respond :: "network \<Rightarrow> string \<Rightarrow> unit serving" where
  "respond n answer =
     to_client n (''HTTP/1.1 '' @ answer @ CRLF @ ''Content-Length: 0'' @ CRLF @ ''Connection: close'' @ CRLF @ CRLF)"

definition serve_http :: "network \<Rightarrow> rules \<Rightarrow> (io_error + string) list \<Rightarrow> unit serving" where
  "serve_http n rules reads =
     (case read_head [] reads of
        Inl e \<Rightarrow> sbind (attempt (respond n ''400 Bad Request'')) (\<lambda>_. sfail e)
      | Inr (head, early_body) \<Rightarrow>
          (case parse_http_request head of
             None \<Rightarrow> respond n ''400 Bad Request''
           | Some request \<Rightarrow>
               sbind (permits rules (hr_host request) (hr_port request)) (\<lambda>permitted.
                 if \<not> permitted then respond n ''403 Forbidden''
                 else
                   sbind (attempt (connect n rules (hr_host request) (hr_port request))) (\<lambda>r.
                     case r of
                       Inl e \<Rightarrow>
                         if io_kind e = ''PermissionDenied'' then respond n ''403 Forbidden''
                         else sbind (attempt (respond n ''502 Bad Gateway'')) (\<lambda>_. sfail e)
                     | Inr upstream \<Rightarrow>
                         sbind (case hr_forward request of
                                  Some head \<Rightarrow> to_upstream n head
                                | None \<Rightarrow> to_client n (''HTTP/1.1 200 Connection Established'' @ CRLF @ CRLF)) (\<lambda>_.
                         sbind (to_upstream n early_body) (\<lambda>_. pipe))))))"

subsection \<open>Safety\<close>

lemma safe_respond [intro!]: "safe rules n (respond n answer)"
  by (auto simp: respond_def)

lemma serve_http_safe: "safe rules n (serve_http n rules reads)"
  unfolding serve_http_def
  by (auto split: sum.split option.split prod.split intro!: safe_target safe_attempt)

subsection \<open>The request head\<close>

lemma find_sub_cut:
  assumes "find_sub p s = Some i" and "p \<noteq> []"
  shows "suffix p (take (i + length p) s)" and "find_sub p (butlast (take (i + length p) s)) = None"
proof -
  from find_sub_SomeD [OF assms(1)] have i: "i \<le> length s" "prefix p (drop i s)"
    and first: "\<forall>j<i. \<not> prefix p (drop j s)" by simp_all
  from i(2) obtain rest where "drop i s = p @ rest" by (auto simp: prefix_def)
  then have s: "s = take i s @ p @ rest" by (metis append_take_drop_id)
  have cut: "take (i + length p) s = take i s @ p"
    using i(1) by (subst s) simp
  show "suffix p (take (i + length p) s)" by (simp add: cut suffix_def)
  show "find_sub p (butlast (take (i + length p) s)) = None"
    unfolding find_sub_None_iff
  proof (intro allI impI notI)
    fix j assume "prefix p (drop j (butlast (take (i + length p) s)))"
    then have pre: "prefix p (drop j (take i s @ butlast p))" using assms(2) by (simp add: cut butlast_append)
    then have "length p \<le> length (drop j (take i s @ butlast p))" by (rule prefix_length_le)
    then have "length p \<le> i + (length p - 1) - j" using i(1) by simp
    moreover have "0 < length p" using assms(2) by simp
    ultimately have "j < i" by linarith
    moreover have "prefix (drop j (take i s @ butlast p)) (drop j s)"
    proof -
      have "s = (take i s @ butlast p) @ [last p] @ rest" using s append_butlast_last_id [OF assms(2)] by (metis append.assoc)
      then show ?thesis by (metis prefixI drop_append append_assoc)
    qed
    ultimately show False using first pre prefix_order.trans by blast
  qed
qed

text \<open>A request head ends with the first empty line of what the client sent, wherever the reads divide
  it, and what follows the head is kept.\<close>

theorem read_head_stops_at_first_empty_line:
  assumes "read_head [] reads = Inr (head, rest)"
  shows "\<exists>used unread. reads = map Inr used @ unread \<and> head @ rest = concat used
    \<and> suffix (CRLF @ CRLF) head \<and> find_sub (CRLF @ CRLF) (butlast head) = None"
proof -
  have "\<exists>used unread. reads = map Inr used @ unread \<and> head @ rest = buffer @ concat used
      \<and> suffix (CRLF @ CRLF) head \<and> find_sub (CRLF @ CRLF) (butlast head) = None"
    if "read_head buffer reads = Inr (head, rest)" for buffer
    using that
  proof (induction buffer reads rule: read_head.induct)
    case (3 buffer chunk reads)
    show ?case
    proof (cases "find_sub (CRLF @ CRLF) (buffer @ chunk)")
      case None
      with "3.prems" have "read_head (buffer @ chunk) reads = Inr (head, rest)" and "chunk \<noteq> []"
        and "\<not> HEAD_LIMIT < length (buffer @ chunk)"
        by (auto simp: Let_def split: if_splits)
      then obtain used unread where "reads = map Inr used @ unread"
        "head @ rest = (buffer @ chunk) @ concat used" "suffix (CRLF @ CRLF) head"
        "find_sub (CRLF @ CRLF) (butlast head) = None"
        using "3.IH" None by (metis Let_def)
      then show ?thesis by (intro exI [of _ "chunk # used"] exI [of _ unread]) simp
    next
      case (Some i)
      with "3.prems" have head: "head = take (i + 4) (buffer @ chunk)" "rest = drop (i + 4) (buffer @ chunk)"
        by (auto simp: Let_def split: if_splits)
      have "head @ rest = buffer @ chunk" by (simp add: head del: take_append drop_append)
      moreover have "suffix (CRLF @ CRLF) head \<and> find_sub (CRLF @ CRLF) (butlast head) = None"
      proof -
        have four: "length (CRLF @ CRLF) = 4" and "CRLF @ CRLF \<noteq> []" by (simp_all add: CRLF_def)
        then show ?thesis using find_sub_cut [OF Some, unfolded four] unfolding head by blast
      qed
      ultimately show ?thesis by (intro exI [of _ "[chunk]"] exI [of _ reads]) simp
    qed
  qed simp_all
  from this [OF assms] show ?thesis by simp
qed

theorem read_head_stops_at_first_empty_line_witness:
  "suffix (CRLF @ CRLF) (''GET /'' @ CRLF @ CRLF)"
proof -
  have "read_head [] [Inr ''GET /'', Inr (CRLF @ CRLF @ ''x'')] = Inr (''GET /'' @ CRLF @ CRLF, ''x'')"
    by (simp add: CRLF_def HEAD_LIMIT_def)
  from read_head_stops_at_first_empty_line [OF this] show ?thesis by blast
qed

subsection \<open>The forwarded head\<close>

lemma split_lines_not_Nil [simp]: "split_lines s \<noteq> []"
  by (cases s rule: split_lines.cases) (simp_all split: list.split)

text \<open>A line: splitting it gives it back.\<close>

definition one_line :: "string \<Rightarrow> bool" where
  "one_line l \<longleftrightarrow> split_lines l = [l]"

lemma split_lines_parts: "list_all one_line (split_lines s)"
proof (induction s rule: split_lines.induct)
  case (3 c d s)
  show ?case
  proof (cases "[c, d] = CRLF")
    case False
    obtain l ls where ls: "split_lines (d # s) = l # ls" by (cases "split_lines (d # s)") auto
    with 3(2) False have parts: "one_line l" "list_all one_line ls" by simp_all
    have "one_line (c # l)"
    proof (cases l)
      case (Cons e l')
      have "e = d" using ls Cons by (cases s) (auto split: if_splits list.splits)
      then show ?thesis using parts(1) False Cons by (simp add: one_line_def)
    qed (simp add: one_line_def)
    then show ?thesis using False ls parts(2) by simp
  qed (use 3 in \<open>simp add: one_line_def\<close>)
qed (simp_all add: one_line_def)

lemma split_lines_line:
  "one_line l \<Longrightarrow> split_lines (l @ CRLF @ s) = l # split_lines s"
proof (induction l rule: split_lines.induct)
  case (3 c d l)
  show ?case
  proof (cases "[c, d] = CRLF")
    case True
    then show ?thesis using "3.prems" by (simp add: one_line_def)
  next
    case False
    then have "one_line (d # l)" using "3.prems"
      by (cases "split_lines (d # l)") (auto simp: one_line_def)
    with 3(2) False have "split_lines (d # l @ CRLF @ s) = (d # l) # split_lines s" by simp
    then show ?thesis using False by simp
  qed
qed (simp_all add: CRLF_def)

lemma split_lines_lines:
  "list_all one_line ls \<Longrightarrow> split_lines (concat (map (\<lambda>l. l @ CRLF) ls) @ s) = ls @ split_lines s"
  by (induction ls) (simp_all add: split_lines_line)

text \<open>The head forwarded upstream is the request line, then every header of the request in order but
  those that manage the connection, then one header that closes it, and an empty line.\<close>

theorem forwarded_head_closes_connection:
  "split_lines (rewrite_head head) =
     hd (split_lines head)
     # filter (\<lambda>line. line \<noteq> [] \<and> \<not> is_hop_header line) (tl (split_lines head))
     @ [''Connection: close'', [], []]"
proof -
  let ?kept = "filter (\<lambda>line. line \<noteq> [] \<and> \<not> is_hop_header line) (tl (split_lines head))"
  have parts: "list_all one_line (split_lines head)" by (rule split_lines_parts)
  then have first: "one_line (hd (split_lines head))" by (cases "split_lines head") auto
  have kept: "list_all one_line ?kept"
    using parts by (cases "split_lines head") (auto simp: list_all_iff)
  have close: "split_lines (''Connection: close'' @ CRLF @ CRLF) = [''Connection: close'', [], []]"
    by code_simp
  show ?thesis
    unfolding rewrite_head_def Let_def split_lines_line [OF first] split_lines_lines [OF kept] close by simp
qed

end
