(* ===== verification/Socks.thy ===== *)
theory Socks
  imports Http
begin

text \<open>
  \<open>beez-sandbox/src/proxy/socks.rs\<close>: the SOCKS5 proxy. A client is the bytes it sends until it closes;
  each step takes its bytes from the front and gives the rest. Bytes after the request are piped.
\<close>

abbreviation byte_char :: "nat \<Rightarrow> char" where
  "byte_char n \<equiv> char_of n"

definition SOCKS_VERSION :: nat where "SOCKS_VERSION = 5"

definition SOCKS_NO_AUTH :: nat where "SOCKS_NO_AUTH = 0"

definition SOCKS_NO_ACCEPTABLE_AUTH :: nat where "SOCKS_NO_ACCEPTABLE_AUTH = 0xFF"

definition SOCKS_CONNECT :: nat where "SOCKS_CONNECT = 1"

definition SOCKS_ADDRESS_IPV4 :: nat where "SOCKS_ADDRESS_IPV4 = 1"

definition SOCKS_ADDRESS_DOMAIN :: nat where "SOCKS_ADDRESS_DOMAIN = 3"

definition SOCKS_ADDRESS_IPV6 :: nat where "SOCKS_ADDRESS_IPV6 = 4"

definition SOCKS_SUCCEEDED :: nat where "SOCKS_SUCCEEDED = 0"

definition SOCKS_GENERAL_FAILURE :: nat where "SOCKS_GENERAL_FAILURE = 1"

definition SOCKS_NOT_ALLOWED :: nat where "SOCKS_NOT_ALLOWED = 2"

definition SOCKS_HOST_UNREACHABLE :: nat where "SOCKS_HOST_UNREACHABLE = 4"

definition SOCKS_COMMAND_UNSUPPORTED :: nat where "SOCKS_COMMAND_UNSUPPORTED = 7"

definition SOCKS_ADDRESS_UNSUPPORTED :: nat where "SOCKS_ADDRESS_UNSUPPORTED = 8"

lemmas socks_codes =
  SOCKS_VERSION_def SOCKS_NO_AUTH_def SOCKS_NO_ACCEPTABLE_AUTH_def SOCKS_CONNECT_def
  SOCKS_ADDRESS_IPV4_def SOCKS_ADDRESS_DOMAIN_def SOCKS_ADDRESS_IPV6_def SOCKS_SUCCEEDED_def
  SOCKS_GENERAL_FAILURE_def SOCKS_NOT_ALLOWED_def SOCKS_HOST_UNREACHABLE_def
  SOCKS_COMMAND_UNSUPPORTED_def SOCKS_ADDRESS_UNSUPPORTED_def

definition read_exact :: "nat \<Rightarrow> string \<Rightarrow> io_error + string \<times> string" where
  "read_exact k input =
     (if length input < k then Inl (IoError ''UnexpectedEof'' ''failed to fill whole buffer'')
      else Inr (take k input, drop k input))"

definition socks_reply :: "network \<Rightarrow> nat \<Rightarrow> unit serving" where
  "socks_reply n answer =
     to_client n (map byte_char [SOCKS_VERSION, answer, 0, SOCKS_ADDRESS_IPV4, 0, 0, 0, 0, 0, 0])"

definition negotiate_auth :: "network \<Rightarrow> string \<Rightarrow> (bool \<times> string) serving" where
  "negotiate_auth n input =
     sbind (slift (read_exact 2 input)) (\<lambda>(head, input).
       if byte (head ! 0) \<noteq> SOCKS_VERSION then sfail (IoError ''InvalidData'' ''unsupported SOCKS version'')
       else
         sbind (slift (read_exact (byte (head ! 1)) input)) (\<lambda>(methods, input).
           if byte_char SOCKS_NO_AUTH \<notin> set methods then
             sbind (to_client n (map byte_char [SOCKS_VERSION, SOCKS_NO_ACCEPTABLE_AUTH])) (\<lambda>_.
               sreturn (False, input))
           else
             sbind (to_client n (map byte_char [SOCKS_VERSION, SOCKS_NO_AUTH])) (\<lambda>_.
               sreturn (True, input))))"

definition report_line :: "string \<Rightarrow> unit serving" where
  "report_line message = (\<lambda>st. (Inr (), st\<lparr>ex_lines := ex_lines st @ [message]\<rparr>))"

definition refuse :: "network \<Rightarrow> nat \<Rightarrow> ((string \<times> nat) option) serving" where
  "refuse n answer = sbind (socks_reply n answer) (\<lambda>_. sreturn None)"

definition read_target :: "network \<Rightarrow> string \<Rightarrow> ((string \<times> nat) option) serving" where
  "read_target n input =
     sbind (slift (read_exact 4 input)) (\<lambda>(head, input).
       let address_type = byte (head ! 3) in
       if byte (head ! 1) \<noteq> SOCKS_CONNECT then refuse n SOCKS_COMMAND_UNSUPPORTED
       else if address_type = SOCKS_ADDRESS_DOMAIN then
         sbind (slift (read_exact 1 input)) (\<lambda>(len, input).
         sbind (slift (read_exact (byte (len ! 0)) input)) (\<lambda>(name, input).
         sbind (slift (read_exact 2 input)) (\<lambda>(port, input).
           sreturn (Some (utf8_lossy name, 256 * byte (port ! 0) + byte (port ! 1))))))
       else if address_type = SOCKS_ADDRESS_IPV4 then
         sbind (slift (read_exact 6 input)) (\<lambda>_.
         sbind (report_line ''denied SOCKS connection to a literal IPv4 address'') (\<lambda>_.
           refuse n SOCKS_NOT_ALLOWED))
       else if address_type = SOCKS_ADDRESS_IPV6 then
         sbind (slift (read_exact 18 input)) (\<lambda>_.
         sbind (report_line ''denied SOCKS connection to a literal IPv6 address'') (\<lambda>_.
           refuse n SOCKS_NOT_ALLOWED))
       else refuse n SOCKS_ADDRESS_UNSUPPORTED)"

definition serve_target :: "network \<Rightarrow> rules \<Rightarrow> string \<Rightarrow> nat \<Rightarrow> unit serving" where
  "serve_target n rules host port =
     sbind (permits rules host port) (\<lambda>permitted.
       if \<not> permitted then socks_reply n SOCKS_NOT_ALLOWED
       else
         sbind (attempt (connect n rules host port)) (\<lambda>r.
           case r of
             Inl e \<Rightarrow>
               sbind (attempt (socks_reply n
                 (if io_kind e = ''NotFound'' then SOCKS_HOST_UNREACHABLE
                  else if io_kind e = ''PermissionDenied'' then SOCKS_NOT_ALLOWED
                  else SOCKS_GENERAL_FAILURE))) (\<lambda>_. sfail e)
           | Inr upstream \<Rightarrow> sbind (socks_reply n SOCKS_SUCCEEDED) (\<lambda>_. pipe)))"

definition serve_socks :: "network \<Rightarrow> rules \<Rightarrow> string \<Rightarrow> unit serving" where
  "serve_socks n rules input =
     sbind (negotiate_auth n input) (\<lambda>(agreed, input).
       if \<not> agreed then sreturn ()
       else sbind (read_target n input) (\<lambda>t.
         case t of None \<Rightarrow> sreturn () | Some (host, port) \<Rightarrow> serve_target n rules host port))"

subsection \<open>Safety of both proxies\<close>

lemma safe_socks_reply [intro!]: "safe rules n (socks_reply n answer)"
  by (auto simp: socks_reply_def)

lemma safe_report_line [intro!]: "safe rules n (report_line m)"
  by (simp add: safe_def report_line_def reaches_def)

lemma safe_refuse [intro!]: "safe rules n (refuse n answer)"
  by (auto simp: refuse_def)

lemma safe_negotiate_auth [intro!]: "safe rules n (negotiate_auth n input)"
  unfolding negotiate_auth_def split_def by (auto intro!: safe_bind)

lemma safe_read_target [intro!]: "safe rules n (read_target n input)"
  unfolding read_target_def split_def Let_def by (auto intro!: safe_bind)

lemma safe_serve_target [intro!]: "safe rules n (serve_target n rules host port)"
  unfolding serve_target_def by (rule safe_target) (auto intro!: safe_bind safe_attempt)

lemma serve_socks_safe: "safe rules n (serve_socks n rules input)"
  unfolding serve_socks_def split_def
  by (auto split: option.split intro!: safe_bind)

text \<open>C26. Whatever a client sends, a proxy tries to connect only to addresses of a host and port that a
  rule allows, never to a local one unless the policy opens localhost, and it forwards bytes to no other
  address.\<close>

theorem proxies_reach_only_allowed:
  assumes "ex_tried st = []" and "ex_upstream st = None"
    and "st' = snd (serve_http n rules reads st) \<or> st' = snd (serve_socks n rules input st)"
  shows "(a \<in> set (ex_tried st') \<longrightarrow> allowed_address rules n a)
    \<and> (ex_upstream st' = Some (a, sent) \<longrightarrow> allowed_address rules n a)"
proof -
  have "reaches rules n st" using assms(1,2) by (simp add: reaches_def)
  then have "reaches rules n st'"
    using assms(3) serve_http_safe serve_socks_safe unfolding safe_def by blast
  then show ?thesis by (cases a) (auto simp: reaches_def)
qed

subsection \<open>Reading a request\<close>

text \<open>What a client sends that asks for no authentication and then for a host.\<close>

definition socks_request :: "string \<Rightarrow> nat \<Rightarrow> string" where
  "socks_request host port =
     map byte_char [SOCKS_VERSION, 1, SOCKS_NO_AUTH, SOCKS_VERSION, SOCKS_CONNECT, 0, SOCKS_ADDRESS_DOMAIN,
       length host] @ host @ map byte_char [port div 256, port mod 256]"

lemma byte_char_mod: "byte (byte_char k) = k mod 256"
  by (simp add: byte_def)

lemma read_exact_append [simp]: "length xs = k \<Longrightarrow> read_exact k (xs @ ys) = Inr (xs, ys)"
  by (simp add: read_exact_def)

lemma read_exact_cons:
  "read_exact (Suc 0) (a # r) = Inr ([a], r)"
  "read_exact 2 (a # b # r) = Inr ([a, b], r)"
  "read_exact 4 (a # b # c # d # r) = Inr ([a, b, c, d], r)"
  by (simp_all add: read_exact_def numeral_2_eq_2 numeral_eq_Suc)

text \<open>A SOCKS request that names a host reaches the allowlist as that host and port: when no rule
  allows them, the client gets the greeting and a refusal, the target is reported, and nothing is
  connected.\<close>

theorem socks_refuses_unlisted_host:
  assumes "length host < 256" and "valid_utf8 host" and "port < 65536" and "n_client n = None"
    and "\<not> list_ex (\<lambda>rule. DomainRule_matches rule host port) (ru_domains rules)"
    and "host @ '':'' @ dec port \<notin> ex_reported st"
  shows "serve_socks n rules (socks_request host port) st =
    (Inr (), st\<lparr>ex_reported := insert (host @ '':'' @ dec port) (ex_reported st),
       ex_lines := ex_lines st @ [''denied connection to '' @ host @ '':'' @ dec port],
       ex_client := ex_client st @ map byte_char [5, 0, 5, 2, 0, 1, 0, 0, 0, 0, 0, 0]\<rparr>)"
proof -
  have port: "256 * (port div 256) + port mod 256 = port" "port div 256 < 256" using assms(3) by simp_all
  let ?greeted = "st\<lparr>ex_client := ex_client st @ map byte_char [5, 0]\<rparr>"
  let ?asked = "map byte_char [5, 1, 0, 3, length host] @ host @ map byte_char [port div 256, port mod 256]"
  have "negotiate_auth n (socks_request host port) st = (Inr (True, ?asked), ?greeted)"
    using assms(4)
    by (simp add: negotiate_auth_def socks_request_def sbind_def read_exact_cons socks_codes to_client_def)
  moreover have "read_target n ?asked ?greeted = (Inr (Some (host, port)), ?greeted)"
    using assms(1,2) port
    by (simp add: read_target_def sbind_def read_exact_cons socks_codes utf8_lossy_valid byte_char_mod)
  ultimately show ?thesis
    using assms(4,5,6)
    by (simp add: serve_socks_def serve_target_def sbind_def permits_def report_target_def socks_reply_def to_client_def socks_codes)
qed

definition demo_rules :: rules where
  "demo_rules = \<lparr>ru_domains = [\<lparr>dr_host = ''a.b'', dr_wildcard = False, dr_port = None\<rparr>], ru_localhost = False\<rparr>"

definition demo_network :: network where
  "demo_network =
     \<lparr>n_resolve = (\<lambda>host port. Inr [(V4 0x7f000001, port), (V4 0x01020304, port)]), n_reach = (\<lambda>_. None),
      n_ip_text = (\<lambda>_. ''ip''), n_client = None, n_upstream = None\<rparr>"

definition demo_exchange :: exchange where
  "demo_exchange =
     \<lparr>ex_reported = {}, ex_lines = [], ex_tried = [], ex_client = [], ex_upstream = None, ex_piped = False\<rparr>"

text \<open>The first address of the host is local, so the second is the one reached.\<close>

theorem proxies_reach_only_allowed_witness:
  "allowed_address demo_rules demo_network (V4 0x01020304, 80)"
proof -
  have "ex_tried (snd (serve_socks demo_network demo_rules (socks_request ''a.b'' 80) demo_exchange))
      = [(V4 0x01020304, 80)]" by code_simp
  then show ?thesis
    using proxies_reach_only_allowed [OF _ _ disjI2 [OF refl], where st = demo_exchange and n = demo_network
        and rules = demo_rules and input = "socks_request ''a.b'' 80" and a = "(V4 0x01020304, 80)"]
    by (simp add: demo_exchange_def)
qed

theorem socks_refuses_unlisted_host_witness:
  "serve_socks demo_network demo_rules (socks_request ''x.y'' 80) demo_exchange =
     (Inr (), demo_exchange\<lparr>ex_reported := {''x.y:80''}, ex_lines := [''denied connection to x.y:80''],
        ex_client := map byte_char [5, 0, 5, 2, 0, 1, 0, 0, 0, 0, 0, 0]\<rparr>)"
proof -
  have shown: "''x.y'' @ '':'' @ dec 80 = ''x.y:80''" by code_simp
  have "\<not> list_ex (\<lambda>rule. DomainRule_matches rule ''x.y'' 80) (ru_domains demo_rules)" by code_simp
  moreover have "valid_utf8 ''x.y''" by code_simp
  ultimately show ?thesis
    using socks_refuses_unlisted_host [of "''x.y''" 80 demo_network demo_rules demo_exchange, unfolded shown]
    by (simp add: demo_network_def demo_exchange_def flip: shown)
qed

end
