(* ===== verification/Denials.thy ===== *)
theory Denials
  imports Socks Report
begin

text \<open>
  What a person sees of a denied connection: the start of both proxies (\<open>Proxy::start\<close> of
  \<open>beez-sandbox/src/proxy.rs\<close>) with the rules they share, the hook of \<open>beez-sandbox/src/diagnostic.rs\<close>
  that carries their lines, and the sink that \<open>run_reported\<close> of \<open>beez-cli/src/main.rs\<close> installs there.
\<close>

subsection \<open>The hook\<close>

text \<open>
  The process-wide cell, the standard error it falls back to, and the state \<open>'s\<close> that a sink writes to.
\<close>

record 's diagnostics =
  dg_sink :: "(string \<Rightarrow> 's \<Rightarrow> 's) option"
  dg_state :: 's
  dg_stderr :: string

definition set_diagnostic_sink ::
    "(string \<Rightarrow> 's \<Rightarrow> 's) \<Rightarrow> 's diagnostics \<Rightarrow> bool \<times> 's diagnostics" where
  "set_diagnostic_sink sink p =
     (case dg_sink p of
        Some _ \<Rightarrow> (False, p)
      | None \<Rightarrow> (True, p\<lparr>dg_sink := Some sink\<rparr>))"

definition diagnostic :: "string \<Rightarrow> 's diagnostics \<Rightarrow> 's diagnostics" where
  "diagnostic message p =
     (case dg_sink p of
        Some sink \<Rightarrow> p\<lparr>dg_state := sink message (dg_state p)\<rparr>
      | None \<Rightarrow> p\<lparr>dg_stderr := dg_stderr p @ ''beez sandbox: '' @ message @ [newline]\<rparr>)"

subsection \<open>Both proxies\<close>

definition loopback_listener :: "io_error + unit \<Rightarrow> io_error + nat \<Rightarrow> io_error + nat" where
  "loopback_listener bound local_port = and_then bound (\<lambda>_. local_port)"

record proxy =
  px_rules :: rules
  px_http_port :: nat
  px_socks_port :: nat

text \<open>The two arguments at the end are what listening for each of the proxies gives.\<close>

definition Proxy_start ::
    "domain_rule list \<Rightarrow> bool \<Rightarrow> io_error + nat \<Rightarrow> io_error + nat \<Rightarrow> io_error + proxy" where
  "Proxy_start allowed localhost_allowed http socks =
     and_then http (\<lambda>http_port. and_then socks (\<lambda>socks_port.
       Inr \<lparr>px_rules = \<lparr>ru_domains = allowed, ru_localhost = localhost_allowed\<rparr>,
            px_http_port = http_port, px_socks_port = socks_port\<rparr>))"

datatype proxy_client = HttpClient "(io_error + string) list" | SocksClient string

text \<open>
  A handler serves one client on a connection of its own and drops its error. The targets reported before
  are shared, whichever proxy they were denied by.
\<close>

definition serve_client :: "network \<Rightarrow> proxy \<Rightarrow> proxy_client \<Rightarrow> exchange \<Rightarrow> exchange" where
  "serve_client n px c st =
     (let st = st\<lparr>ex_tried := [], ex_client := [], ex_upstream := None, ex_piped := False\<rparr> in
      snd (case c of
             HttpClient reads \<Rightarrow> serve_http n (px_rules px) reads st
           | SocksClient input \<Rightarrow> serve_socks n (px_rules px) input st))"

definition first_exchange :: exchange where
  "first_exchange =
     \<lparr>ex_reported = {}, ex_lines = [], ex_tried = [], ex_client = [], ex_upstream = None, ex_piped = False\<rparr>"

definition serve_clients :: "network \<Rightarrow> proxy \<Rightarrow> proxy_client list \<Rightarrow> exchange" where
  "serve_clients n px cs = fold (serve_client n px) cs first_exchange"

subsection \<open>One line for each denied target\<close>

definition denied :: "string \<Rightarrow> string" where
  "denied t = ''denied connection to '' @ t"

definition reports_once :: "exchange \<Rightarrow> bool" where
  "reports_once st \<longleftrightarrow> (\<forall>t. count_list (ex_lines st) (denied t) = (if t \<in> ex_reported st then 1 else 0))"

text \<open>\<open>keeps_denials a\<close>: an action keeps that, and forgets no target.\<close>

definition keeps_denials :: "'a serving \<Rightarrow> bool" where
  "keeps_denials a \<longleftrightarrow>
     (\<forall>st. reports_once st \<longrightarrow> reports_once (snd (a st)) \<and> ex_reported st \<subseteq> ex_reported (snd (a st)))"

lemma keepsI:
  "(\<And>st. reports_once st \<Longrightarrow> reports_once (snd (a st)) \<and> ex_reported st \<subseteq> ex_reported (snd (a st)))
   \<Longrightarrow> keeps_denials a"
  by (simp add: keeps_denials_def)

lemma keepsD:
  assumes "keeps_denials a" and "reports_once st"
  shows "reports_once (snd (a st))" and "ex_reported st \<subseteq> ex_reported (snd (a st))"
  using assms by (simp_all add: keeps_denials_def)

named_theorems denial_intros "actions that keep the denials"

lemma keeps_bind [denial_intros]:
  assumes "keeps_denials a" and "\<And>x. keeps_denials (f x)"
  shows "keeps_denials (sbind a f)"
proof (rule keepsI)
  fix st assume st: "reports_once st"
  obtain r st' where a: "a st = (r, st')" by fastforce
  then have st': "reports_once st'" "ex_reported st \<subseteq> ex_reported st'"
    using keepsD [OF assms(1) st] by simp_all
  show "reports_once (snd (sbind a f st)) \<and> ex_reported st \<subseteq> ex_reported (snd (sbind a f st))"
  proof (cases r)
    case (Inr x)
    then show ?thesis using keepsD [OF assms(2) st'(1), of x] st' a by (auto simp: sbind_def)
  qed (use st' a in \<open>simp add: sbind_def\<close>)
qed

lemma keeps_return [denial_intros]:
  "keeps_denials (sreturn x)" "keeps_denials (sfail e)" "keeps_denials (slift r)"
  by (simp_all add: keeps_denials_def sreturn_def sfail_def slift_def)

lemma keeps_attempt [denial_intros]: "keeps_denials a \<Longrightarrow> keeps_denials (attempt a)"
  by (rule keepsI) (simp add: attempt_def keepsD split_def)

lemma reports_once_same:
  "ex_lines st' = ex_lines st \<Longrightarrow> ex_reported st' = ex_reported st \<Longrightarrow> reports_once st' = reports_once st"
  by (simp add: reports_once_def)

lemma keeps_same:
  assumes "\<And>st. ex_lines (snd (a st)) = ex_lines st" and "\<And>st. ex_reported (snd (a st)) = ex_reported st"
  shows "keeps_denials a"
  by (rule keepsI) (simp add: assms reports_once_same [OF assms])

lemma keeps_writes [denial_intros]:
  "keeps_denials (to_client n bytes)" "keeps_denials (to_upstream n bytes)" "keeps_denials pipe"
  by (rule keeps_same; simp add: to_client_def to_upstream_def pipe_def split: option.split)+

lemma report_target_once:
  "reports_once st \<Longrightarrow> reports_once (report_target t st) \<and> insert t (ex_reported st) = ex_reported (report_target t st)"
  by (auto simp: reports_once_def report_target_def denied_def count_list_append)

lemma keeps_permits [denial_intros]: "keeps_denials (permits rules host port)"
  using report_target_once by (fastforce simp: keeps_denials_def permits_def)

lemma keeps_permits_address [denial_intros]: "keeps_denials (permits_address n rules host a)"
  using report_target_once by (fastforce simp: keeps_denials_def permits_address_def)

lemma keeps_try_addresses [denial_intros]: "keeps_denials (try_addresses n rules host as e)"
proof (induction as arbitrary: e)
  case (Cons a as)
  let ?attempt = "\<lambda>st. let st = st\<lparr>ex_tried := ex_tried st @ [a]\<rparr> in
    case n_reach n a of
      None \<Rightarrow> (Inr a, st\<lparr>ex_upstream := Some (a, [])\<rparr>)
    | Some e \<Rightarrow> try_addresses n rules host as e st"
  have "keeps_denials ?attempt"
  proof (cases "n_reach n a")
    case None
    show ?thesis by (rule keeps_same) (simp_all add: None Let_def)
  next
    case (Some e)
    show ?thesis
    proof (rule keepsI)
      fix st assume "reports_once st"
      then have "reports_once (st\<lparr>ex_tried := ex_tried st @ [a]\<rparr>)" by (simp add: reports_once_def)
      from keepsD [OF Cons this, of e] show "reports_once (snd (?attempt st)) \<and> ex_reported st \<subseteq> ex_reported (snd (?attempt st))"
        by (simp add: Some Let_def)
    qed
  qed
  then show ?case using Cons by (auto intro!: denial_intros)
qed (simp add: denial_intros)

lemma keeps_connect [denial_intros]: "keeps_denials (connect n rules host port)"
  unfolding connect_def by (intro denial_intros)

lemma keeps_report_line [denial_intros]:
  assumes "\<And>t. m \<noteq> denied t"
  shows "keeps_denials (report_line m)"
  using assms by (auto simp: keeps_denials_def report_line_def reports_once_def count_list_append)

lemma keeps_serve_http: "keeps_denials (serve_http n rules reads)"
  unfolding serve_http_def respond_def
  by (auto intro!: denial_intros split: sum.split option.split prod.split)

lemma keeps_read_target [denial_intros]: "keeps_denials (read_target n input)"
  unfolding read_target_def split_def Let_def refuse_def socks_reply_def
  by (auto intro!: denial_intros simp: denied_def)

lemma keeps_serve_target [denial_intros]: "keeps_denials (serve_target n rules host port)"
  unfolding serve_target_def socks_reply_def by (auto intro!: denial_intros split: sum.split)

lemma keeps_serve_socks: "keeps_denials (serve_socks n rules input)"
  unfolding serve_socks_def negotiate_auth_def split_def
  by (auto intro!: denial_intros split: option.split)

lemma serve_client_denials:
  assumes "reports_once st"
  shows "reports_once (serve_client n px c st) \<and> ex_reported st \<subseteq> ex_reported (serve_client n px c st)"
proof -
  let ?st = "st\<lparr>ex_tried := [], ex_client := [], ex_upstream := None, ex_piped := False\<rparr>"
  have "reports_once ?st" using assms by (simp add: reports_once_def)
  then show ?thesis
    using keeps_serve_http [of n "px_rules px"] keeps_serve_socks [of n "px_rules px"]
    by (cases c) (force simp: serve_client_def keeps_denials_def)+
qed

lemma fold_clients_denials:
  "reports_once st \<Longrightarrow> reports_once (fold (serve_client n px) cs st)
     \<and> ex_reported st \<subseteq> ex_reported (fold (serve_client n px) cs st)"
proof (induction cs arbitrary: st)
  case (Cons c cs)
  then show ?case using serve_client_denials [of st n px c] by fastforce
qed simp

lemma first_exchange_once: "reports_once first_exchange"
  by (simp add: reports_once_def first_exchange_def)

subsection \<open>What a client asks for\<close>

text \<open>The host and port a client asks for, when its bytes get that far.\<close>

definition target_of :: "network \<Rightarrow> proxy_client \<Rightarrow> (string \<times> nat) option" where
  "target_of n c =
     (case c of
        HttpClient reads \<Rightarrow>
          (case read_head [] reads of
             Inl e \<Rightarrow> None
           | Inr (head, rest) \<Rightarrow> map_option (\<lambda>r. (hr_host r, hr_port r)) (parse_http_request head))
      | SocksClient input \<Rightarrow>
          (case fst (negotiate_auth n input first_exchange) of
             Inr (True, input) \<Rightarrow>
               (case fst (read_target n input first_exchange) of Inr t \<Rightarrow> t | Inl e \<Rightarrow> None)
           | _ \<Rightarrow> None))"

text \<open>An action whose result does not depend on what was served before.\<close>

definition blind :: "'a serving \<Rightarrow> bool" where
  "blind a \<longleftrightarrow> (\<forall>st st'. fst (a st) = fst (a st'))"

named_theorems blind_intros "actions whose result does not depend on the state"

lemma blind_bind [blind_intros]:
  assumes "blind a" and "\<And>x. blind (f x)"
  shows "blind (sbind a f)"
  unfolding blind_def
proof (intro allI)
  fix st st'
  obtain r u u' where "a st = (r, u)" "a st' = (r, u')"
    using assms(1) unfolding blind_def by (metis prod.collapse)
  then show "fst (sbind a f st) = fst (sbind a f st')"
    using assms(2) unfolding blind_def by (cases r) (simp_all add: sbind_def)
qed

lemma blind_steps [blind_intros]:
  "blind (sreturn x)" "blind (sfail e)" "blind (slift r)" "blind (to_client n bytes)" "blind (report_line m)"
  by (simp_all add: blind_def sreturn_def sfail_def slift_def to_client_def report_line_def split: option.split)

lemma blind_negotiate: "blind (negotiate_auth n input)"
  unfolding negotiate_auth_def split_def by (auto intro!: blind_intros)

lemma blind_read_target: "blind (read_target n input)"
  unfolding read_target_def split_def Let_def refuse_def socks_reply_def by (auto intro!: blind_intros)

lemma to_client_reported: "ex_reported (snd (to_client n bytes st)) = ex_reported st"
  by (simp add: to_client_def split: option.split)

lemma denied_reported:
  assumes "\<not> list_ex (\<lambda>rule. DomainRule_matches rule host port) (ru_domains rules)"
    and "\<And>st. ex_reported (snd (d st)) = ex_reported st"
  shows "host @ '':'' @ dec port \<in> ex_reported
    (snd (sbind (permits rules host port) (\<lambda>permitted. if \<not> permitted then d else f) st))"
  using assms(1) by (simp add: sbind_def permits_def assms(2)) (simp add: report_target_def)

lemma target_reported:
  assumes "target_of n c = Some (host, port)"
    and "\<not> list_ex (\<lambda>rule. DomainRule_matches rule host port) (ru_domains (px_rules px))"
  shows "host @ '':'' @ dec port \<in> ex_reported (serve_client n px c st)"
proof (cases c)
  case (HttpClient reads)
  then obtain head rest r where "read_head [] reads = Inr (head, rest)" "parse_http_request head = Some r"
    "hr_host r = host" "hr_port r = port"
    using assms(1) by (auto simp: target_of_def split: sum.splits)
  then show ?thesis
    by (simp add: HttpClient serve_client_def serve_http_def Let_def)
      (rule denied_reported [OF assms(2), simplified], simp add: respond_def to_client_reported)
next
  case (SocksClient input)
  let ?st = "st\<lparr>ex_tried := [], ex_client := [], ex_upstream := None, ex_piped := False\<rparr>"
  obtain input' where first: "fst (negotiate_auth n input first_exchange) = Inr (True, input')"
    "fst (read_target n input' first_exchange) = Inr (Some (host, port))"
    using assms(1) SocksClient by (auto simp: target_of_def split: sum.splits bool.splits)
  obtain st1 where st1: "negotiate_auth n input ?st = (Inr (True, input'), st1)"
    using blind_negotiate first(1) unfolding blind_def by (metis prod.collapse)
  obtain st2 where st2: "read_target n input' st1 = (Inr (Some (host, port)), st2)"
    using blind_read_target first(2) unfolding blind_def by (metis prod.collapse)
  have "serve_client n px c st = snd (serve_target n (px_rules px) host port st2)"
    using st1 st2 by (simp add: SocksClient serve_client_def serve_socks_def Let_def sbind_def)
  then show ?thesis
    unfolding serve_target_def
    by (simp only: ) (rule denied_reported [OF assms(2)], simp add: socks_reply_def to_client_reported)
qed

subsection \<open>What the terminal shows\<close>

text \<open>A run installs the sink of its reporter; \<open>lines\<close> are what the sandbox reports while it lasts.\<close>

definition run_diagnostics :: "shell \<Rightarrow> string list \<Rightarrow> reporter \<Rightarrow> reporter diagnostics" where
  "run_diagnostics sh lines r =
     fold diagnostic lines
       (snd (set_diagnostic_sink (diagnostic_sink sh) \<lparr>dg_sink = None, dg_state = r, dg_stderr = []\<rparr>))"

lemma fold_diagnostic:
  "fold diagnostic lines \<lparr>dg_sink = Some sink, dg_state = r, dg_stderr = e\<rparr>
     = \<lparr>dg_sink = Some sink, dg_state = fold sink lines r, dg_stderr = e\<rparr>"
  by (induction lines arbitrary: r) (simp_all add: diagnostic_def)

lemma run_diagnostics_eq:
  "run_diagnostics sh lines r =
     \<lparr>dg_sink = Some (diagnostic_sink sh), dg_state = fold (diagnostic_sink sh) lines r, dg_stderr = []\<rparr>"
  by (simp add: run_diagnostics_def set_diagnostic_sink_def fold_diagnostic)

text \<open>A second sink is not installed.\<close>

lemma first_sink_stays:
  "set_diagnostic_sink sink p = (True, q) \<Longrightarrow> set_diagnostic_sink other q = (False, q)"
  by (auto simp: set_diagnostic_sink_def split: option.splits)

lemma line_appends:
  assumes "sh_broken sh Err = None"
  shows "\<exists>before. rt_err (snd (terminal_line sh Err s r)) = rt_err r @ before @ s @ [newline]"
  using assms by (auto simp: terminal_line_def write_to_def put_def tick_def)

lemma warn_appends:
  assumes "sh_broken sh Err = None"
  shows "prefix (rt_err r) (rt_err (report_warn sh f r))"
  using line_appends [OF assms, of "styled_status sh (Bold Yellow) ''Warning'' f" r]
  by (auto simp: report_warn_def)

lemma terminal_log_appends:
  assumes "sh_broken sh Err = None"
  shows "prefix (rt_err r) (rt_err (terminal_log sh a r))"
proof -
  let ?n = "rt_ticks r"
  obtain log failure where
    w: "OpenLog_write (a (sh_clock sh ?n) (sh_clock sh (?n + 1))) (rt_log r) = (log, failure)" by fastforce
  let ?r = "r\<lparr>rt_log := log, rt_ticks := ?n + 2\<rparr>"
  have "terminal_log sh a r = (case failure of None \<Rightarrow> ?r | Some f \<Rightarrow> report_warn sh f ?r)"
    using w by (simp add: terminal_log_def Let_def del: add_2_eq_Suc')
  then show ?thesis using warn_appends [OF assms, of ?r] by (cases failure) simp_all
qed

lemma sink_shows:
  assumes "sh_broken sh Err = None"
  shows "\<exists>before. rt_err (diagnostic_sink sh m r) =
    rt_err r @ before @ styled_status sh (Bold Yellow) ''Sandbox'' m @ [newline]"
proof -
  let ?l = "terminal_log sh (\<lambda>now _. log_status (sh_formats sh) (sh_log_fails sh) now ''Sandbox'' m) r"
  obtain b1 where "rt_err ?l = rt_err r @ b1" using terminal_log_appends [OF assms] by (auto simp: prefix_def)
  moreover obtain b2 where "rt_err (diagnostic_sink sh m r) =
      rt_err ?l @ b2 @ styled_status sh (Bold Yellow) ''Sandbox'' m @ [newline]"
    using line_appends [OF assms] by (force simp: diagnostic_sink_def)
  ultimately show ?thesis by (metis append.assoc)
qed

lemma sinks_show:
  assumes "sh_broken sh Err = None"
  shows "m \<in> set lines \<Longrightarrow>
    sublist (styled_status sh (Bold Yellow) ''Sandbox'' m @ [newline]) (rt_err (fold (diagnostic_sink sh) lines r))"
proof (induction lines rule: rev_induct)
  case (snoc l lines)
  obtain b where b: "rt_err (diagnostic_sink sh l (fold (diagnostic_sink sh) lines r)) =
      rt_err (fold (diagnostic_sink sh) lines r) @ b @ styled_status sh (Bold Yellow) ''Sandbox'' l @ [newline]"
    using sink_shows [OF assms] by blast
  show ?case
  proof (cases "m = l")
    case True
    have "suffix (styled_status sh (Bold Yellow) ''Sandbox'' l @ [newline])
        (rt_err (diagnostic_sink sh l (fold (diagnostic_sink sh) lines r)))"
      unfolding b by (rule suffixI [of _ "rt_err (fold (diagnostic_sink sh) lines r) @ b"]) simp
    then show ?thesis using True by (simp add: suffix_imp_sublist)
  next
    case False
    then have "sublist (styled_status sh (Bold Yellow) ''Sandbox'' m @ [newline])
        (rt_err (fold (diagnostic_sink sh) lines r))" using snoc by simp
    moreover have "prefix (rt_err (fold (diagnostic_sink sh) lines r))
        (rt_err (diagnostic_sink sh l (fold (diagnostic_sink sh) lines r)))" unfolding b by simp
    ultimately show ?thesis
      by (simp add: sublist_order.order_trans [OF _ prefix_imp_sublist])
  qed
qed simp

text \<open>C27. A connection that is denied is seen, and once: whatever clients the two proxies of a run serve, in
  whatever order, for every host and port that one of them asked for and no rule allows there is exactly
  one line, however often it was asked for, and the run's sink puts it on the terminal as a line of the
  program, while nothing goes round the reporter to the standard error of the process.\<close>

theorem denial_is_seen_once:
  assumes "Proxy_start hosts local http socks = Inr px"
    and "c \<in> set cs" and "target_of n c = Some (host, port)"
    and "\<not> list_ex (\<lambda>rule. DomainRule_matches rule host port) hosts"
    and "sh_broken sh Err = None"
  shows "count_list (ex_lines (serve_clients n px cs)) (denied (host @ '':'' @ dec port)) = 1
    \<and> (case run_diagnostics sh (ex_lines (serve_clients n px cs)) r of p \<Rightarrow>
         sublist (styled_status sh (Bold Yellow) ''Sandbox'' (denied (host @ '':'' @ dec port)) @ [newline])
           (rt_err (dg_state p))
         \<and> dg_stderr p = [])"
proof -
  let ?t = "host @ '':'' @ dec port"
  obtain before after where cs: "cs = before @ c # after" using split_list [OF assms(2)] by blast
  have rules: "ru_domains (px_rules px) = hosts" using assms(1) by (auto simp: Proxy_start_def result_simps)
  let ?st = "fold (serve_client n px) before first_exchange"
  have "reports_once ?st" using fold_clients_denials [OF first_exchange_once] by blast
  then have "reports_once (serve_client n px c ?st)" using serve_client_denials by blast
  from fold_clients_denials [OF this, of n px after]
  have "reports_once (serve_clients n px cs)" "?t \<in> ex_reported (serve_clients n px cs)"
    using target_reported [OF assms(3), of px ?st] assms(4) rules by (auto simp: serve_clients_def cs)
  then have one: "count_list (ex_lines (serve_clients n px cs)) (denied ?t) = 1"
    by (simp add: reports_once_def)
  then have "denied ?t \<in> set (ex_lines (serve_clients n px cs))" by (metis count_notin zero_neq_one)
  then show ?thesis using one sinks_show [OF assms(5)] by (simp add: run_diagnostics_eq)
qed

definition demo_px :: proxy where
  "demo_px = \<lparr>px_rules = demo_rules, px_http_port = 40001, px_socks_port = 40002\<rparr>"

lemma demo_px_started:
  "Proxy_start (ru_domains demo_rules) False (loopback_listener (Inr ()) (Inr 40001))
     (loopback_listener (Inr ()) (Inr 40002)) = Inr demo_px"
  by (simp add: Proxy_start_def loopback_listener_def demo_px_def demo_rules_def)

text \<open>Three clients, of which two ask for the same host that no rule allows, one over each proxy.\<close>

definition demo_clients :: "proxy_client list" where
  "demo_clients =
     [SocksClient (socks_request ''x.y'' 80), SocksClient (socks_request ''a.b'' 80),
      HttpClient [Inr (''CONNECT x.y:80 HTTP/1.1'' @ CRLF @ CRLF)]]"

theorem denial_is_seen_once_witness:
  "rt_err (dg_state (run_diagnostics demo_shell (ex_lines (serve_clients demo_network demo_px demo_clients))
     demo_reporter)) \<noteq> []
   \<and> count_list (ex_lines (serve_clients demo_network demo_px demo_clients)) ''denied connection to x.y:80'' = 1"
proof -
  have "SocksClient (socks_request ''x.y'' 80) \<in> set demo_clients" by (simp add: demo_clients_def)
  moreover have "target_of demo_network (SocksClient (socks_request ''x.y'' 80)) = Some (''x.y'', 80)"
    by code_simp
  moreover have "\<not> list_ex (\<lambda>rule. DomainRule_matches rule ''x.y'' 80) (ru_domains demo_rules)"
    by code_simp
  moreover have "sh_broken demo_shell Err = None" by (simp add: demo_shell_def)
  moreover have "denied (''x.y'' @ '':'' @ dec 80) = ''denied connection to x.y:80''" by code_simp
  ultimately show ?thesis
    using denial_is_seen_once [OF demo_px_started, of "SocksClient (socks_request ''x.y'' 80)" demo_clients
        demo_network "''x.y''" 80 demo_shell demo_reporter] by auto
qed

end
