(* ===== verification/Piping.thy ===== *)
theory Piping
  imports Proxy
begin

text \<open>
  \<open>pipe\<close> of \<open>beez-sandbox/src/stream.rs\<close>: once a proxy or a relay has connected its client, two threads copy
  the bytes, one in each direction, while both peers go on sending, closing or breaking off. A direction
  is the record \<open>copy\<close>; the threads and the peers move in any order, and a read or a write takes any
  number of bytes but none.
\<close>

subsection \<open>One direction\<close>

text \<open>
  \<open>cp_sent\<close> is all the peer has sent, \<open>cp_waiting\<close> the part not read yet, \<open>cp_held\<close> the part read and not yet
  written. \<open>cp_closed\<close>: the peer has sent its last byte. \<open>cp_reset\<close>: reading from it fails. \<open>cp_refused\<close>: writing to the other peer
  fails. \<open>cp_over\<close>: the copy has ended and the other peer was told so.
\<close>

record copy =
  cp_sent :: string
  cp_waiting :: string
  cp_held :: string
  cp_written :: string
  cp_closed :: bool
  cp_reset :: bool
  cp_refused :: bool
  cp_over :: bool

definition copy_new :: copy where
  "copy_new = \<lparr>cp_sent = [], cp_waiting = [], cp_held = [], cp_written = [], cp_closed = False, cp_reset = False,
     cp_refused = False, cp_over = False\<rparr>"

datatype peer_move = Sends string | Closes | Resets | Refuses

definition peer_do :: "peer_move \<Rightarrow> copy \<Rightarrow> copy" where
  "peer_do move c =
     (case move of
        Sends bytes \<Rightarrow>
          if cp_closed c then c else c\<lparr>cp_sent := cp_sent c @ bytes, cp_waiting := cp_waiting c @ bytes\<rparr>
      | Closes \<Rightarrow> c\<lparr>cp_closed := True\<rparr>
      | Resets \<Rightarrow> c\<lparr>cp_closed := True, cp_reset := True\<rparr>
      | Refuses \<Rightarrow> c\<lparr>cp_refused := True\<rparr>)"

text \<open>
  One move of the thread: \<open>io::copy\<close> writes what it read before it reads again, and ends at the end of the input
  or the first error; then the write half is shut down. A thread with nothing to read waits.
\<close>

definition copy_do :: "nat \<Rightarrow> copy \<Rightarrow> copy" where
  "copy_do n c =
     (if cp_over c then c
      else if cp_held c \<noteq> [] then
        if cp_refused c then c\<lparr>cp_over := True\<rparr>
        else c\<lparr>cp_written := cp_written c @ take (Suc n) (cp_held c), cp_held := drop (Suc n) (cp_held c)\<rparr>
      else if cp_reset c then c\<lparr>cp_over := True\<rparr>
      else if cp_waiting c \<noteq> [] then
        c\<lparr>cp_held := take (Suc n) (cp_waiting c), cp_waiting := drop (Suc n) (cp_waiting c)\<rparr>
      else if cp_closed c then c\<lparr>cp_over := True\<rparr>
      else c)"

subsection \<open>Both directions\<close>

text \<open>The first peer's bytes go to the second and the second's to the first. \<open>True\<close> names the first direction.\<close>

datatype pipe_move = Peer bool peer_move | Thread bool nat

fun pipe_do :: "pipe_move \<Rightarrow> copy \<times> copy \<Rightarrow> copy \<times> copy" where
  "pipe_do (Peer there move) (a, b) = (if there then (peer_do move a, b) else (a, peer_do move b))"
| "pipe_do (Thread there n) (a, b) = (if there then (copy_do n a, b) else (a, copy_do n b))"

definition pipe_run :: "pipe_move list \<Rightarrow> copy \<times> copy" where
  "pipe_run moves = fold pipe_do moves (copy_new, copy_new)"

subsection \<open>What arrives\<close>

definition faithful :: "copy \<Rightarrow> bool" where
  "faithful c \<longleftrightarrow>
     cp_sent c = cp_written c @ cp_held c @ cp_waiting c
     \<and> (cp_over c \<longrightarrow> cp_refused c \<or> cp_reset c \<or> cp_closed c \<and> cp_held c = [] \<and> cp_waiting c = [])"

lemma faithful_new: "faithful copy_new"
  by (simp add: faithful_def copy_new_def)

lemma faithful_peer: "faithful c \<Longrightarrow> faithful (peer_do move c)"
  by (cases move) (auto simp: faithful_def peer_do_def)

lemma faithful_copy: "faithful c \<Longrightarrow> faithful (copy_do n c)"
  by (auto simp: faithful_def copy_do_def)

definition both_faithful :: "copy \<times> copy \<Rightarrow> bool" where
  "both_faithful p \<longleftrightarrow> faithful (fst p) \<and> faithful (snd p)"

lemma both_faithful_do: "both_faithful p \<Longrightarrow> both_faithful (pipe_do move p)"
  by (cases p; cases move) (auto simp: both_faithful_def faithful_peer faithful_copy)

lemma both_faithful_run: "both_faithful (pipe_run moves)"
proof -
  have "both_faithful (fold pipe_do moves p)" if "both_faithful p" for p
    using that by (induction moves arbitrary: p) (simp_all add: both_faithful_do)
  then show ?thesis by (simp add: pipe_run_def both_faithful_def faithful_new)
qed

subsection \<open>The end of a copy\<close>

text \<open>The moves a thread still has to make once its peer has closed.\<close>

definition left :: "copy \<Rightarrow> nat" where
  "left c = (if cp_over c then 0 else 2 * length (cp_waiting c) + length (cp_held c) + 1)"

lemma left_copy: "cp_closed c \<Longrightarrow> left (copy_do n c) \<le> left c - 1 \<and> cp_closed (copy_do n c)"
  by (cases "cp_waiting c"; cases "cp_held c") (auto simp: left_def copy_do_def min_def)

lemma left_peer: "cp_closed c \<Longrightarrow> left (peer_do move c) = left c \<and> cp_closed (peer_do move c)"
  by (cases move) (auto simp: left_def peer_do_def)

definition direction :: "bool \<Rightarrow> copy \<times> copy \<Rightarrow> copy" where
  "direction there p = (if there then fst p else snd p)"

definition thread_moves :: "bool \<Rightarrow> pipe_move list \<Rightarrow> nat" where
  "thread_moves there moves =
     length (filter (\<lambda>m. case m of Thread t n \<Rightarrow> t = there | Peer t move \<Rightarrow> False) moves)"

lemma left_run:
  assumes "cp_closed (direction there p)"
  shows "left (direction there (fold pipe_do moves p)) \<le> left (direction there p) - thread_moves there moves"
  using assms
proof (induction moves arbitrary: p)
  case (Cons m moves)
  obtain a b where p: "p = (a, b)" by (cases p)
  have step: "cp_closed (direction there (pipe_do m p))
    \<and> left (direction there (pipe_do m p)) \<le> left (direction there p) - thread_moves there [m]"
    using Cons.prems left_copy left_peer
    by (cases m) (auto simp: p direction_def thread_moves_def)
  have "thread_moves there (m # moves) = thread_moves there [m] + thread_moves there moves"
    by (simp add: thread_moves_def)
  moreover have "left (direction there (fold pipe_do moves (pipe_do m p)))
      \<le> left (direction there (pipe_do m p)) - thread_moves there moves"
    using Cons.IH step by blast
  ultimately show ?case using step unfolding fold.simps o_apply by linarith
qed (simp add: thread_moves_def)


definition demo_moves :: "pipe_move list" where
  "demo_moves = [Peer True (Sends ''ab''), Thread True 0, Peer False (Sends ''x''), Peer True Closes, Peer False Closes]"


end
