(* ===== verification/Relays.thy ===== *)
theory Relays
  imports Piping
begin

text \<open>
  The way out of a Linux sandbox: a program in it connects to a loopback port, the relay
  (\<open>serve_relay\<close> of \<open>beez-sandbox/src/init.rs\<close>) forwards each connection to a Unix socket, and on the
  host \<open>forward_socket\<close> of \<open>bubblewrap.rs\<close> forwards that to the port of a proxy. Both are \<open>forward\<close> of
  \<open>server.rs\<close>, which pipes what it accepts. The Unix socket between them is a queue of bytes.
\<close>

subsection \<open>Forwarding\<close>

text \<open>A handler of \<open>forward\<close>: it pipes its client when it could connect upstream, and drops it otherwise.\<close>

definition forward :: "io_error + unit \<Rightarrow> (copy \<times> copy) option" where
  "forward connected = (case connected of Inl e \<Rightarrow> None | Inr _ \<Rightarrow> Some (copy_new, copy_new))"

text \<open>The two servers, as what they do with a connection whose upstream answers \<open>connected\<close>.\<close>

definition forward_socket ::
    "io_error + unit \<Rightarrow> io_error + (io_error + unit \<Rightarrow> (copy \<times> copy) option)" where
  "forward_socket bound = and_then bound (\<lambda>_. Inr forward)"

definition serve_relay :: "io_error + unit \<Rightarrow> (copy \<times> copy) option" where
  "serve_relay connected = forward connected"

subsection \<open>One direction of a connection\<close>

text \<open>
  The first copy is the one whose peer sends: towards the proxy the relay's, towards the program the host's.
  \<open>Passes n\<close> and \<open>PassesEnd\<close> are the socket in the middle, which holds what the first copy wrote and tells
  the second of its end; \<open>Breaks\<close> is a socket that fails on both sides.
\<close>

datatype chain_move =
    Source peer_move
  | SinkRefuses
  | First nat
  | Passes nat
  | PassesEnd
  | Second nat
  | Breaks

record chain =
  ch_first :: copy
  ch_second :: copy
  ch_broken :: bool

definition chain_new :: chain where
  "chain_new = \<lparr>ch_first = copy_new, ch_second = copy_new, ch_broken = False\<rparr>"

text \<open>
  A connection from a program in the sandbox to the proxy: the socket \<open>bound\<close> on the host, and what connecting to it
  from the relay and to the proxy from its server gives.
\<close>

definition chain_connect ::
    "io_error + unit \<Rightarrow> io_error + unit \<Rightarrow> io_error + unit \<Rightarrow> chain option" where
  "chain_connect bound to_socket to_proxy =
     (case forward_socket bound of
        Inl e \<Rightarrow> None
      | Inr serve \<Rightarrow>
          (case (serve_relay to_socket, serve to_proxy) of
             (Some (a, _), Some (b, _)) \<Rightarrow> Some \<lparr>ch_first = a, ch_second = b, ch_broken = False\<rparr>
           | _ \<Rightarrow> None))"

lemma chain_connect_new: "chain_connect bound to_socket to_proxy = Some c \<Longrightarrow> c = chain_new"
  by (auto simp: chain_connect_def forward_socket_def serve_relay_def forward_def chain_new_def result_simps
      split: sum.splits option.splits prod.splits)

text \<open>What the first copy wrote and the second has not been sent yet.\<close>

definition in_socket :: "chain \<Rightarrow> string" where
  "in_socket c = drop (length (cp_sent (ch_second c))) (cp_written (ch_first c))"

definition chain_do :: "chain_move \<Rightarrow> chain \<Rightarrow> chain" where
  "chain_do move c =
     (case move of
        Source m \<Rightarrow>
          (case m of
             Refuses \<Rightarrow> c
           | Resets \<Rightarrow> c\<lparr>ch_first := peer_do Resets (ch_first c), ch_broken := True\<rparr>
           | _ \<Rightarrow> c\<lparr>ch_first := peer_do m (ch_first c)\<rparr>)
      | SinkRefuses \<Rightarrow> c\<lparr>ch_second := peer_do Refuses (ch_second c), ch_broken := True\<rparr>
      | First n \<Rightarrow> c\<lparr>ch_first := copy_do n (ch_first c)\<rparr>
      | Passes n \<Rightarrow> c\<lparr>ch_second := peer_do (Sends (take (Suc n) (in_socket c))) (ch_second c)\<rparr>
      | PassesEnd \<Rightarrow>
          if cp_over (ch_first c) \<and> in_socket c = [] then c\<lparr>ch_second := peer_do Closes (ch_second c)\<rparr> else c
      | Second n \<Rightarrow> c\<lparr>ch_second := copy_do n (ch_second c)\<rparr>
      | Breaks \<Rightarrow> c\<lparr>ch_first := peer_do Refuses (ch_first c), ch_second := peer_do Resets (ch_second c),
                   ch_broken := True\<rparr>)"

definition chain_run :: "chain_move list \<Rightarrow> chain \<Rightarrow> chain" where
  "chain_run moves c = fold chain_do moves c"

subsection \<open>What arrives\<close>

text \<open>
  Both copies are faithful, the socket hands on what was written in order, and while nothing is broken
  no copy fails and the end is passed on only behind all bytes.
\<close>

definition chain_inv :: "chain \<Rightarrow> bool" where
  "chain_inv c \<longleftrightarrow>
     faithful (ch_first c) \<and> faithful (ch_second c) \<and>
     prefix (cp_sent (ch_second c)) (cp_written (ch_first c)) \<and>
     (\<not> ch_broken c \<longrightarrow>
        \<not> cp_refused (ch_first c) \<and> \<not> cp_reset (ch_first c) \<and> \<not> cp_refused (ch_second c) \<and> \<not> cp_reset (ch_second c) \<and>
        (cp_closed (ch_second c) \<longrightarrow> cp_over (ch_first c) \<and> in_socket c = []))"

lemma copy_do_keeps [simp]:
  "cp_sent (copy_do n c) = cp_sent c" "cp_closed (copy_do n c) = cp_closed c" "cp_reset (copy_do n c) = cp_reset c"
  "cp_refused (copy_do n c) = cp_refused c"
  by (simp_all add: copy_do_def)

lemma copy_do_written: "prefix (cp_written c) (cp_written (copy_do n c))"
  by (simp add: copy_do_def)

lemma copy_do_over: "cp_over c \<Longrightarrow> copy_do n c = c"
  by (simp add: copy_do_def)

lemma peer_do_keeps [simp]:
  "cp_written (peer_do m c) = cp_written c" "cp_held (peer_do m c) = cp_held c" "cp_over (peer_do m c) = cp_over c"
  "cp_refused (peer_do m c) \<longleftrightarrow> m = Refuses \<or> cp_refused c" "cp_reset (peer_do m c) \<longleftrightarrow> m = Resets \<or> cp_reset c"
  "cp_closed (peer_do m c) \<longleftrightarrow> m = Closes \<or> m = Resets \<or> cp_closed c"
  "cp_sent (peer_do m c) = (case m of Sends bytes \<Rightarrow> if cp_closed c then cp_sent c else cp_sent c @ bytes | _ \<Rightarrow> cp_sent c)"
  by (cases m; simp add: peer_do_def)+

lemma chain_inv_new: "chain_inv chain_new"
  by (simp add: chain_inv_def chain_new_def faithful_new) (simp add: copy_new_def)

lemma in_socket_eq:
  "prefix (cp_sent (ch_second c)) (cp_written (ch_first c)) \<Longrightarrow>
     cp_written (ch_first c) = cp_sent (ch_second c) @ in_socket c"
  by (auto simp: prefix_def in_socket_def)

lemma chain_inv_do:
  assumes "chain_inv c"
  shows "chain_inv (chain_do move c)"
proof (cases move)
  case (Source m)
  then show ?thesis using assms
    by (cases m) (auto simp: chain_do_def chain_inv_def faithful_peer in_socket_def)
next
  case (First n)
  have "prefix (cp_written (ch_first c)) (cp_written (copy_do n (ch_first c)))" by (rule copy_do_written)
  then show ?thesis using assms First copy_do_over [of "ch_first c" n]
    by (auto simp: chain_do_def chain_inv_def faithful_copy in_socket_def)
next
  case (Passes n)
  have "prefix (cp_sent (ch_second c) @ take (Suc n) (in_socket c)) (cp_written (ch_first c))"
    using assms by (intro prefixI [of _ _ "drop (Suc n) (in_socket c)"]) (auto simp: chain_inv_def in_socket_eq)
  then show ?thesis using assms Passes
    by (auto simp: chain_do_def chain_inv_def faithful_peer in_socket_def)
next
  case PassesEnd
  then show ?thesis using assms
    by (auto simp: chain_do_def chain_inv_def faithful_peer in_socket_def)
next
  case (Second n)
  then show ?thesis using assms by (auto simp: chain_do_def chain_inv_def faithful_copy in_socket_def)
next
  case SinkRefuses
  then show ?thesis using assms by (auto simp: chain_do_def chain_inv_def faithful_peer in_socket_def)
next
  case Breaks
  then show ?thesis using assms by (auto simp: chain_do_def chain_inv_def faithful_peer in_socket_def)
qed

lemma chain_inv_run: "chain_inv c \<Longrightarrow> chain_inv (chain_run moves c)"
  unfolding chain_run_def by (induction moves arbitrary: c) (simp_all add: chain_inv_do)

subsection \<open>The end of a connection\<close>

text \<open>
  The moves that bytes and the end of the source still need: each byte is read and written twice and passed
  on once.
\<close>

definition chain_left :: "chain \<Rightarrow> nat" where
  "chain_left c =
     5 * length (cp_waiting (ch_first c)) + 4 * length (cp_held (ch_first c)) + 3 * length (in_socket c)
     + 2 * length (cp_waiting (ch_second c)) + length (cp_held (ch_second c))
     + (if cp_over (ch_first c) then 0 else 1) + (if cp_closed (ch_second c) then 0 else 1)
     + (if cp_over (ch_second c) then 0 else 1)"

definition round_of_moves :: "chain_move list" where
  "round_of_moves = [First 0, Passes 0, PassesEnd, Second 0]"

text \<open>A thread that moves one byte at a time.\<close>

lemma copy_do_one:
  obtains (still) "copy_do 0 c = c"
  | (ends) "\<not> cp_over c" "copy_do 0 c = c\<lparr>cp_over := True\<rparr>"
  | (writes) b bs where "cp_held c = b # bs" "copy_do 0 c = c\<lparr>cp_written := cp_written c @ [b], cp_held := bs\<rparr>"
  | (reads) b bs where "cp_held c = []" "cp_waiting c = b # bs" "copy_do 0 c = c\<lparr>cp_held := [b], cp_waiting := bs\<rparr>"
proof -
  consider "cp_over c"
    | b bs where "\<not> cp_over c" "cp_held c = b # bs" "cp_refused c"
    | b bs where "\<not> cp_over c" "cp_held c = b # bs" "\<not> cp_refused c"
    | "\<not> cp_over c" "cp_held c = []" "cp_reset c"
    | b bs where "\<not> cp_over c" "cp_held c = []" "\<not> cp_reset c" "cp_waiting c = b # bs"
    | "\<not> cp_over c" "cp_held c = []" "\<not> cp_reset c" "cp_waiting c = []" "cp_closed c"
    | "\<not> cp_over c" "cp_held c = []" "\<not> cp_reset c" "cp_waiting c = []" "\<not> cp_closed c"
    by (cases "cp_held c"; cases "cp_waiting c") auto
  then show thesis
  proof cases
    case 1
    then show thesis by (intro still) (simp add: copy_do_def)
  next
    case 2
    then show thesis by (intro ends) (simp_all add: copy_do_def)
  next
    case 3
    then show thesis by (intro writes) (simp_all add: copy_do_def)
  next
    case 4
    then show thesis by (intro ends) (simp_all add: copy_do_def)
  next
    case 5
    then show thesis by (intro reads) (simp_all add: copy_do_def)
  next
    case 6
    then show thesis by (intro ends) (simp_all add: copy_do_def)
  next
    case 7
    then show thesis by (intro still) (simp add: copy_do_def)
  qed
qed

lemma first_progress:
  assumes "prefix (cp_sent (ch_second c)) (cp_written (ch_first c))"
  shows "chain_do (First 0) c = c \<or> chain_left (chain_do (First 0) c) < chain_left c"
proof (cases rule: copy_do_one [of "ch_first c"])
  case (writes b bs)
  have "length (cp_sent (ch_second c)) \<le> length (cp_written (ch_first c))" using assms by (rule prefix_length_le)
  then show ?thesis by (simp add: chain_do_def writes chain_left_def in_socket_def Suc_diff_le)
qed (simp_all add: chain_do_def chain_left_def in_socket_def)

lemma second_progress: "chain_do (Second 0) c = c \<or> chain_left (chain_do (Second 0) c) < chain_left c"
proof (cases rule: copy_do_one [of "ch_second c"])
  case (writes b bs)
  then show ?thesis by (simp add: chain_do_def chain_left_def in_socket_def)
qed (simp_all add: chain_do_def chain_left_def in_socket_def)

lemma passes_progress: "chain_do (Passes 0) c = c \<or> chain_left (chain_do (Passes 0) c) < chain_left c"
proof (cases "in_socket c")
  case Nil
  have "peer_do (Sends []) d = d" for d by (simp add: peer_do_def)
  then show ?thesis by (simp add: chain_do_def Nil)
next
  case (Cons b bs)
  show ?thesis
  proof (cases "cp_closed (ch_second c)")
    case True
    then show ?thesis by (simp add: chain_do_def peer_do_def)
  next
    case False
    let ?s = "ch_second c"
    have to: "chain_do (Passes 0) c = c\<lparr>ch_second := ?s\<lparr>cp_sent := cp_sent ?s @ [b], cp_waiting := cp_waiting ?s @ [b]\<rparr>\<rparr>"
      using False by (simp add: chain_do_def Cons peer_do_def)
    have "in_socket (chain_do (Passes 0) c) = tl (in_socket c)"
      unfolding to by (simp add: in_socket_def drop_Suc tl_drop)
    then have "length (in_socket (chain_do (Passes 0) c)) = length bs" by (simp add: Cons)
    then show ?thesis using Cons unfolding chain_left_def by (simp add: to)
  qed
qed

lemma end_progress: "chain_do PassesEnd c = c \<or> chain_left (chain_do PassesEnd c) < chain_left c"
proof (cases "cp_closed (ch_second c)")
  case True
  then show ?thesis by (simp add: chain_do_def peer_do_def)
next
  case False
  then show ?thesis by (simp add: chain_do_def peer_do_def chain_left_def in_socket_def)
qed

lemma move_progress:
  "chain_inv c \<Longrightarrow> m \<in> set round_of_moves \<Longrightarrow> chain_do m c = c \<or> chain_left (chain_do m c) < chain_left c"
  using first_progress second_progress passes_progress end_progress
  by (auto simp: round_of_moves_def chain_inv_def)

text \<open>A connection whose source has sent its last byte stands still only when all of it has arrived.\<close>

lemma copy_stands_still:
  assumes "copy_do 0 c = c" and "cp_closed c"
  shows "cp_over c"
  using left_copy [OF assms(2), of 0] assms(1) by (auto simp: left_def split: if_splits)

lemma chain_stands_still:
  assumes "chain_inv c" and "\<not> ch_broken c" and "cp_closed (ch_first c)"
    and "\<And>m. m \<in> set round_of_moves \<Longrightarrow> chain_do m c = c"
  shows "cp_over (ch_second c) \<and> cp_written (ch_second c) = cp_sent (ch_first c)"
proof -
  have still: "chain_do (First 0) c = c" "chain_do (Passes 0) c = c" "chain_do PassesEnd c = c" "chain_do (Second 0) c = c"
    using assms(4) by (simp_all add: round_of_moves_def)
  have "copy_do 0 (ch_first c) = ch_first (chain_do (First 0) c)" by (simp add: chain_do_def)
  with still have first: "cp_over (ch_first c)" using copy_stands_still assms(3) by metis
  have socket: "in_socket c = []"
  proof (rule ccontr)
    assume "in_socket c \<noteq> []"
    then have "\<not> cp_closed (ch_second c)" using assms(1,2) by (auto simp: chain_inv_def)
    moreover have "cp_sent (ch_second (chain_do (Passes 0) c)) = cp_sent (ch_second c)" using still by simp
    ultimately show False using \<open>in_socket c \<noteq> []\<close> by (cases "in_socket c") (auto simp: chain_do_def)
  qed
  have "cp_closed (ch_second (chain_do PassesEnd c))" using first socket by (simp add: chain_do_def)
  then have closed: "cp_closed (ch_second c)" using still by simp
  have "copy_do 0 (ch_second c) = ch_second (chain_do (Second 0) c)" by (simp add: chain_do_def)
  with still closed have second: "cp_over (ch_second c)" using copy_stands_still by metis
  have "cp_written (ch_first c) = cp_sent (ch_second c)"
    using assms(1) socket in_socket_eq [of c] by (simp add: chain_inv_def)
  then show ?thesis using first second assms(1,2) by (auto simp: chain_inv_def faithful_def)
qed

lemma chain_keeps:
  "m \<in> set round_of_moves \<Longrightarrow> ch_broken (chain_do m c) = ch_broken c
     \<and> cp_closed (ch_first (chain_do m c)) = cp_closed (ch_first c)
     \<and> cp_sent (ch_first (chain_do m c)) = cp_sent (ch_first c)"
  by (auto simp: round_of_moves_def chain_do_def)

lemma moves_progress:
  assumes "chain_inv c" and "set ms \<subseteq> set round_of_moves"
  shows "(\<forall>m\<in>set ms. chain_do m c = c) \<and> fold chain_do ms c = c
    \<or> chain_left (fold chain_do ms c) < chain_left c"
  using assms
proof (induction ms arbitrary: c)
  case (Cons m ms)
  from move_progress [OF Cons.prems(1), of m] Cons.prems(2)
  consider "chain_do m c = c" | "chain_left (chain_do m c) < chain_left c" by auto
  then show ?case
  proof cases
    case 1
    then show ?thesis using Cons.IH [of c] Cons.prems by auto
  next
    case 2
    have "chain_left (fold chain_do ms (chain_do m c)) \<le> chain_left (chain_do m c)"
      using Cons.IH [of "chain_do m c"] Cons.prems chain_inv_do by fastforce
    then show ?thesis using 2 by simp
  qed
qed simp

lemma rounds_deliver:
  assumes "chain_inv c" and "\<not> ch_broken c" and "cp_closed (ch_first c)" and "chain_left c \<le> k"
  shows "\<exists>c'. fold chain_do (concat (replicate k round_of_moves)) c = c' \<and> cp_over (ch_second c')
    \<and> cp_written (ch_second c') = cp_sent (ch_first c)"
  using assms
proof (induction k arbitrary: c)
  case 0
  then have "cp_over (ch_second c)" "cp_waiting (ch_second c) = []" "cp_held (ch_second c) = []"
    "in_socket c = []" "cp_over (ch_first c)" by (simp_all add: chain_left_def split: if_splits)
  then have "cp_written (ch_first c) = cp_sent (ch_second c)" "cp_written (ch_second c) = cp_sent (ch_first c)"
    using 0 in_socket_eq [of c] by (auto simp: chain_inv_def faithful_def)
  then show ?case using \<open>cp_over (ch_second c)\<close> by simp
next
  case (Suc k)
  let ?c = "fold chain_do round_of_moves c"
  have keeps: "chain_inv ?c" "\<not> ch_broken ?c" "cp_closed (ch_first ?c)" "cp_sent (ch_first ?c) = cp_sent (ch_first c)"
    using Suc.prems by (simp_all add: round_of_moves_def chain_inv_do chain_keeps)
  show ?case
  proof (cases "\<forall>m\<in>set round_of_moves. chain_do m c = c")
    case True
    then have arrived: "cp_over (ch_second c) \<and> cp_written (ch_second c) = cp_sent (ch_first c)"
      using chain_stands_still Suc.prems by blast
    have "fold chain_do ms c = c" if "set ms \<subseteq> set round_of_moves" for ms
      using that True by (induction ms) auto
    moreover have "set (concat (replicate (Suc k) round_of_moves)) \<subseteq> set round_of_moves" by auto
    ultimately have "fold chain_do (concat (replicate (Suc k) round_of_moves)) c = c" by blast
    then show ?thesis using arrived by simp
  next
    case False
    then have "chain_left ?c < chain_left c" using moves_progress [OF Suc.prems(1) subset_refl] by blast
    then show ?thesis using Suc.IH [OF keeps(1-3)] Suc.prems(4) keeps(4) by simp
  qed
qed


definition demo_chain :: chain where
  "demo_chain = chain_run [Source (Sends ''abc''), First 1, First 0, Passes 4, Source Closes] chain_new"


end
