(* ===== verification/Log_Root.thy ===== *)
theory Log_Root
  imports Run_Log Store
begin

text \<open>
  The Beez root that the runs and the daemon share: \<open>ignore_everything\<close> and \<open>link_latest\<close> of
  \<open>beez-record/src/log.rs\<close>, which \<open>RunLog::create\<close> calls with their errors ignored, and
  \<open>DaemonPaths::create\<close> of \<open>beez-daemon/src/paths.rs\<close>.
\<close>

definition LATEST :: string where "LATEST = ''latest''"

text \<open>The text of the \<open>.gitignore\<close> of a root and the target of its link \<open>latest\<close>, where they exist.\<close>

record root_files =
  rf_gitignore :: "string option"
  rf_latest :: "string option"

text \<open>\<open>written\<close>, \<open>removed\<close> and \<open>linked\<close> are what the system answers.\<close>

definition ignore_everything :: "io_error + unit \<Rightarrow> (root_files, io_error, unit) action" where
  "ignore_everything written = (\<lambda>rf.
     if rf_gitignore rf \<noteq> None then (Inr (), rf)
     else case written of
            Inl e \<Rightarrow> (Inl e, rf)
          | Inr _ \<Rightarrow> (Inr (), rf\<lparr>rf_gitignore := Some (''*'' @ [newline])\<rparr>))"

definition link_latest :: "bool \<Rightarrow> io_error + unit \<Rightarrow> io_error + unit \<Rightarrow> string \<Rightarrow> (root_files, io_error, unit) action" where
  "link_latest unix removed linked i = (\<lambda>rf.
     if \<not> unix then (Inr (), rf)
     else
       let rf = (case removed of Inr _ \<Rightarrow> rf\<lparr>rf_latest := None\<rparr> | Inl _ \<Rightarrow> rf) in
       if rf_latest rf \<noteq> None then (Inl (IoError ''AlreadyExists'' ''File exists''), rf)
       else case linked of
              Inl e \<Rightarrow> (Inl e, rf)
            | Inr _ \<Rightarrow> (Inr (), rf\<lparr>rf_latest := Some (path_join RUNS i)\<rparr>))"

text \<open>What the system answers while a run or a daemon marks a root.\<close>

record root_answers =
  ra_written :: "io_error + unit"
  ra_removed :: "io_error + unit"
  ra_linked :: "io_error + unit"

text \<open>The two calls of \<open>RunLog::create\<close>: only a root that Beez resolved itself is kept out of Git.\<close>

definition mark_root :: "bool \<Rightarrow> root_answers \<Rightarrow> string option \<Rightarrow> string \<Rightarrow> root_files \<Rightarrow> root_files" where
  "mark_root unix ra given_root i rf =
     (let rf = (if given_root = None then snd (ignore_everything (ra_written ra) rf) else rf)
      in snd (link_latest unix (ra_removed ra) (ra_linked ra) i rf))"

definition DaemonPaths_create :: "io_error + unit \<Rightarrow> root_answers \<Rightarrow> (root_files, io_error, unit) action" where
  "DaemonPaths_create created ra =
     sbind (slift created) (\<lambda>_. ignore_everything (ra_written ra))"

subsection \<open>The link to the latest run\<close>

lemma run_link_reaches_run:
  assumes "RunLog_create fm lf started pid arguments root target working_directory = Inr log"
    and "\<not> is_absolute (run_name fm started pid)"
  shows "\<exists>r. rl_directory log = path_join r (path_join RUNS (run_name fm started pid))
    \<and> (root = Some r \<or> root = None \<and> r = resolve_root (lf_is_dir lf) (lf_exists lf) working_directory)"
proof -
  let ?r = "case root of None \<Rightarrow> resolve_root (lf_is_dir lf) (lf_exists lf) working_directory | Some r \<Rightarrow> r"
  have "rl_directory log = path_join (path_join ?r RUNS) (run_name fm started pid)"
    using assms(1) by (auto simp: RunLog_create_def Let_def result_simps split: option.splits)
  also have "\<dots> = path_join ?r (path_join RUNS (run_name fm started pid))"
    using assms(2) by (simp add: path_join_def RUNS_def is_absolute_def)
  finally show ?thesis by (cases root) auto
qed

datatype root_use = RunStarts root_answers "string option" string | DaemonStarts "io_error + unit" root_answers

primrec use_root :: "root_use \<Rightarrow> root_files \<Rightarrow> root_files" where
  "use_root (RunStarts ra given_root i) rf = mark_root True ra given_root i rf"
| "use_root (DaemonStarts created ra) rf = snd (DaemonPaths_create created ra rf)"

lemma use_root_gitignore: "rf_gitignore rf = Some s \<Longrightarrow> rf_gitignore (use_root u rf) = Some s"
  by (cases u)
    (auto simp: mark_root_def DaemonPaths_create_def ignore_everything_def link_latest_def sbind_def slift_def Let_def
      split: sum.split)

text \<open>Whatever runs and daemons use a root, a \<open>.gitignore\<close> that is there is never touched, and after a run that
  could set the link, \<open>latest\<close> names that run until another one starts.\<close>

theorem root_keeps_its_files:
  assumes "ra_removed ra = Inr ()" and "ra_linked ra = Inr ()"
    and "\<forall>u\<in>set later. \<exists>created a. u = DaemonStarts created a"
  shows "(rf_gitignore rf = Some s \<longrightarrow> rf_gitignore (fold use_root (RunStarts ra g i # later) rf) = Some s)
    \<and> rf_latest (fold use_root (RunStarts ra g i # later) rf) = Some (path_join RUNS i)"
proof
  have "rf_gitignore (fold use_root us rf) = Some s" if "rf_gitignore rf = Some s" for us rf
    using that by (induction us arbitrary: rf) (simp_all add: use_root_gitignore)
  then show "rf_gitignore rf = Some s \<longrightarrow> rf_gitignore (fold use_root (RunStarts ra g i # later) rf) = Some s"
    by blast
  have "rf_latest (use_root (DaemonStarts created a) rf) = rf_latest rf" for created a rf
    by (simp add: DaemonPaths_create_def ignore_everything_def sbind_def slift_def split: sum.split)
  then have "rf_latest (fold use_root later rf) = rf_latest rf" for rf
    using assms(3) by (induction later arbitrary: rf) auto
  then show "rf_latest (fold use_root (RunStarts ra g i # later) rf) = Some (path_join RUNS i)"
    using assms(1,2) by (simp add: mark_root_def link_latest_def Let_def)
qed

theorem root_keeps_its_files_witness:
  "rf_latest (use_root (RunStarts \<lparr>ra_written = Inr (), ra_removed = Inr (), ra_linked = Inr ()\<rparr> None ''r-1'')
     \<lparr>rf_gitignore = None, rf_latest = Some ''runs/r-0''\<rparr>) = Some ''runs/r-1''"
  using root_keeps_its_files [of "\<lparr>ra_written = Inr (), ra_removed = Inr (), ra_linked = Inr ()\<rparr>" "[]"
      "\<lparr>rf_gitignore = None, rf_latest = Some ''runs/r-0''\<rparr>" "[]" None "''r-1''"]
  by (simp add: path_join_def RUNS_def is_absolute_def)

end
