(* ===== verification/Stamps.thy ===== *)
theory Stamps
  imports Execute
begin

text \<open>
  \<open>beez-record/src/time.rs\<close> and what its stamps are for: the name of a run says when it began, and the
  sweep of \<open>beez-daemon/src/prune.rs\<close> goes by the order of names. \<open>civil\<close> is the date and time of an
  instant in UTC, which chrono computes and writes by a pattern. The hypothesis \<open>writes_stamps\<close> says
  what chrono documents of the pattern of a stamp, \<open>calendar_on\<close> that dates and times follow the order of
  instants and are within their ranges, for years of four digits.
\<close>

record civil_time =
  cv_year :: nat
  cv_month :: nat
  cv_day :: nat
  cv_hour :: nat
  cv_minute :: nat
  cv_second :: nat
  cv_millisecond :: nat

definition civil_key :: "civil_time \<Rightarrow> nat list" where
  "civil_key c = [cv_year c, cv_month c, cv_day c, cv_hour c, cv_minute c, cv_second c, cv_millisecond c]"

definition civil_in_range :: "civil_time \<Rightarrow> bool" where
  "civil_in_range c \<longleftrightarrow> cv_year c < 10000 \<and> cv_month c < 13 \<and> cv_day c < 32 \<and> cv_hour c < 24
     \<and> cv_minute c < 60 \<and> cv_second c < 60 \<and> cv_millisecond c < 1000"

definition millisecond :: "instant \<Rightarrow> int" where
  "millisecond t = t div 1000000"

definition writes_stamps :: "formats \<Rightarrow> (instant \<Rightarrow> civil_time) \<Rightarrow> instant set \<Rightarrow> bool" where
  "writes_stamps fm civil T \<longleftrightarrow>
     (\<forall>t\<in>T. f_format fm t ''%Y%m%dT%H%M%S%3fZ'' =
        pad_zero 4 (dec (cv_year (civil t))) @ pad_zero 2 (dec (cv_month (civil t)))
        @ pad_zero 2 (dec (cv_day (civil t))) @ ''T'' @ pad_zero 2 (dec (cv_hour (civil t)))
        @ pad_zero 2 (dec (cv_minute (civil t))) @ pad_zero 2 (dec (cv_second (civil t)))
        @ pad_zero 3 (dec (cv_millisecond (civil t))) @ ''Z'')"

definition calendar_on :: "(instant \<Rightarrow> civil_time) \<Rightarrow> instant set \<Rightarrow> bool" where
  "calendar_on civil T \<longleftrightarrow>
     (\<forall>t\<in>T. civil_in_range (civil t)) \<and>
     (\<forall>s\<in>T. \<forall>t\<in>T. millisecond s < millisecond t \<longrightarrow> civil_key (civil s) < civil_key (civil t)) \<and>
     (\<forall>s\<in>T. \<forall>t\<in>T. millisecond s = millisecond t \<longrightarrow> civil s = civil t)"

subsection \<open>The order of numbers of a fixed width\<close>

lemma append_less_append:
  fixes a b :: "('a :: linorder) list"
  shows "length a = length b \<Longrightarrow> a @ c < b @ d \<longleftrightarrow> a < b \<or> a = b \<and> c < d"
  by (induction a b rule: list_induct2) auto

lemma digit_value_order:
  assumes "ascii_digit x" and "ascii_digit y"
  shows "x < y \<longleftrightarrow> digit_value x < digit_value y" and "x = y \<longleftrightarrow> digit_value x = digit_value y"
    and "digit_value x < 10"
proof -
  have "byte x = digit_value x + 48" "byte y = digit_value y + 48" "digit_value x < 10"
    using assms by (auto simp: ascii_digit_def digit_value_def)
  then show "x < y \<longleftrightarrow> digit_value x < digit_value y" "x = y \<longleftrightarrow> digit_value x = digit_value y" "digit_value x < 10"
    by (simp_all add: less_char_def byte_def flip: of_char_eq_iff [where 'a = nat])
qed

lemma digits_less_iff:
  "length a = length b \<Longrightarrow> list_all ascii_digit a \<Longrightarrow> list_all ascii_digit b
     \<Longrightarrow> (a < b \<longleftrightarrow> undec a < undec b) \<and> (a = b \<longleftrightarrow> undec a = undec b)"
proof (induction a arbitrary: b rule: rev_induct)
  case (snoc x a)
  then obtain b' y where b: "b = b' @ [y]" by (cases b rule: rev_cases) auto
  have digits: "length a = length b'" "list_all ascii_digit a" "list_all ascii_digit b'"
    using snoc.prems by (simp_all add: b)
  moreover have "ascii_digit x" "ascii_digit y" using snoc.prems by (simp_all add: b)
  ultimately show ?case
    using snoc.IH [OF digits] digit_value_order [of x y] digit_value_order(3) [of y]
    by (auto simp: b append_less_append undec_snoc)
qed simp

lemma length_dec: "n < 10 ^ w \<Longrightarrow> 0 < w \<Longrightarrow> length (dec n) \<le> w"
proof (induction n arbitrary: w rule: dec.induct)
  case (1 n)
  show ?case
  proof (cases "n < 10")
    case False
    then obtain v where w: "w = Suc v" "0 < v" using "1.prems"
      by (cases w; cases "w = 1") auto
    then have "length (dec (n div 10)) \<le> v" using 1 False by (auto intro!: "1.IH")
    with False w show ?thesis by (subst dec.simps) simp
  qed (use "1.prems" in \<open>simp add: dec.simps [of n]\<close>)
qed

lemma length_pad_zero: "n < 10 ^ w \<Longrightarrow> 0 < w \<Longrightarrow> length (pad_zero w (dec n)) = w"
  using length_dec [of n w] by (simp add: pad_zero_def)

lemma pad_zero_less_iff:
  assumes "m < 10 ^ w" and "n < 10 ^ w" and "0 < w"
  shows "pad_zero w (dec m) < pad_zero w (dec n) \<longleftrightarrow> m < n"
  using digits_less_iff [of "pad_zero w (dec m)" "pad_zero w (dec n)"] assms by (simp add: length_pad_zero)

lemma pad_zero_inject [simp]: "pad_zero w (dec m) = pad_zero w (dec n) \<longleftrightarrow> m = n"
  by (metis undec_pad_zero)

subsection \<open>Stamps and the names of runs\<close>

definition stamp_text :: "civil_time \<Rightarrow> string" where
  "stamp_text c =
     pad_zero 4 (dec (cv_year c)) @ pad_zero 2 (dec (cv_month c)) @ pad_zero 2 (dec (cv_day c)) @ ''T''
     @ pad_zero 2 (dec (cv_hour c)) @ pad_zero 2 (dec (cv_minute c)) @ pad_zero 2 (dec (cv_second c))
     @ pad_zero 3 (dec (cv_millisecond c)) @ ''Z''"

lemma field_widths:
  assumes "civil_in_range c"
  shows "length (pad_zero 4 (dec (cv_year c))) = 4" and "length (pad_zero 2 (dec (cv_month c))) = 2"
    and "length (pad_zero 2 (dec (cv_day c))) = 2" and "length (pad_zero 2 (dec (cv_hour c))) = 2"
    and "length (pad_zero 2 (dec (cv_minute c))) = 2" and "length (pad_zero 2 (dec (cv_second c))) = 2"
    and "length (pad_zero 3 (dec (cv_millisecond c))) = 3"
  using assms by (auto simp: civil_in_range_def intro!: length_pad_zero)

lemma stamp_less_iff:
  assumes "civil_in_range c" and "civil_in_range d"
  shows "stamp_text c < stamp_text d \<longleftrightarrow> civil_key c < civil_key d"
  using assms
  by (simp add: stamp_text_def civil_key_def append_less_append field_widths)
    (simp add: civil_in_range_def pad_zero_less_iff)

lemma stamp_shape:
  assumes "civil_in_range c"
  shows "length (stamp_text c) = 19" and "suffix ''Z'' (stamp_text c)"
    and "take 1 (drop 8 (stamp_text c)) = ''T''" and "CHR ''-'' \<notin> set (stamp_text c)"
    and "CHR ''/'' \<notin> set (stamp_text c)" and "is_ascii (stamp_text c)"
proof -
  note digit = pad_zero_digits [unfolded list_all_iff ascii_digit_def, rule_format]
  show "length (stamp_text c) = 19" "take 1 (drop 8 (stamp_text c)) = ''T''"
    using field_widths [OF assms] by (simp_all add: stamp_text_def)
  show "suffix ''Z'' (stamp_text c)" by (simp add: stamp_text_def suffix_def)
  show "CHR ''-'' \<notin> set (stamp_text c)" "CHR ''/'' \<notin> set (stamp_text c)"
    by (auto simp: stamp_text_def byte_def dest: digit)
  show "is_ascii (stamp_text c)"
    by (auto simp: stamp_text_def is_ascii_def list_all_iff byte_def dest!: digit)
qed

lemma compact_utc_text: "writes_stamps fm civil T \<Longrightarrow> t \<in> T \<Longrightarrow> compact_utc fm t = stamp_text (civil t)"
  by (simp add: compact_utc_def writes_stamps_def stamp_text_def)

lemma run_name_text:
  "writes_stamps fm civil T \<Longrightarrow> t \<in> T \<Longrightarrow> run_name fm t pid = stamp_text (civil t) @ ''-'' @ dec pid"
  by (simp add: run_name_def compact_utc_text)

lemma calendar_range: "calendar_on civil T \<Longrightarrow> t \<in> T \<Longrightarrow> civil_in_range (civil t)"
  unfolding calendar_on_def by blast

lemma calendar_less: "calendar_on civil T \<Longrightarrow> s \<in> T \<Longrightarrow> t \<in> T \<Longrightarrow> millisecond s < millisecond t
    \<Longrightarrow> civil_key (civil s) < civil_key (civil t)"
  unfolding calendar_on_def by blast

lemma calendar_same: "calendar_on civil T \<Longrightarrow> s \<in> T \<Longrightarrow> t \<in> T \<Longrightarrow> millisecond s = millisecond t
    \<Longrightarrow> civil s = civil t"
  unfolding calendar_on_def by blast

lemma dec_shape: "dec n \<noteq> []" "list_all ascii_digit (dec n)" "is_ascii (dec n)" "CHR ''/'' \<notin> set (dec n)"
  using dec_digits [of n] by (auto simp: is_ascii_def list_all_iff ascii_digit_def byte_def)

lemma run_name_shape:
  assumes "writes_stamps fm civil T" and "calendar_on civil T" and "t \<in> T"
  shows "is_run_name (run_name fm t pid)" and "utf8_lossy (run_name fm t pid) = run_name fm t pid"
    and "CHR ''/'' \<notin> set (run_name fm t pid)" and "19 < length (run_name fm t pid)"
proof -
  note named = run_name_text [OF assms(1,3)] stamp_shape [OF calendar_range [OF assms(2,3)]] dec_shape [of pid]
  show "is_run_name (run_name fm t pid)" using named by (simp add: is_run_name_def)
  have "is_ascii (run_name fm t pid)" using named by (simp add: is_ascii_def byte_def)
  then show "utf8_lossy (run_name fm t pid) = run_name fm t pid"
    by (intro utf8_lossy_valid valid_utf8_ascii)
  show "CHR ''/'' \<notin> set (run_name fm t pid)" using named by simp
  show "19 < length (run_name fm t pid)" using named by simp
qed

text \<open>A run that began at a later millisecond has a larger name, and two runs have the same name exactly
  when they began within the same millisecond in the same process.\<close>

lemma run_name_less:
  assumes "writes_stamps fm civil T" and "calendar_on civil T" and "s \<in> T" and "t \<in> T"
    and "millisecond s < millisecond t"
  shows "run_name fm s p < run_name fm t q"
proof -
  have "stamp_text (civil s) < stamp_text (civil t)"
    using calendar_less [OF assms(2-5)] assms(2-4) by (simp add: stamp_less_iff calendar_range)
  moreover have "length (stamp_text (civil s)) = length (stamp_text (civil t))"
    using assms(2-4) by (simp add: stamp_shape(1) calendar_range)
  ultimately show ?thesis
    by (simp add: run_name_text [OF assms(1)] assms(3,4) append_less_append)
qed

lemma run_name_eq_iff:
  assumes "writes_stamps fm civil T" and "calendar_on civil T" and "s \<in> T" and "t \<in> T"
  shows "run_name fm s p = run_name fm t q \<longleftrightarrow> millisecond s = millisecond t \<and> p = q"
proof (cases "millisecond s = millisecond t")
  case True
  then have same: "civil s = civil t" using assms calendar_same by blast
  have "dec p = dec q \<longleftrightarrow> p = q" by (metis undec_dec)
  then show ?thesis using True by (simp add: run_name_text [OF assms(1)] assms(3,4) same)
next
  case False
  then have "millisecond s < millisecond t \<or> millisecond t < millisecond s" by linarith
  then have "run_name fm s p < run_name fm t q \<or> run_name fm t q < run_name fm s p"
    using run_name_less [OF assms] run_name_less [OF assms(1,2,4,3)] by blast
  then show ?thesis using False by auto
qed

subsection \<open>The sweep of the runs that began first\<close>

text \<open>The directory of the runs, each begun at a time by a process, as the sweep reads it.\<close>

definition run_entries :: "formats \<Rightarrow> (instant \<times> nat) list \<Rightarrow> entry list" where
  "run_entries fm runs = map (\<lambda>(t, pid). Inr (run_name fm t pid, Inr True)) runs"

lemma runs_in_entries:
  assumes "writes_stamps fm civil T" and "calendar_on civil T" and "fst ` set runs \<subseteq> T"
  shows "runs_in (run_entries fm runs) = Inr (map (\<lambda>(t, pid). run_name fm t pid) runs)"
  using assms(3)
  by (induction runs) (auto simp: run_entries_def run_name_shape [OF assms(1,2)])

lemma length_filter_mono: "(\<And>x. x \<in> set xs \<Longrightarrow> P x \<Longrightarrow> Q x) \<Longrightarrow> length (filter P xs) \<le> length (filter Q xs)"
  by (induction xs) (auto simp: le_Suc_eq)

lemma length_filter_strict:
  assumes "x \<in> set xs" and "Q x" and "\<not> P x" and "\<And>y. y \<in> set xs \<Longrightarrow> P y \<Longrightarrow> Q y"
  shows "length (filter P xs) < length (filter Q xs)"
proof -
  have "filter P xs = filter P (filter Q xs)" using assms(4) by (auto intro: filter_cong)
  then show ?thesis using length_filter_less [of x "filter Q xs" P] assms(1-3) by simp
qed

lemma sweep_by_age:
  assumes "writes_stamps fm civil T" and "calendar_on civil T" and "fst ` set runs \<subseteq> T"
    and "distinct (map (\<lambda>(t, pid). run_name fm t pid) runs)" and "0 < keep"
    and "prune removable (Inr (run_entries fm runs)) keep = (Inr gone, removed)" and "(s, p) \<in> set runs"
  shows "run_name fm s p \<in> set removed \<Longrightarrow> removable (run_name fm s p)"
    and "run_name fm s p \<in> set removed \<Longrightarrow>
      keep < length (filter (\<lambda>(t, _). millisecond s \<le> millisecond t) runs)"
    and "removable (run_name fm s p) \<Longrightarrow>
      keep \<le> length (filter (\<lambda>(t, _). millisecond s < millisecond t) runs) \<Longrightarrow> run_name fm s p \<in> set removed"
proof -
  let ?name = "\<lambda>(t, pid). run_name fm t pid"
  have T: "t \<in> T" if "(t, q) \<in> set runs" for t q using assms(3) that by force
  have "run_name fm s p \<in> set (map ?name runs)" using assms(7) by force
  then have removed: "run_name fm s p \<in> set removed \<longleftrightarrow> removable (run_name fm s p)
      \<and> keep < length (filter (\<lambda>r. run_name fm s p \<le> ?name r) runs)"
    using prune_keeps_the_newest [OF assms(6,5) runs_in_entries [OF assms(1-3)] assms(4)]
    by (auto simp: filter_map comp_def)
  have older: "run_name fm s p \<le> run_name fm t q \<Longrightarrow> millisecond s \<le> millisecond t"
    and younger: "millisecond s < millisecond t \<Longrightarrow> run_name fm s p \<le> run_name fm t q"
    if "(t, q) \<in> set runs" for t q
    using run_name_less [OF assms(1,2) T [OF that] T [OF assms(7)], of q p]
      run_name_less [OF assms(1,2) T [OF assms(7)] T [OF that], of p q] by force+
  have "length (filter (\<lambda>r. run_name fm s p \<le> ?name r) runs)
      \<le> length (filter (\<lambda>(t, _). millisecond s \<le> millisecond t) runs)"
    by (rule length_filter_mono) (use older in auto)
  moreover have "length (filter (\<lambda>(t, _). millisecond s < millisecond t) runs)
      < length (filter (\<lambda>r. run_name fm s p \<le> ?name r) runs)"
    by (rule length_filter_strict [OF assms(7)]) (use younger in auto)
  ultimately show "run_name fm s p \<in> set removed \<Longrightarrow> removable (run_name fm s p)"
    "run_name fm s p \<in> set removed \<Longrightarrow> keep < length (filter (\<lambda>(t, _). millisecond s \<le> millisecond t) runs)"
    "removable (run_name fm s p) \<Longrightarrow> keep \<le> length (filter (\<lambda>(t, _). millisecond s < millisecond t) runs)
      \<Longrightarrow> run_name fm s p \<in> set removed"
    using removed by auto
qed

text \<open>C23. A sweep goes by the age of the runs: it removes a run only if more than \<open>keep\<close> runs, itself
  counted, began no earlier, and it does remove a run that can be removed if \<open>keep\<close> runs began at a later
  millisecond.\<close>

theorem sweep_goes_by_age:
  assumes "writes_stamps fm civil T" and "calendar_on civil T" and "fst ` set runs \<subseteq> T"
    and "distinct (map (\<lambda>(t, pid). run_name fm t pid) runs)" and "0 < keep"
    and "prune removable (Inr (run_entries fm runs)) keep = (Inr gone, removed)" and "(s, p) \<in> set runs"
  shows "(run_name fm s p \<in> set removed \<longrightarrow> removable (run_name fm s p)
      \<and> keep < length (filter (\<lambda>(t, _). millisecond s \<le> millisecond t) runs))
    \<and> (removable (run_name fm s p) \<and> keep \<le> length (filter (\<lambda>(t, _). millisecond s < millisecond t) runs)
      \<longrightarrow> run_name fm s p \<in> set removed)"
  using sweep_by_age [OF assms] by blast

text \<open>Concrete dates of September 2026, counted from the last day of August, and three runs of a process.\<close>

definition demo_civil :: "instant \<Rightarrow> civil_time" where
  "demo_civil t =
     (let ms = millisecond t mod 86400000 in
      \<lparr>cv_year = 2026, cv_month = 9, cv_day = nat (millisecond t div 86400000), cv_hour = nat (ms div 3600000),
       cv_minute = nat (ms mod 3600000 div 60000), cv_second = nat (ms mod 60000 div 1000),
       cv_millisecond = nat (ms mod 1000)\<rparr>)"

definition demo_stamps :: formats where
  "demo_stamps = demo_formats\<lparr>f_format := (\<lambda>t _. stamp_text (demo_civil t))\<rparr>"

definition demo_fires :: "instant set" where
  "demo_fires = {702000000000000, 788400000000000, 874800000000000}"

definition demo_runs :: "(instant \<times> nat) list" where
  "demo_runs = [(788400000000000, 2), (702000000000000, 1), (874800000000000, 2)]"

lemma demo_writes_stamps: "writes_stamps demo_stamps demo_civil T"
  by (simp add: writes_stamps_def demo_stamps_def stamp_text_def)

lemma demo_dates:
  "demo_civil 702000000000000 = \<lparr>cv_year = 2026, cv_month = 9, cv_day = 8, cv_hour = 3, cv_minute = 0,
     cv_second = 0, cv_millisecond = 0\<rparr>"
  "demo_civil 788400000000000 = \<lparr>cv_year = 2026, cv_month = 9, cv_day = 9, cv_hour = 3, cv_minute = 0,
     cv_second = 0, cv_millisecond = 0\<rparr>"
  "demo_civil 874800000000000 = \<lparr>cv_year = 2026, cv_month = 9, cv_day = 10, cv_hour = 3, cv_minute = 0,
     cv_second = 0, cv_millisecond = 0\<rparr>"
  by (simp_all add: demo_civil_def millisecond_def)

lemma demo_calendar: "calendar_on demo_civil demo_fires"
  by (simp only: calendar_on_def demo_fires_def ball_simps)
    (simp add: demo_dates millisecond_def civil_in_range_def civil_key_def)

lemma demo_names_distinct: "distinct (map (\<lambda>(t, pid). run_name demo_stamps t pid) demo_runs)"
  using run_name_eq_iff [OF demo_writes_stamps demo_calendar]
  by (simp add: demo_runs_def demo_fires_def millisecond_def)

theorem sweep_goes_by_age_witness:
  "run_name demo_stamps 702000000000000 1
     \<in> set (snd (prune (\<lambda>_. True) (Inr (run_entries demo_stamps demo_runs)) 2))"
proof -
  have fires: "fst ` set demo_runs \<subseteq> demo_fires" by (simp add: demo_runs_def demo_fires_def)
  obtain gone removed where swept:
    "prune (\<lambda>_. True) (Inr (run_entries demo_stamps demo_runs)) 2 = (Inr gone, removed)"
    by (simp add: prune_def runs_in_entries [OF demo_writes_stamps demo_calendar fires] Let_def)
      (simp add: demo_runs_def)
  have "(702000000000000, 1) \<in> set demo_runs"
    "2 \<le> length (filter (\<lambda>(t, _). millisecond 702000000000000 < millisecond t) demo_runs)"
    by (simp_all add: demo_runs_def millisecond_def)
  then show ?thesis
    using sweep_goes_by_age [OF demo_writes_stamps demo_calendar fires demo_names_distinct _ swept] swept by auto
qed

subsection \<open>The directory of a run\<close>

lemma file_name_join:
  assumes "base \<noteq> []" and "last base \<noteq> CHR ''/''" and "CHR ''/'' \<notin> set name"
    and "name \<notin> {[], ''.'', ''..''}"
  shows "file_name (path_join base name) = Some name"
proof -
  have "path_join base name = base @ ''/'' @ name"
    using assms by (cases name) (simp_all add: path_join_def is_absolute_def)
  then have "components (path_join base name) = components base @ [Normal name]"
    using assms by (simp add: components_snoc_slash component_of_def del: append_Cons)
  then show ?thesis by (simp add: file_name_def)
qed

lemma created_directory:
  "RunLog_create fm lf started pid arguments root target working_directory = Inr log \<Longrightarrow>
    \<exists>base. rl_directory log = path_join (path_join base RUNS) (run_name fm started pid)"
  by (auto simp: RunLog_create_def Let_def and_then_Inr_iff split: option.splits)

lemma runs_directory: "path_join base RUNS \<noteq> []" "last (path_join base RUNS) \<noteq> CHR ''/''"
  by (simp_all add: path_join_def RUNS_def is_absolute_def)

lemma execute_directory:
  assumes "execute fm lf clock arrivals pid arguments elapsed out run = (outcome, p)"
    and "ro_directory outcome = Some d" and "writes_stamps fm civil T" and "calendar_on civil T" and "clock 0 \<in> T"
  shows "d = run_name fm (clock 0) pid"
proof -
  obtain log target where created: "RunLog_create fm lf (clock 0) pid arguments (Some (run_log_directory run))
      target (run_working_directory run) = Inr log" and d: "map_option utf8_lossy (file_name (rl_directory log)) = Some d"
    using assms(1,2)
    by (auto simp: execute_def run_failure_def OpenLog_open_def Let_def split: sum.splits prod.splits)
  note shape = run_name_shape [OF assms(3-5), of pid]
  have "run_name fm (clock 0) pid \<notin> {[], ''.'', ''..''}" using shape(4) by auto
  then show ?thesis
    using d created_directory [OF created] shape(2,3) file_name_join [OF runs_directory] by fastforce
qed

text \<open>C24. Two runs of a daemon have the same directory exactly when they began within the same millisecond:
  the name of a run has the time to the millisecond and the process, and nothing makes it unique.\<close>

theorem runs_share_directory_iff:
  assumes "execute fm lf clock arrivals pid arguments elapsed out run = (outcome, p)"
    and "execute fm lf' clock' arrivals' pid arguments elapsed' out run' = (outcome', p')"
    and "ro_directory outcome = Some d" and "ro_directory outcome' = Some d'"
    and "writes_stamps fm civil T" and "calendar_on civil T" and "{clock 0, clock' 0} \<subseteq> T"
  shows "d = d' \<longleftrightarrow> millisecond (clock 0) = millisecond (clock' 0)"
proof -
  have "d = run_name fm (clock 0) pid" "d' = run_name fm (clock' 0) pid"
    using execute_directory [OF assms(1,3,5,6)] execute_directory [OF assms(2,4-6)] assms(7) by auto
  then show ?thesis using run_name_eq_iff [OF assms(5,6)] assms(7) by auto
qed

text \<open>A second run that begins a microsecond after the first writes into the directory of the first.\<close>

definition demo_instants :: "instant set" where
  "demo_instants = {702000000000000, 702000000001000}"

lemma demo_instants_calendar: "calendar_on demo_civil demo_instants"
proof -
  have "demo_civil 702000000001000 = demo_civil 702000000000000" by (simp add: demo_civil_def millisecond_def)
  then show ?thesis
    by (simp only: calendar_on_def demo_instants_def ball_simps)
      (simp add: demo_dates millisecond_def civil_in_range_def)
qed

lemma demo_directory:
  "\<exists>outcome p d. execute demo_stamps demo_files (\<lambda>_. t) all_succeed 7 [] 0 demo_outside demo_job_run = (outcome, p)
     \<and> ro_directory outcome = Some d" if "t \<in> demo_instants"
proof -
  obtain m where loaded: "load_manifest demo_outside (run_manifest demo_job_run) = Inr m"
    using demo_execute_run by blast
  note shape = run_name_shape [OF demo_writes_stamps demo_instants_calendar that, of 7]
  have "run_name demo_stamps t 7 \<notin> {[], ''.'', ''..''}" using shape(4) by auto
  then have "file_name (path_join (path_join base RUNS) (run_name demo_stamps t 7)) = Some (run_name demo_stamps t 7)"
    for base by (rule file_name_join [OF runs_directory shape(3)])
  moreover have "traverse (open_task (\<lambda>_. None) directory) rs = Inr (map (\<lambda>r. \<lparr>tg_stdout = [], tg_stderr = [], tg_record = r\<rparr>) rs)"
    for directory rs by (induction rs) (simp_all add: open_task_def)
  ultimately show ?thesis
    by (simp add: execute_def loaded OpenLog_open_def RunLog_create_def demo_files_def Let_def split: prod.split)
qed

theorem runs_share_directory_iff_witness:
  "ro_directory (fst (execute demo_stamps demo_files (\<lambda>_. 702000000000000) all_succeed 7 [] 0 demo_outside demo_job_run))
   = ro_directory (fst (execute demo_stamps demo_files (\<lambda>_. 702000000001000) all_succeed 7 [] 0 demo_outside demo_job_run))"
proof -
  obtain o1 p1 d1 where first:
    "execute demo_stamps demo_files (\<lambda>_. 702000000000000) all_succeed 7 [] 0 demo_outside demo_job_run = (o1, p1)"
    "ro_directory o1 = Some d1"
    using demo_directory [of 702000000000000] by (auto simp: demo_instants_def)
  obtain o2 p2 d2 where second:
    "execute demo_stamps demo_files (\<lambda>_. 702000000001000) all_succeed 7 [] 0 demo_outside demo_job_run = (o2, p2)"
    "ro_directory o2 = Some d2"
    using demo_directory [of 702000000001000] by (auto simp: demo_instants_def)
  have "d1 = d2"
    using runs_share_directory_iff [OF first(1) second(1) first(2) second(2) demo_writes_stamps
        demo_instants_calendar] by (simp add: demo_instants_def millisecond_def)
  then show ?thesis by (simp add: first second)
qed

end
