(* ===== verification/Masks.thy ===== *)
theory Masks
  imports Bubblewrap
begin

text \<open>
  \<open>MaskPlan::hold\<close>, \<open>mark_in_use\<close>, \<open>remove_dead_markers\<close> and the drop of \<open>HeldMasks\<close> in
  \<open>beez-sandbox/src/bubblewrap.rs\<close>: runs that share a working directory create, mark, keep and give back
  the same directories. A step of \<open>mask_step\<close> is one call of the file system by one run, so the steps of
  different runs interleave freely. Paths are their components. \<open>alive\<close> holds the processes that run.
\<close>

subsection \<open>Files\<close>

record mask_files =
  mf_dirs :: "component list set"
  mf_files :: "component list set"

definition create_dir_all :: "component list \<Rightarrow> mask_files \<Rightarrow> mask_files" where
  "create_dir_all d fs = fs\<lparr>mf_dirs := mf_dirs fs \<union> {p. prefix p d}\<rparr>"

definition write_file :: "component list \<Rightarrow> mask_files \<Rightarrow> mask_files" where
  "write_file f fs = fs\<lparr>mf_files := insert f (mf_files fs)\<rparr>"

definition remove_file :: "component list \<Rightarrow> mask_files \<Rightarrow> mask_files" where
  "remove_file f fs = fs\<lparr>mf_files := mf_files fs - {f}\<rparr>"

definition empty_dir :: "component list \<Rightarrow> mask_files \<Rightarrow> bool" where
  "empty_dir d fs \<longleftrightarrow> (\<forall>p\<in>mf_dirs fs \<union> mf_files fs. p = [] \<or> butlast p \<noteq> d)"

definition remove_dir :: "component list \<Rightarrow> mask_files \<Rightarrow> mask_files" where
  "remove_dir d fs = (if empty_dir d fs then fs\<lparr>mf_dirs := mf_dirs fs - {d}\<rparr> else fs)"

text \<open>Every entry lies in a directory.\<close>

definition tree :: "mask_files \<Rightarrow> bool" where
  "tree fs \<longleftrightarrow> (\<forall>p\<in>mf_dirs fs \<union> mf_files fs. p \<noteq> [] \<longrightarrow> butlast p \<in> mf_dirs fs)"

subsection \<open>Runs\<close>

definition MARK_ATTEMPTS :: nat where "MARK_ATTEMPTS = 4"

definition marker :: "component list \<Rightarrow> string \<Rightarrow> component list" where
  "marker d name = d @ [Normal name]"

definition marker_name :: "nat \<Rightarrow> nat \<Rightarrow> string" where
  "marker_name pid sequence = MARKER_PREFIX @ dec pid @ ''-'' @ dec sequence"

definition marker_owner :: "string \<Rightarrow> string" where
  "marker_owner name = takeWhile (\<lambda>c. c \<noteq> CHR ''-'') (drop (length MARKER_PREFIX) name)"

text \<open>
  The directories a run marked, in the order of its markers, and those it gives back, which are the same
  with the deepest first for each mask. What a run does: it takes the next mask, creates its directories with some attempts left, marks them
  from the outermost, sweeps dead markers, runs, and then removes its markers and its directories.
\<close>

datatype activity =
    NextMask
  | Creating nat "component list list"
  | Marking nat "component list list" "component list list" "component list list"
  | Sweeping "component list list"
  | RunningSandbox
  | Unmarking "component list list"
  | Removing "component list list"
  | Ended

record mask_run =
  mr_name :: string
  mr_left :: "component list list list"
  mr_markers :: "component list list"
  mr_held :: "component list list"
  mr_activity :: activity

type_synonym mask_state = "mask_files \<times> mask_run list"

definition new_mask_run :: "string \<Rightarrow> component list list list \<Rightarrow> mask_run" where
  "new_mask_run name plan = \<lparr>mr_name = name, mr_left = plan, mr_markers = [], mr_held = [], mr_activity = NextMask\<rparr>"

definition dead_marker :: "string set \<Rightarrow> component list \<Rightarrow> bool" where
  "dead_marker alive f \<longleftrightarrow>
     (\<exists>d name. f = marker d name \<and> prefix MARKER_PREFIX name \<and> marker_owner name \<notin> alive)"

inductive hold_step :: "mask_files \<Rightarrow> mask_run \<Rightarrow> mask_files \<Rightarrow> mask_run \<Rightarrow> bool" where
  next_mask: "mr_activity r = NextMask \<Longrightarrow> mr_left r = ds # rest \<Longrightarrow> ds \<noteq> [] \<Longrightarrow>
    hold_step fs r fs (r\<lparr>mr_left := rest, mr_activity := Creating MARK_ATTEMPTS ds\<rparr>)"
| all_masks: "mr_activity r = NextMask \<Longrightarrow> mr_left r = [] \<Longrightarrow>
    hold_step fs r fs (r\<lparr>mr_activity := RunningSandbox\<rparr>)"

inductive mark_step :: "mask_files \<Rightarrow> mask_run \<Rightarrow> mask_files \<Rightarrow> mask_run \<Rightarrow> bool" where
  created: "mr_activity r = Creating (Suc k) ds \<Longrightarrow> (\<And>p. prefix p (hd ds) \<Longrightarrow> p \<notin> mf_files fs) \<Longrightarrow>
    mark_step fs r (create_dir_all (hd ds) fs) (r\<lparr>mr_activity := Marking k ds [] (rev ds)\<rparr>)"
| not_created: "mr_activity r = Creating k ds \<Longrightarrow> mark_step fs r fs (r\<lparr>mr_activity := NextMask\<rparr>)"
| marked: "mr_activity r = Marking k ds got (d # todo) \<Longrightarrow> d \<in> mf_dirs fs \<Longrightarrow>
    mark_step fs r (write_file (marker d (mr_name r)) fs)
      (r\<lparr>mr_activity := Marking k ds (got @ [d]) todo\<rparr>)"
| not_marked: "mr_activity r = Marking k ds got (d # todo) \<Longrightarrow>
    mark_step fs r fs (r\<lparr>mr_activity := Creating k ds\<rparr>)"
| all_marked: "mr_activity r = Marking k ds got [] \<Longrightarrow>
    mark_step fs r fs (r\<lparr>mr_markers := mr_markers r @ got, mr_held := mr_held r @ ds, mr_activity := Sweeping ds\<rparr>)"

inductive sweep_step :: "string set \<Rightarrow> mask_files \<Rightarrow> mask_run \<Rightarrow> mask_files \<Rightarrow> mask_run \<Rightarrow> bool" for alive where
  sweep: "mr_activity r = Sweeping ds \<Longrightarrow> dead_marker alive f \<Longrightarrow> butlast f \<in> set ds \<Longrightarrow>
    sweep_step alive fs r (remove_file f fs) r"
| swept: "mr_activity r = Sweeping ds \<Longrightarrow> sweep_step alive fs r fs (r\<lparr>mr_activity := NextMask\<rparr>)"

inductive drop_step :: "mask_files \<Rightarrow> mask_run \<Rightarrow> mask_files \<Rightarrow> mask_run \<Rightarrow> bool" where
  ends: "mr_activity r = RunningSandbox \<Longrightarrow>
    drop_step fs r fs (r\<lparr>mr_activity := Unmarking (mr_markers r)\<rparr>)"
| unmark: "mr_activity r = Unmarking (d # todo) \<Longrightarrow>
    drop_step fs r (remove_file (marker d (mr_name r)) fs) (r\<lparr>mr_activity := Unmarking todo\<rparr>)"
| unmarked: "mr_activity r = Unmarking [] \<Longrightarrow>
    drop_step fs r fs (r\<lparr>mr_activity := Removing (mr_held r)\<rparr>)"
| remove: "mr_activity r = Removing (d # todo) \<Longrightarrow>
    drop_step fs r (remove_dir d fs) (r\<lparr>mr_activity := Removing todo\<rparr>)"
| removed: "mr_activity r = Removing [] \<Longrightarrow> drop_step fs r fs (r\<lparr>mr_activity := Ended\<rparr>)"

definition run_step :: "string set \<Rightarrow> mask_files \<Rightarrow> mask_run \<Rightarrow> mask_files \<Rightarrow> mask_run \<Rightarrow> bool" where
  "run_step alive fs r fs' r' \<longleftrightarrow>
     hold_step fs r fs' r' \<or> mark_step fs r fs' r' \<or> sweep_step alive fs r fs' r' \<or> drop_step fs r fs' r'"

inductive mask_step :: "string set \<Rightarrow> mask_state \<Rightarrow> mask_state \<Rightarrow> bool" for alive where
  "i < length runs \<Longrightarrow> run_step alive fs (runs ! i) fs' r' \<Longrightarrow>
     mask_step alive (fs, runs) (fs', runs[i := r'])"

inductive mask_reachable :: "string set \<Rightarrow> mask_state \<Rightarrow> mask_state \<Rightarrow> bool" for alive s0 where
  start: "mask_reachable alive s0 s0"
| step: "mask_reachable alive s0 s \<Longrightarrow> mask_step alive s s' \<Longrightarrow> mask_reachable alive s0 s'"

subsection \<open>What a run relies on\<close>

text \<open>The directories a run has marked and still needs.\<close>

definition needed :: "mask_run \<Rightarrow> component list set" where
  "needed r =
     (case mr_activity r of
        Marking k ds got todo \<Rightarrow> set (mr_held r) \<union> set got
      | Unmarking todo \<Rightarrow> {}
      | Removing todo \<Rightarrow> {}
      | Ended \<Rightarrow> {}
      | _ \<Rightarrow> set (mr_held r))"

definition well_named :: "string set \<Rightarrow> mask_run list \<Rightarrow> bool" where
  "well_named alive runs \<longleftrightarrow>
     distinct (map mr_name runs) \<and> (\<forall>r\<in>set runs. marker_owner (mr_name r) \<in> alive)"

definition marks :: "mask_files \<Rightarrow> mask_run \<Rightarrow> bool" where
  "marks fs r \<longleftrightarrow>
     (\<forall>d\<in>needed r. marker d (mr_name r) \<in> mf_files fs)
     \<and> (case mr_activity r of Marking k ds got todo \<Rightarrow> set ds = set got \<union> set todo | _ \<Rightarrow> True)"

lemma marker_inj [simp]: "marker d name = marker d' name' \<longleftrightarrow> d = d' \<and> name = name'"
  by (auto simp: marker_def)

lemma tree_steps:
  assumes "tree fs"
  shows "tree (create_dir_all d fs)" and "butlast f \<in> mf_dirs fs \<Longrightarrow> tree (write_file f fs)"
    and "tree (remove_file f fs)" and "tree (remove_dir d fs)"
proof -
  have "butlast p \<in> mf_dirs fs \<union> {p. prefix p d}" if "prefix p d" for p
    using that by (metis UnI2 append_butlast_last_id butlast.simps(1) mem_Collect_eq prefix_order.trans prefixI)
  then show "tree (create_dir_all d fs)" using assms by (auto simp: tree_def create_dir_all_def)
  show "tree (write_file f fs)" if "butlast f \<in> mf_dirs fs" using assms that by (auto simp: tree_def write_file_def)
  show "tree (remove_file f fs)" using assms by (auto simp: tree_def remove_file_def)
  show "tree (remove_dir d fs)" using assms by (auto simp: tree_def remove_dir_def empty_dir_def)
qed

text \<open>A step keeps the tree, the name of its run, what its run relies on, and every marker of another
  living run.\<close>

definition keeps :: "string set \<Rightarrow> mask_files \<Rightarrow> mask_run \<Rightarrow> mask_files \<Rightarrow> mask_run \<Rightarrow> bool" where
  "keeps alive fs r fs' r' \<longleftrightarrow>
     (tree fs \<and> marks fs r \<and> marker_owner (mr_name r) \<in> alive \<longrightarrow>
        tree fs' \<and> mr_name r' = mr_name r \<and> marks fs' r'
        \<and> (\<forall>d name. name \<noteq> mr_name r \<longrightarrow> marker_owner name \<in> alive \<longrightarrow> marker d name \<in> mf_files fs
             \<longrightarrow> marker d name \<in> mf_files fs'))"

lemma hold_step_keeps: "hold_step fs r fs' r' \<Longrightarrow> keeps alive fs r fs' r'"
  by (cases rule: hold_step.cases) (auto simp: keeps_def marks_def needed_def)

lemma mark_step_keeps:
  assumes "mark_step fs r fs' r'"
  shows "keeps alive fs r fs' r'"
  using assms
proof cases
  case (created k ds)
  then show ?thesis using tree_steps(1)
    by (auto simp: keeps_def marks_def needed_def create_dir_all_def)
next
  case (marked k ds got d todo)
  then show ?thesis
    by (auto simp: keeps_def marks_def needed_def write_file_def tree_def marker_def)
qed (auto simp: keeps_def marks_def needed_def)

lemma sweep_step_keeps:
  assumes "sweep_step alive fs r fs' r'"
  shows "keeps alive fs r fs' r'"
  using assms
proof cases
  case (sweep ds f)
  then show ?thesis using tree_steps(3)
    by (auto simp: keeps_def marks_def remove_file_def dead_marker_def)
qed (auto simp: keeps_def marks_def needed_def)

lemma drop_step_keeps:
  assumes "drop_step fs r fs' r'"
  shows "keeps alive fs r fs' r'"
  using assms
proof cases
  case (unmark d todo)
  then show ?thesis using tree_steps(3)
    by (auto simp: keeps_def marks_def needed_def remove_file_def)
next
  case (remove d todo)
  then show ?thesis using tree_steps(4)
    by (auto simp: keeps_def marks_def needed_def remove_dir_def)
qed (auto simp: keeps_def marks_def needed_def)

lemma run_step_keeps:
  assumes "run_step alive fs r fs' r'" and "tree fs" and "marks fs r" and "marker_owner (mr_name r) \<in> alive"
  shows "tree fs' \<and> mr_name r' = mr_name r \<and> marks fs' r'
    \<and> (\<forall>d name. name \<noteq> mr_name r \<longrightarrow> marker_owner name \<in> alive \<longrightarrow> marker d name \<in> mf_files fs
         \<longrightarrow> marker d name \<in> mf_files fs')"
proof -
  have "keeps alive fs r fs' r'"
    using assms(1) hold_step_keeps mark_step_keeps sweep_step_keeps drop_step_keeps unfolding run_step_def by blast
  then show ?thesis using assms(2-4) unfolding keeps_def by blast
qed

definition mask_inv :: "string set \<Rightarrow> mask_state \<Rightarrow> bool" where
  "mask_inv alive s \<longleftrightarrow>
     (case s of (fs, runs) \<Rightarrow> tree fs \<and> well_named alive runs \<and> (\<forall>r\<in>set runs. marks fs r))"

lemma marks_mono:
  "marks fs r \<Longrightarrow> (\<And>d. marker d (mr_name r) \<in> mf_files fs \<Longrightarrow> marker d (mr_name r) \<in> mf_files fs')
     \<Longrightarrow> marks fs' r"
  by (auto simp: marks_def)

lemma mask_step_inv:
  assumes "mask_step alive s s'" and "mask_inv alive s"
  shows "mask_inv alive s'"
  using assms
proof cases
  case (1 i runs fs fs' r')
  let ?r = "runs ! i"
  from assms(2) 1 have inv: "tree fs" "well_named alive runs" "\<forall>r\<in>set runs. marks fs r"
    by (auto simp: mask_inv_def)
  have r: "?r \<in> set runs" using 1 by simp
  then have keep: "tree fs'" "mr_name r' = mr_name ?r" "marks fs' r'"
    "\<And>d name. name \<noteq> mr_name ?r \<Longrightarrow> marker_owner name \<in> alive \<Longrightarrow> marker d name \<in> mf_files fs
         \<Longrightarrow> marker d name \<in> mf_files fs'"
    using run_step_keeps [of alive fs ?r fs' r'] inv 1 by (auto simp: well_named_def)
  have names: "map mr_name (runs[i := r']) = map mr_name runs"
    using keep(2) 1 by (simp add: map_update list_update_same_conv)
  have "marks fs' (runs[i := r'] ! j)" if "j < length runs" for j
  proof (cases "j = i")
    case False
    then have "mr_name (runs ! j) \<noteq> mr_name ?r"
      using inv(2) that 1 nth_eq_iff_index_eq [of "map mr_name runs" j i] by (auto simp: well_named_def)
    moreover have "marker_owner (mr_name (runs ! j)) \<in> alive" using inv(2) that by (simp add: well_named_def)
    ultimately have "marks fs' (runs ! j)"
      using marks_mono [of fs "runs ! j" fs'] keep(4) inv(3) that by auto
    then show ?thesis using False by simp
  qed (use keep(3) that in simp)
  then have "\<forall>r\<in>set (runs[i := r']). marks fs' r" by (auto simp: in_set_conv_nth)
  moreover have "well_named alive (runs[i := r'])"
  proof -
    have "marker_owner (mr_name r) \<in> alive" if "r \<in> set (runs[i := r'])" for r
    proof -
      have "r = r' \<or> r \<in> set runs" using that set_update_subset_insert by fastforce
      then show ?thesis using inv(2) keep(2) r by (auto simp: well_named_def)
    qed
    then show ?thesis using inv(2) names by (simp add: well_named_def)
  qed
  ultimately show ?thesis using 1 keep(1) by (simp add: mask_inv_def)
qed

lemma mask_reachable_inv: "mask_reachable alive s0 s \<Longrightarrow> mask_inv alive s0 \<Longrightarrow> mask_inv alive s"
  by (induction rule: mask_reachable.induct) (auto intro: mask_step_inv)

text \<open>C29. Runs that share directories and interleave in any way never take a mask away from each other:
  while a sandbox runs, every directory it holds exists and carries its marker.\<close>

theorem held_masks_stay:
  assumes "tree fs0" and "distinct (map fst plans)" and "\<forall>p\<in>set plans. marker_owner (fst p) \<in> alive"
    and "mask_reachable alive (fs0, map (\<lambda>(name, plan). new_mask_run name plan) plans) (fs, runs)"
    and "r \<in> set runs" and "mr_activity r = RunningSandbox" and "d \<in> set (mr_held r)"
  shows "d \<in> mf_dirs fs \<and> marker d (mr_name r) \<in> mf_files fs"
proof -
  let ?runs = "map (\<lambda>(name, plan). new_mask_run name plan) plans"
  have "map mr_name ?runs = map fst plans" by (simp add: new_mask_run_def split_def comp_def)
  then have "distinct (map mr_name ?runs)" using assms(2) by metis
  moreover have "\<forall>r\<in>set ?runs. marker_owner (mr_name r) \<in> alive"
    using assms(3) by (auto simp: new_mask_run_def)
  ultimately have "well_named alive ?runs" unfolding well_named_def by blast
  then have "mask_inv alive (fs0, ?runs)"
    using assms(1) by (auto simp: mask_inv_def marks_def needed_def new_mask_run_def)
  then have "mask_inv alive (fs, runs)" by (rule mask_reachable_inv [OF assms(4)])
  then have marks: "marker d (mr_name r) \<in> mf_files fs" and "tree fs"
    using assms(5-7) by (auto simp: mask_inv_def marks_def needed_def)
  then have "butlast (marker d (mr_name r)) \<in> mf_dirs fs"
    unfolding tree_def by (metis UnI2 marker_def snoc_eq_iff_butlast)
  then show ?thesis using marks by (simp add: marker_def)
qed

text \<open>A run of process 7 that masks \<open>.beez\<close>, missing from an empty file system.\<close>

lemma run_stepI:
  "hold_step fs r fs' r' \<Longrightarrow> run_step alive fs r fs' r'" "mark_step fs r fs' r' \<Longrightarrow> run_step alive fs r fs' r'"
  "sweep_step alive fs r fs' r' \<Longrightarrow> run_step alive fs r fs' r'"
  by (simp_all add: run_step_def)

lemma lone_step:
  "mask_reachable alive s0 (fs, [r]) \<Longrightarrow> run_step alive fs r fs' r' \<Longrightarrow> mask_reachable alive s0 (fs', [r'])"
  using mask_reachable.step [of alive s0 "(fs, [r])" "(fs', [r'])"] mask_step.intros [of 0 "[r]" alive fs fs' r']
  by simp

definition bare_files :: mask_files where "bare_files = \<lparr>mf_dirs = {[]}, mf_files = {}\<rparr>"

lemma lone_run_holds:
  fixes d :: "component list" and name :: string
  assumes "d \<noteq> []"
  shows "mask_reachable alive (bare_files, [new_mask_run name [[d]]])
     (write_file (marker d name) (create_dir_all d bare_files),
      [\<lparr>mr_name = name, mr_left = [], mr_markers = [d], mr_held = [d], mr_activity = RunningSandbox\<rparr>])"
proof -
  let ?r = "new_mask_run name [[d]]" and ?fs = "create_dir_all d bare_files"
  let ?gs = "write_file (marker d name) ?fs"
  let ?m = "?r\<lparr>mr_left := [], mr_activity := Marking 3 [[d] ! 0] [] [d]\<rparr>"
  note start = mask_reachable.start [of alive "(bare_files, [?r])"]
  note s1 = lone_step [OF start run_stepI(1) [OF hold_step.next_mask [of ?r "[d]" "[]"]]]
  have "mask_reachable alive (bare_files, [?r])
      (bare_files, [?r\<lparr>mr_left := [], mr_activity := Creating (Suc 3) [d]\<rparr>])"
    using s1 by (simp add: new_mask_run_def MARK_ATTEMPTS_def)
  from lone_step [OF this run_stepI(2) [OF mark_step.created [of _ 3 "[d]"]]]
  have "mask_reachable alive (bare_files, [?r])
      (?fs, [?r\<lparr>mr_left := [], mr_activity := Marking 3 [d] [] [d]\<rparr>])"
    by (simp add: bare_files_def)
  from lone_step [OF this run_stepI(2) [OF mark_step.marked [of _ 3 "[d]" "[]" d "[]"]]]
  have "mask_reachable alive (bare_files, [?r])
      (?gs, [?r\<lparr>mr_left := [], mr_activity := Marking 3 [d] [d] []\<rparr>])"
    by (simp add: create_dir_all_def new_mask_run_def)
  from lone_step [OF this run_stepI(2) [OF mark_step.all_marked [of _ 3 "[d]" "[d]"]]]
  have "mask_reachable alive (bare_files, [?r])
      (?gs, [?r\<lparr>mr_left := [], mr_markers := [d], mr_held := [d], mr_activity := Sweeping [d]\<rparr>])"
    by (simp add: new_mask_run_def)
  from lone_step [OF this run_stepI(3) [OF sweep_step.swept [of _ "[d]"]]]
  have "mask_reachable alive (bare_files, [?r])
      (?gs, [?r\<lparr>mr_left := [], mr_markers := [d], mr_held := [d], mr_activity := NextMask\<rparr>])"
    by simp
  from lone_step [OF this run_stepI(1) [OF hold_step.all_masks]]
  show ?thesis by (simp add: new_mask_run_def)
qed

lemma dec_no_dash: "c \<in> set (dec n) \<Longrightarrow> c \<noteq> CHR ''-''"
  using dec_digits [of n] by (auto simp: list_all_iff ascii_digit_def byte_def)

lemma marker_owner_of [simp]: "marker_owner (marker_name pid sequence) = dec pid"
proof -
  have "takeWhile (\<lambda>c. c \<noteq> CHR ''-'') (dec pid @ ''-'' @ dec sequence) = dec pid"
    by (subst takeWhile_append2) (auto simp: dec_no_dash)
  then show ?thesis by (simp add: marker_owner_def marker_name_def)
qed

theorem held_masks_stay_witness:
  "[Normal ''.beez''] \<in> mf_dirs (write_file (marker [Normal ''.beez''] (marker_name 7 0))
       (create_dir_all [Normal ''.beez''] bare_files))
   \<and> marker [Normal ''.beez''] (marker_name 7 0)
       \<in> mf_files (write_file (marker [Normal ''.beez''] (marker_name 7 0))
           (create_dir_all [Normal ''.beez''] bare_files))"
proof -
  let ?name = "marker_name 7 0" and ?d = "[Normal ''.beez'']"
  let ?r = "\<lparr>mr_name = ?name, mr_left = [], mr_markers = [?d], mr_held = [?d], mr_activity = RunningSandbox\<rparr>"
  have reach: "mask_reachable {dec 7}
      (bare_files, map (\<lambda>(name, plan). new_mask_run name plan) [(?name, [[?d]])])
      (write_file (marker ?d ?name) (create_dir_all ?d bare_files), [?r])"
    using lone_run_holds [of ?d "{dec 7}" ?name] by simp
  show ?thesis
    using held_masks_stay [OF _ _ _ reach, of ?r ?d] by (simp add: tree_def bare_files_def)
qed

end
