(* ===== verification/Spec2Isabelle.thy ===== *)
theory Spec2Isabelle
  imports Daemon_Board Daemon_Restart Cli_Daemon Denials Relays Log_Root Stamps Masks
begin

text \<open>
  \<^bold>\<open>Beez\<close> runs workflows of tasks, each a headless coding agent or a command. A task runs in a sandbox of the
  operating system when its manifest asks for one, and a daemon runs workflows on a schedule. This library
  models the Rust crates under \<open>src/crates\<close> and proves what makes them correct. It covers the crates
  \<open>beez-policy\<close>, \<open>beez-core\<close>, \<open>beez-process\<close>, \<open>beez-runner\<close>, \<open>beez-schedule\<close>, \<open>beez-manifest\<close>, \<open>beez-record\<close>,
  \<open>beez-daemon\<close>, \<open>beez-sandbox\<close> and \<open>beez-cli\<close>.

  \<^bold>\<open>How the program works.\<close> A manifest is read into task definitions (\<open>beez-manifest\<close>), which are validated into a
  workflow: names resolved, templates parsed, the graph free of cycles (\<open>beez-core\<close>). The runner starts in
  rounds every task whose dependencies have succeeded, collects the output of all processes of a round
  through one channel, and tells its caller each event (\<open>beez-runner\<close>, \<open>beez-process\<close>). The caller is the
  command line, which draws the events on a terminal, or the daemon; both write the log of the run
  (\<open>beez-record\<close>). The daemon keeps a list of manifests and what happened to each job, plans the next fire of
  each schedule, and answers commands on a socket; without a daemon the same commands change its files
  (\<open>beez-daemon\<close>, \<open>beez-schedule\<close>). The sandbox turns a policy (\<open>beez-policy\<close>) into paths and hosts, starts two proxies that
  reach allowed hosts only, and wraps the program in \<open>bwrap\<close> or \<open>sandbox-exec\<close> (\<open>beez-sandbox\<close>).
\<close>

section \<open>Conventions\<close>

text \<open>
  A Rust string, path or byte vector is its bytes, a HOL \<open>string\<close>; \<open>Text.chars\<close> splits valid text into characters.
  \<open>Result\<close> is a sum with the error on the left, and \<open>?\<close> is \<open>and_then\<close> or, where state is threaded,
  \<open>sbind\<close> of an \<open>action\<close>. A Rust struct is a record whose fields share a prefix, an enum is a datatype.
  An index that \<open>get\<close> checks is \<open>get_at\<close>. Machine integers are written out where they can overflow:
  \<open>Offset\<close> computes in \<open>32 word\<close>, \<open>Server\<close> counts in \<open>64 word\<close>, \<open>Store.fingerprint\<close> is modulo \<open>2 ^ 64\<close>; instants are
  nanoseconds as \<open>int\<close>.

  Code that is not in the repository is a parameter: the file system (\<open>loader\<close>, \<open>host\<close>, \<open>log_files\<close>, \<open>mask_files\<close>), \<open>chrono\<close> and
  the cron crate (\<open>calendar\<close>, \<open>formats\<close>), \<open>serde\<close> (the parsed document of a manifest, the JSON of the control socket), the
  operating system (\<open>system\<close>, \<open>kernel\<close>, \<open>landlock\<close>, \<open>network\<close>) and the order in which threads deliver their
  messages (\<open>arrivals\<close>). What a theorem needs of one of these is a named hypothesis, such as \<open>finds_first_match\<close> or
  \<open>arrives\<close>, and its witness gives a concrete one.
\<close>

section \<open>The theories\<close>

text \<open>
  \<^bold>\<open>Shared.\<close> \<open>Prelude\<close>: results, actions, and the interfaces \<open>text_codec\<close> (a type with a printer and a parser),
  \<open>name_table\<close> (an enum with unique names, which gives a codec), \<open>stepping\<close> and \<open>bounded_system\<close> (a step relation
  with an invariant, and with a bound on its runs), and \<open>refining\<close> (a step relation whose steps are those of
  an abstract one). \<open>Text\<close> and \<open>Paths\<close>: the parts of \<open>str\<close> and \<open>std::path\<close> that
  the program calls.

  \<^bold>\<open>Policies\<close> (\<open>beez-policy\<close>). \<open>Policy_Names\<close>, \<open>Policy_Domain\<close>, \<open>Policy_Path\<close>, \<open>Policy_Sections\<close>: the tables of groups, the rules
  for hosts and paths with their codecs, and the sections of a policy. \<open>layering\<close> is the contract of a
  section that is laid over a base: it is associative, has a neutral element and loses nothing that either
  names.

  \<^bold>\<open>Workflows\<close> (\<open>beez-core\<close>). \<open>Task\<close>, \<open>Template\<close>, \<open>Acyclic\<close>, \<open>Workflow\<close>, \<open>Execution\<close>. Validation accepts exactly the well-formed
  definitions and builds what they say; the depth-first search passes exactly the acyclic graphs;
  rendering replaces exactly the references; the states of an execution form a \<open>bounded_system\<close> in which no
  task starts early.

  \<^bold>\<open>Runs\<close> (\<open>beez-process\<close>, \<open>beez-runner\<close>). \<open>Process\<close>: arguments of a harness, and the relay of the two streams of a child for
  any interleaving of its two readers. \<open>Runner\<close>, \<open>Runner_Trace\<close>: \<open>run_workflow\<close> and the events it tells: a task starts only
  after its dependencies succeeded, the status is zero exactly when every task succeeded, a task that
  never starts is blocked by a failure, and the only errors are those of processes. \<open>Observers\<close>: the
  interface \<open>observer\<close> of a callback that never fails, and that it cannot change the run; it is
  interpreted for the daemon (\<open>Execute\<close>) and for the terminal (\<open>Report\<close>).

  \<^bold>\<open>Schedules and manifests\<close> (\<open>beez-schedule\<close>, \<open>beez-manifest\<close>). \<open>Offset\<close>, \<open>Cron\<close>, \<open>Schedule\<close>: offsets, the rewriting of crontab days, the
  zone of a schedule, and the interface \<open>firing\<close>: the fires of a schedule are exactly the instants it matches. \<open>Manifest\<close>: from a
  document to a workflow with its sandboxes.

  \<^bold>\<open>Logs\<close> (\<open>beez-record\<close>). \<open>Run_Log\<close>: the files of a run hold every byte and the outcome of every task. \<open>Log_Root\<close>: the link to
  the latest run and the \<open>.gitignore\<close> of a root. \<open>Prune\<close> (\<open>beez-daemon\<close>): a sweep keeps the newest runs. \<open>Stamps\<close>: the names of
  runs sort by their start, so a sweep goes by age, and when two runs have the same directory.

  \<^bold>\<open>Daemon\<close> (\<open>beez-daemon\<close>). \<open>Store\<close>, \<open>Job\<close>: files, the two stores (interface \<open>keyed_store\<close>), jobs from manifests. \<open>Daemon\<close>: the state and
  every handler. \<open>Daemon_Safety\<close>: the limit of runs. \<open>Daemon_Board\<close>: the daemon as a board of the runs that
  are going, which it refines from its start to its end. \<open>Daemon_Fires\<close>: what each fire leads to, no due fire is left, no room
  is wasted, one run per job. \<open>Daemon_Reload\<close>: what reading a manifest again keeps and loses. \<open>Daemon_Restart\<close>: the jobs and the state file
  agree at any time, so a restart knows what the daemon knew. \<open>Control\<close>: a command and its answer as lines on the socket. \<open>Client\<close>: commands with and without
  a daemon. \<open>Cli_Daemon\<close>: a command line down to the handler and back to its exit status. \<open>Daemon_Run\<close>: from the start to the end of the loop, and that a daemon told to stop ends. \<open>Execute\<close>: a run
  of a job refines the run of its workflow.

  \<^bold>\<open>Sandbox\<close> (\<open>beez-sandbox\<close>). \<open>Resolve\<close>: a policy as paths of a host, on each platform. \<open>Bubblewrap\<close>: the arguments of \<open>bwrap\<close> and what the mounts they ask
  for allow. \<open>Masks\<close>: the directories that concurrent runs create, share and remove, step by step. \<open>Seatbelt\<close>: the
  profile of macOS. \<open>Proxy\<close>, \<open>Http\<close>, \<open>Socks\<close>: the two proxies, from the first byte of a client to the piping. \<open>Piping\<close>: the two
  copying threads and their peers. \<open>Server\<close>: the accept loop, its handlers and its owner as interleaving threads. \<open>Sandbox\<close>: from
  a policy to the spawned command, and the process that prepares the inside of a Linux sandbox. \<open>Relays\<close>: the chain
  of two forwarding servers out of a sandbox, and that it loses and adds no byte. \<open>Denials\<close>: the line of a denied
  connection, from a proxy through the diagnostic hook to the terminal.

  \<^bold>\<open>Command line\<close> (\<open>beez-cli\<close>). \<open>Report\<close>: what each layout writes for the events of a run. \<open>Cli\<close>: every command from its parsed
  arguments to its exit status; the command line and the daemon agree on the status of a workflow.
\<close>

section \<open>Loops, bounds and threads\<close>

text \<open>
  No definition uses fuel. The search of \<open>Acyclic\<close> ends because a call never turns a seen task back into an unseen one;
  \<open>run_loop\<close> because each round starts a pending task; \<open>lenient_loop\<close> of \<open>Resolve\<close> because a parent is shorter;
  \<open>wait_loop\<close> of \<open>Sandbox\<close> because every try takes ten milliseconds of a time limit; \<open>start_waiting\<close> of \<open>Daemon\<close> because each
  turn starts a waiting job. The loop of the daemon runs until it is told to stop, so \<open>serve\<close> reads a list of
  turns and the theorem about it says which turns suffice to end it.

  Threads are modelled by what they may do in any order: the arrivals of a round are any interleaving
  of the messages of its jobs; \<open>Server\<close> and \<open>Masks\<close> are inductive step relations with one rule per atomic
  step; \<open>Piping\<close> and \<open>Relays\<close> are folds over any list of moves. The clients of a proxy share the set of reported targets
  under a lock, so \<open>Denials\<close> serves them one after the other. The state of the daemon belongs to one thread, which
  takes events off a channel, so its handlers are functions.
\<close>

section \<open>What modelling showed\<close>

text \<open>
  The code departs from what it means to do in these places.
  \<^item> \<open>offset.rs\<close> multiplies hours in \<open>i32\<close> before it checks the limit, so a release build accepts some huge offsets.
  \<^item> \<open>cron_schedule.rs\<close> shifts each end of a range of days alone, so \<open>5-7\<close> becomes a reversed range.
  \<^item> \<open>store.rs\<close> keeps the last fire to the second, so a one-time schedule at a fraction of a second is met again
    after a restart.
  \<^item> \<open>daemon.rs\<close>: a trigger starts a run after a stop; a waiting fire of a paused job does not start when the
    job resumes; a fire at the limit waits whatever its overlap policy.
  \<^item> \<open>daemon.rs\<close>: a manifest that fails to load for a moment drops the mark that its named jobs run
    (\<open>Daemon_Reload.broken_manifest_forgets_run\<close>); a changed manifest may bring an ID that another one uses.
  \<^item> \<open>job.rs\<close> reports a one-time job that waits as done.
  \<^item> \<open>run.rs\<close> reads the manifest again without the check that its tasks are sandboxed.
  \<^item> \<open>client.rs\<close> sends the path of a manifest as it was typed, so a running daemon refuses to remove a manifest that is named by
    a relative path (\<open>Client.remove_by_other_path\<close>).
  \<^item> \<open>report.rs\<close> never prints the collected output of a task whose process failed
    (\<open>Report.failed_task_shows_nothing\<close>).
  \<^item> \<open>log.rs\<close> names a run by its start to the millisecond and its process, and the daemon runs everything in one process:
    two jobs that begin within a millisecond write into one directory (\<open>Stamps.runs_share_directory_iff\<close>).
  \<^item> \<open>bubblewrap.rs\<close> leaves the markers of an attempt that fails half way, until a later run removes them.
\<close>

section \<open>Not modelled\<close>

text \<open>
  The following has no definitions here.
  \<^item> Reading the command line (\<open>clap\<close>), YAML and JSON (\<open>serde\<close>), dates (\<open>chrono\<close>): third-party code, and
    parameters of the model.
  \<^item> The drawing of the spinners and the locks of the terminal in \<open>report.rs\<close>.
  \<^item> Accessors, \<open>Debug\<close> and \<open>Display\<close> forwarding; the module lists; the test support crate.
  \<^item> A thread that panics while it runs a task, and the end of the process from outside.
\<close>

end
